(* ===== verification/Prelude.thy ===== *)
theory Prelude
  imports Main "HOL-Library.Word" "HOL-Library.Monad_Syntax"
begin

text \<open>
  Shared vocabulary of the development: the machine integers and byte slices of the Go
  sources, the parts of the Go runtime and of \<^verbatim>\<open>encoding/binary\<close> the program uses, and the
  generic lemmas on lists and words that the component theories rest on.

  A Go expression that can panic (an index or a slice out of range) is modelled with an
  \<^typ>\<open>'a option\<close> result, where \<^term>\<open>None\<close> is the panic.
\<close>

unbundle bit_operations_syntax

type_synonym u8 = "8 word"
type_synonym u16 = "16 word"
type_synonym u32 = "32 word"
type_synonym u64 = "64 word"
type_synonym bytes = "8 word list"

named_theorems go_defs \<open>definitions of the modelled parts of the Go runtime\<close>
named_theorems seq_simps \<open>arithmetic of the 12-bit sequence numbers\<close>

section \<open>Slices\<close>

text \<open>\<^verbatim>\<open>b[lo:hi]\<close> of a slice whose capacity is its length.\<close>

definition go_slice :: "'a list \<Rightarrow> nat \<Rightarrow> nat \<Rightarrow> 'a list option" where
  [go_defs]: "go_slice b lo hi =
     (if lo \<le> hi \<and> hi \<le> length b then Some (take (hi - lo) (drop lo b)) else None)"

text \<open>The same with Go's signed \<^verbatim>\<open>int\<close> bounds: a negative bound panics.\<close>

definition go_slice_int :: "'a list \<Rightarrow> int \<Rightarrow> int \<Rightarrow> 'a list option" where
  [go_defs]: "go_slice_int b lo hi =
     (if 0 \<le> lo \<and> 0 \<le> hi then go_slice b (nat lo) (nat hi) else None)"

text \<open>\<^verbatim>\<open>copy(b[off:], xs)\<close> where every byte of \<open>xs\<close> is known to fit: a write that
  does not fit is the panic of the indexed stores in \<^verbatim>\<open>encoding/binary\<close>.\<close>

definition blit :: "nat \<Rightarrow> 'a list \<Rightarrow> 'a list \<Rightarrow> 'a list option" where
  [go_defs]: "blit off xs b =
     (if off + length xs \<le> length b
      then Some (take off b @ xs @ drop (off + length xs) b) else None)"

lemma blit_length: "blit off xs b = Some b' \<Longrightarrow> length b' = length b"
  by (auto simp: blit_def split: if_splits)

lemma blit_eq_None_iff: "blit off xs b = None \<longleftrightarrow> length b < off + length xs"
  by (auto simp: blit_def)

lemma take_blit_exact:
  "blit off xs b = Some b' \<Longrightarrow> take (off + length xs) b' = take off b @ xs"
  by (auto simp: blit_def split: if_splits)

lemma go_slice_eq_Some_iff:
  "go_slice b lo hi = Some ys \<longleftrightarrow> lo \<le> hi \<and> hi \<le> length b \<and> ys = take (hi - lo) (drop lo b)"
  by (auto simp: go_slice_def)

section \<open>Little-endian and big-endian integers\<close>

definition le16 :: "u16 \<Rightarrow> bytes" where
  "le16 w = [ucast w, ucast (drop_bit 8 w)]"

definition le32 :: "u32 \<Rightarrow> bytes" where
  "le32 w = [ucast w, ucast (drop_bit 8 w), ucast (drop_bit 16 w), ucast (drop_bit 24 w)]"

definition le64 :: "u64 \<Rightarrow> bytes" where
  "le64 w = le32 (ucast w) @ le32 (ucast (drop_bit 32 w))"

fun Uint16 :: "bytes \<Rightarrow> u16 option" where
  "Uint16 (a # b # _) = Some (ucast a OR push_bit 8 (ucast b))"
| "Uint16 _ = None"

fun Uint32 :: "bytes \<Rightarrow> u32 option" where
  "Uint32 (a # b # c # d # _) =
     Some (ucast a OR push_bit 8 (ucast b) OR push_bit 16 (ucast c) OR push_bit 24 (ucast d))"
| "Uint32 _ = None"

definition Uint64 :: "bytes \<Rightarrow> u64 option" where
  "Uint64 b = do {
     lo \<leftarrow> Uint32 b;
     hi \<leftarrow> Uint32 (drop 4 b);
     Some (ucast lo OR push_bit 32 (ucast hi))
   }"

fun Uint32_BE :: "bytes \<Rightarrow> u32 option" where
  "Uint32_BE (a # b # c # d # _) = Uint32 [d, c, b, a]"
| "Uint32_BE _ = None"

fun Uint64_BE :: "bytes \<Rightarrow> u64 option" where
  "Uint64_BE (a # b # c # d # e # f # g # h # _) = Uint64 [h, g, f, e, d, c, b, a]"
| "Uint64_BE _ = None"

lemma le_lengths [simp]: "length (le16 w) = 2" "length (le32 v) = 4" "length (le64 u) = 8"
  by (simp_all add: le16_def le32_def le64_def)

text \<open>Splitting a word into bytes and joining them again, bit by bit.\<close>

lemma join_bytes16:
  "(ucast (ucast (w :: u16) :: u8) :: u16) OR push_bit 8 (ucast (ucast (drop_bit 8 w) :: u8)) = w"
  by (rule bit_word_eqI) (auto simp: bit_simps)

lemma join_bytes32:
  "(ucast (ucast (w :: u32) :: u8) :: u32) OR push_bit 8 (ucast (ucast (drop_bit 8 w) :: u8)) OR
     push_bit 16 (ucast (ucast (drop_bit 16 w) :: u8)) OR
     push_bit 24 (ucast (ucast (drop_bit 24 w) :: u8)) = w"
proof (rule bit_word_eqI)
  fix n assume "n < LENGTH(32)"
  then consider "n < 8" | "8 \<le> n \<and> n < 16" | "16 \<le> n \<and> n < 24" | "24 \<le> n \<and> n < 32"
    by (simp, linarith)
  then show "bit ((ucast (ucast w :: u8) :: u32) OR push_bit 8 (ucast (ucast (drop_bit 8 w) :: u8))
      OR push_bit 16 (ucast (ucast (drop_bit 16 w) :: u8))
      OR push_bit 24 (ucast (ucast (drop_bit 24 w) :: u8))) n = bit w n"
    by cases (simp_all add: bit_simps, linarith+)
qed

lemma join_words64:
  "(ucast (ucast (w :: u64) :: u32) :: u64) OR
     push_bit 32 (ucast (ucast (drop_bit 32 w) :: u32)) = w"
  by (rule bit_word_eqI) (auto simp: bit_simps)

lemma split_bytes16:
  "ucast ((ucast (a :: u8) :: u16) OR push_bit 8 (ucast (b :: u8))) = a"
  "ucast (drop_bit 8 ((ucast (a :: u8) :: u16) OR push_bit 8 (ucast (b :: u8)))) = b"
  by ((rule bit_word_eqI), (auto simp: bit_simps dest: bit_imp_le_length)[1])+

lemma split_bytes32:
  fixes a b c d :: u8
  defines "w \<equiv> (ucast a :: u32) OR push_bit 8 (ucast b) OR push_bit 16 (ucast c) OR
     push_bit 24 (ucast d)"
  shows "ucast w = a" "ucast (drop_bit 8 w) = b" "ucast (drop_bit 16 w) = c"
    "ucast (drop_bit 24 w) = d"
  unfolding w_def
  by ((rule bit_word_eqI), (auto simp: bit_simps dest: bit_imp_le_length)[1])+

lemma Uint16_le16 [simp]: "Uint16 (le16 w @ rest) = Some w"
  by (simp add: le16_def join_bytes16)

lemma Uint32_le32 [simp]: "Uint32 (le32 w @ rest) = Some w"
  by (simp add: le32_def join_bytes32)

lemma Uint64_le64 [simp]: "Uint64 (le64 w @ rest) = Some w"
  by (simp add: le64_def Uint64_def join_words64)

lemma Uint_le_Nil [simp]:
  "Uint16 (le16 w) = Some w" "Uint32 (le32 v) = Some v" "Uint64 (le64 u) = Some u"
  using Uint16_le16 [of w "[]"] Uint32_le32 [of v "[]"] Uint64_le64 [of u "[]"] by simp_all

lemma Uint16_Some: "2 \<le> length b \<Longrightarrow> \<exists>w. Uint16 b = Some w"
  by (cases b rule: Uint16.cases) auto

lemma Uint32_Some: "4 \<le> length b \<Longrightarrow> \<exists>w. Uint32 b = Some w"
  by (cases b rule: Uint32.cases) auto

lemma le16_join: "le16 (ucast a OR push_bit 8 (ucast b)) = [a, b]"
  unfolding le16_def split_bytes16 by (rule refl)

lemma le32_join:
  "le32 (ucast a OR push_bit 8 (ucast b) OR push_bit 16 (ucast c) OR push_bit 24 (ucast d)) =
     [a, b, c, d]"
  unfolding le32_def split_bytes32 by (rule refl)

lemma le16_Uint16:
  assumes "Uint16 b = Some w"
  shows "le16 w = take 2 b"
proof (cases b rule: Uint16.cases)
  case (1 a c rest)
  then have "w = ucast a OR push_bit 8 (ucast c)"
    using assms by (simp only: Uint16.simps option.inject)
  then have "le16 w = [a, c]" by (simp only: le16_join)
  with 1 show ?thesis by simp
qed (use assms in simp_all)

lemma le32_Uint32:
  assumes "Uint32 b = Some w"
  shows "le32 w = take 4 b"
proof (cases b rule: Uint32.cases)
  case (1 a c d e rest)
  then have "w = ucast a OR push_bit 8 (ucast c) OR push_bit 16 (ucast d) OR push_bit 24 (ucast e)"
    using assms by (simp only: Uint32.simps option.inject)
  then have "le32 w = [a, c, d, e]" by (simp only: le32_join)
  with 1 show ?thesis by simp
qed (use assms in simp_all)

section \<open>12-bit sequence numbers\<close>

lemma and_fff_take_bit: "(w :: u16) AND 0xFFF = take_bit 12 w"
  by (simp add: take_bit_eq_mask mask_eq_exp_minus_1)

lemma uint_and_fff [seq_simps]: "uint ((w :: u16) AND 0xFFF) = uint w mod 4096"
  unfolding and_fff_take_bit unsigned_take_bit_eq by (simp add: take_bit_eq_mod)

lemma unat_and_fff: "unat ((w :: u16) AND 0xFFF) = unat w mod 4096"
  unfolding and_fff_take_bit unsigned_take_bit_eq by (simp add: take_bit_eq_mod)

text \<open>Reading a 12-bit expression as an integer pushes the reduction to the leaves;
  \<open>mod_simps\<close> then gathers it again.\<close>

lemma uint_mod_4096 [seq_simps]:
  "uint ((a :: u16) + b) mod 4096 = (uint a mod 4096 + uint b mod 4096) mod 4096"
  "uint ((a :: u16) - b) mod 4096 = (uint a mod 4096 - uint b mod 4096) mod 4096"
  by (simp_all add: uint_word_ariths mod_mod_cancel mod_simps)

lemma int_unat_and_fff [seq_simps]: "int (unat ((w :: u16) AND 0xFFF)) = uint w mod 4096"
  unfolding unat_and_fff by (simp add: zmod_int)

lemma mod_succ_small:
  assumes "0 < m" "(x :: int) mod m + 1 < m"
  shows "(x + 1) mod m = x mod m + 1"
proof -
  have "(x + 1) mod m = (x mod m + 1) mod m" by (simp add: mod_add_left_eq)
  also have "\<dots> = x mod m + 1" using assms by (intro mod_pos_pos_trivial) auto
  finally show ?thesis .
qed

section \<open>Computations that may panic\<close>

text \<open>
  What holds of the result of a computation if it returns, and that it returns. The rules take a
  body in \<^theory_text>\<open>do\<close> notation apart, one construct at a time.
\<close>

definition post :: "('a \<Rightarrow> bool) \<Rightarrow> 'a option \<Rightarrow> bool" where
  "post Q m \<longleftrightarrow> (\<forall>x. m = Some x \<longrightarrow> Q x)"

definition returns :: "'a option \<Rightarrow> bool" where
  "returns m \<longleftrightarrow> (\<exists>x. m = Some x)"

lemma postD: "post Q m \<Longrightarrow> m = Some x \<Longrightarrow> Q x"
  by (simp add: post_def)

lemma post_bind: "(\<And>x. m = Some x \<Longrightarrow> post Q (k x)) \<Longrightarrow> post Q (m \<bind> k)"
  by (cases m) (simp_all add: post_def)

lemma returns_bind: "returns m \<Longrightarrow> (\<And>x. m = Some x \<Longrightarrow> returns (k x)) \<Longrightarrow> returns (m \<bind> k)"
  by (cases m) (simp_all add: returns_def)

text \<open>The case rules hold of any property; these are the instances for the two above.\<close>

lemma split_rules:
  shows split_if: "(b \<Longrightarrow> R x1) \<Longrightarrow> (\<not> b \<Longrightarrow> R x2) \<Longrightarrow> R (if b then x1 else x2)"
    and split_pair: "(\<And>u v. p = (u, v) \<Longrightarrow> R (k1 u v)) \<Longrightarrow> R (case p of (u, v) \<Rightarrow> k1 u v)"
    and split_opt: "(o1 = None \<Longrightarrow> R n) \<Longrightarrow> (\<And>u. o1 = Some u \<Longrightarrow> R (k2 u)) \<Longrightarrow>
      R (case o1 of None \<Rightarrow> n | Some u \<Rightarrow> k2 u)"
    and split_sum: "(\<And>u. z = Inl u \<Longrightarrow> R (k3 u)) \<Longrightarrow> (\<And>v. z = Inr v \<Longrightarrow> R (k4 v)) \<Longrightarrow>
      R (case z of Inl u \<Rightarrow> k3 u | Inr v \<Rightarrow> k4 v)"
    and split_bool: "(b \<Longrightarrow> R x1) \<Longrightarrow> (\<not> b \<Longrightarrow> R x2) \<Longrightarrow> R (case b of True \<Rightarrow> x1 | False \<Rightarrow> x2)"
    and split_Let: "R (k5 y) \<Longrightarrow> R (let z5 = y in k5 z5)"
  by (simp_all split: prod.split option.split sum.split bool.split)

lemmas post_split = split_rules [where R = "post Q" for Q]
lemmas returns_split = split_rules [where R = returns]

lemma post_None: "post Q None"
  and returns_Some: "returns (Some x)"
  by (simp_all add: post_def returns_def)

lemmas post_rules = post_bind post_split post_None
lemmas returns_rules = returns_bind returns_split returns_Some

end
