(* ===== verification/RdmaProtocol.thy ===== *)
theory RdmaProtocol
  imports Prelude
begin

text \<open>
  The packet formats of UDPRDMA (\<^verbatim>\<open>udprdma/protocol.go\<close>): the 2-byte base header, the 4-byte
  discovery header, the 4-byte data header, and the answer to a DISCOVERY packet.
  The lemmas show that packing and unpacking are inverse to each other in both directions, so
  no header bit is lost or invented, and characterise the discovery answer on every branch.
\<close>

section \<open>Constants\<close>

definition Service_UDPFS :: u16 where [simp]: "Service_UDPFS = 0xF5F5"

definition SendWindow :: nat where [simp]: "SendWindow = 8"
definition MaxDataPayload :: nat where [simp]: "MaxDataPayload = 1408"
definition FinAckTimeout :: nat where [simp]: "FinAckTimeout = 500"
definition WindowAckTimeout :: nat where [simp]: "WindowAckTimeout = 100"
definition MaxRetransmits :: nat where [simp]: "MaxRetransmits = 4"

definition PacketDiscovery :: u8 where [simp]: "PacketDiscovery = 0"
definition PacketInform :: u8 where [simp]: "PacketInform = 1"
definition PacketData :: u8 where [simp]: "PacketData = 2"

definition DataFlagACK :: u8 where [simp]: "DataFlagACK = 1"
definition DataFlagFIN :: u8 where [simp]: "DataFlagFIN = 2"

definition headerSize :: nat where [simp]: "headerSize = 2"
definition discHeaderSize :: nat where [simp]: "discHeaderSize = 4"
definition dataHeaderSize :: nat where [simp]: "dataHeaderSize = 4"

text \<open>The errors of this package, one constructor per \<^verbatim>\<open>fmt.Errorf\<close>.\<close>

datatype rdma_error =
    HeaderTooShort
  | DiscHeaderTooShort
  | DataHeaderTooShort
  | InvalidHeader "rdma_error option"
  | InvalidDiscHeader rdma_error
  | InvalidDataHeader rdma_error
  | WrongPacketType u8
  | WrongServiceID u16 u16

section \<open>The base header\<close>

record Header =
  PacketType :: u8
  SeqNr :: u16

definition UnpackHeader :: "bytes \<Rightarrow> (rdma_error + Header) option" where
  "UnpackHeader b =
     (if length b < 2 then Some (Inl HeaderTooShort)
      else do {
        s \<leftarrow> go_slice b 0 2;
        val \<leftarrow> Uint16 s;
        Some (Inr \<lparr>PacketType = ucast (val AND 0xF), SeqNr = drop_bit 4 val AND 0xFFF\<rparr>)
      })"

definition Header_val :: "Header \<Rightarrow> u16" where
  "Header_val h = ucast (PacketType h AND 0xF) OR push_bit 4 (SeqNr h AND 0xFFF)"

definition Header_Pack :: "Header \<Rightarrow> nat \<Rightarrow> bytes \<Rightarrow> bytes option" where
  "Header_Pack h off b = blit off (le16 (Header_val h)) b"

section \<open>The discovery header\<close>

record DiscHeader =
  ServiceID :: u16
  Reserved :: u16

definition UnpackDiscHeader :: "bytes \<Rightarrow> (rdma_error + DiscHeader) option" where
  "UnpackDiscHeader b =
     (if length b < 4 then Some (Inl DiscHeaderTooShort)
      else do {
        s0 \<leftarrow> go_slice b 0 2; v0 \<leftarrow> Uint16 s0;
        s1 \<leftarrow> go_slice b 2 4; v1 \<leftarrow> Uint16 s1;
        Some (Inr \<lparr>ServiceID = v0, Reserved = v1\<rparr>)
      })"

definition DiscHeader_Pack :: "DiscHeader \<Rightarrow> nat \<Rightarrow> bytes \<Rightarrow> bytes option" where
  "DiscHeader_Pack d off b = do {
     b1 \<leftarrow> blit off (le16 (ServiceID d)) b;
     blit (off + 2) (le16 (Reserved d)) b1
   }"

section \<open>The data header\<close>

record DataHeader =
  SeqNrAck :: u16
  Flags :: u8
  HdrWordCount :: u8
  DataByteCount :: u16

definition UnpackDataHeader :: "bytes \<Rightarrow> (rdma_error + DataHeader) option" where
  "UnpackDataHeader b =
     (if length b < 4 then Some (Inl DataHeaderTooShort)
      else do {
        s \<leftarrow> go_slice b 0 4;
        val \<leftarrow> Uint32 s;
        Some (Inr \<lparr>SeqNrAck = ucast (val AND 0xFFF),
                   Flags = ucast (drop_bit 12 val AND 0x3),
                   HdrWordCount = ucast (drop_bit 14 val AND 0xF),
                   DataByteCount = ucast (drop_bit 18 val AND 0x3FFF)\<rparr>)
      })"

definition DataHeader_val :: "DataHeader \<Rightarrow> u32" where
  "DataHeader_val d =
     ucast (SeqNrAck d AND 0xFFF) OR
     push_bit 12 (ucast (Flags d AND 0x3)) OR
     push_bit 14 (ucast (HdrWordCount d AND 0xF)) OR
     push_bit 18 (ucast (DataByteCount d AND 0x3FFF))"

definition DataHeader_Pack :: "DataHeader \<Rightarrow> nat \<Rightarrow> bytes \<Rightarrow> bytes option" where
  "DataHeader_Pack d off b = blit off (le32 (DataHeader_val d)) b"

section \<open>Discovery\<close>

definition ProcessDiscoveryPacket :: "bytes \<Rightarrow> u16 \<Rightarrow> (rdma_error + bytes) option" where
  "ProcessDiscoveryPacket b expectedService = do {
     r \<leftarrow> UnpackHeader b;
     case r of
       Inl e \<Rightarrow> Some (Inl (InvalidHeader (Some e)))
     | Inr hdr \<Rightarrow>
         if PacketType hdr \<noteq> PacketDiscovery then Some (Inl (WrongPacketType (PacketType hdr)))
         else do {
           rest \<leftarrow> go_slice b 2 (length b);
           r2 \<leftarrow> UnpackDiscHeader rest;
           case r2 of
             Inl e \<Rightarrow> Some (Inl (InvalidDiscHeader e))
           | Inr disc \<Rightarrow>
               if ServiceID disc \<noteq> expectedService
               then Some (Inl (WrongServiceID (ServiceID disc) expectedService))
               else do {
                 let reply = replicate (headerSize + discHeaderSize) 0;
                 p1 \<leftarrow> Header_Pack \<lparr>PacketType = PacketInform, SeqNr = 1\<rparr> 0 reply;
                 p2 \<leftarrow> DiscHeader_Pack \<lparr>ServiceID = expectedService, Reserved = 0\<rparr> headerSize p1;
                 Some (Inr p2)
               }
         }
   }"

section \<open>Well-formed headers\<close>

text \<open>The widths the comments of the structs give to the fields.\<close>

definition wf_Header :: "Header \<Rightarrow> bool" where
  "wf_Header h \<longleftrightarrow> PacketType h AND 0xF = PacketType h \<and> SeqNr h AND 0xFFF = SeqNr h"

definition wf_DataHeader :: "DataHeader \<Rightarrow> bool" where
  "wf_DataHeader d \<longleftrightarrow> SeqNrAck d AND 0xFFF = SeqNrAck d \<and> Flags d AND 0x3 = Flags d \<and>
     HdrWordCount d AND 0xF = HdrWordCount d \<and> DataByteCount d AND 0x3FFF = DataByteCount d"

lemma mask_takes:
  "(x :: u8) AND 0xF = take_bit 4 x" "(x :: u8) AND 0x3 = take_bit 2 x"
  "(y :: u16) AND 0xF = take_bit 4 y" "(y :: u16) AND 0xFFF = take_bit 12 y"
  "(y :: u16) AND 0x3FFF = take_bit 14 y"
  "(z :: u32) AND 0xFFF = take_bit 12 z" "(z :: u32) AND 0x3 = take_bit 2 z"
  "(z :: u32) AND 0xF = take_bit 4 z" "(z :: u32) AND 0x3FFF = take_bit 14 z"
  by (simp_all add: take_bit_eq_mask mask_eq_exp_minus_1)

text \<open>What unpacking makes of the packed value: the fields, cut to their widths.\<close>

lemma Header_val_fields:
  "ucast (Header_val h AND 0xF) = PacketType h AND 0xF"
  "drop_bit 4 (Header_val h) AND 0xFFF = SeqNr h AND 0xFFF"
  unfolding Header_val_def mask_takes
  by ((rule bit_word_eqI), (auto simp: bit_simps dest: bit_imp_le_length)[1])+

lemma DataHeader_val_fields:
  "ucast (DataHeader_val d AND 0xFFF) = SeqNrAck d AND 0xFFF"
  "ucast (drop_bit 12 (DataHeader_val d) AND 0x3) = Flags d AND 0x3"
  "ucast (drop_bit 14 (DataHeader_val d) AND 0xF) = HdrWordCount d AND 0xF"
  "ucast (drop_bit 18 (DataHeader_val d) AND 0x3FFF) = DataByteCount d AND 0x3FFF"
  unfolding DataHeader_val_def mask_takes
  by ((rule bit_word_eqI), (auto simp: bit_simps dest: bit_imp_le_length)[1])+

text \<open>Conversely every 16-bit and every 32-bit value is the packing of the fields read from it.\<close>

lemma Header_val_unpack:
  "Header_val \<lparr>PacketType = ucast (v AND 0xF), SeqNr = drop_bit 4 v AND 0xFFF\<rparr> = v"
proof (rule bit_word_eqI)
  fix n assume "n < LENGTH(16)"
  then consider "n < 4" | "4 \<le> n \<and> n < 16"
    by (simp, linarith)
  then show "bit (Header_val \<lparr>PacketType = ucast (v AND 0xF),
      SeqNr = drop_bit 4 v AND 0xFFF\<rparr>) n = bit v n"
    unfolding Header_val_def mask_takes
    by cases (simp_all add: bit_simps, linarith)
qed

lemma DataHeader_val_unpack:
  "DataHeader_val \<lparr>SeqNrAck = ucast (v AND 0xFFF), Flags = ucast (drop_bit 12 v AND 0x3),
     HdrWordCount = ucast (drop_bit 14 v AND 0xF),
     DataByteCount = ucast (drop_bit 18 v AND 0x3FFF)\<rparr> = v"
proof (rule bit_word_eqI)
  fix n assume "n < LENGTH(32)"
  then consider "n < 12" | "12 \<le> n \<and> n < 14" | "14 \<le> n \<and> n < 18" | "18 \<le> n \<and> n < 32"
    by (simp, linarith)
  then show "bit (DataHeader_val \<lparr>SeqNrAck = ucast (v AND 0xFFF),
      Flags = ucast (drop_bit 12 v AND 0x3), HdrWordCount = ucast (drop_bit 14 v AND 0xF),
      DataByteCount = ucast (drop_bit 18 v AND 0x3FFF)\<rparr>) n = bit v n"
    unfolding DataHeader_val_def mask_takes
    by cases (simp_all add: bit_simps, linarith+)
qed

section \<open>The contract of a fixed-width header\<close>

text \<open>
  What the senders and receivers rely on for each of the three headers: \<open>pack\<close> writes
  \<open>width\<close> bytes at an offset, \<open>unpack\<close> rejects a shorter slice and otherwise reads back a
  well-formed header whose encoding is exactly the bytes read.
\<close>

locale wire_header =
  fixes enc :: "'h \<Rightarrow> bytes"
    and pack :: "'h \<Rightarrow> nat \<Rightarrow> bytes \<Rightarrow> bytes option"
    and unpack :: "bytes \<Rightarrow> (rdma_error + 'h) option"
    and width :: nat
    and wf :: "'h \<Rightarrow> bool"
    and short :: rdma_error
  assumes pack_blit: "pack h off b = blit off (enc h) b"
    and enc_length: "length (enc h) = width"
    and unpack_short: "length b < width \<Longrightarrow> unpack b = Some (Inl short)"
    and unpack_enc: "wf h \<Longrightarrow> unpack (enc h @ rest) = Some (Inr h)"
    and unpack_long: "width \<le> length b \<Longrightarrow> \<exists>h. unpack b = Some (Inr h) \<and> wf h \<and> enc h = take width b"
begin

lemma unpack_no_panic: "unpack b \<noteq> None"
  by (cases "length b < width") (use unpack_short unpack_long in force)+

lemma pack_eq:
  "off + width \<le> length b \<Longrightarrow> pack h off b = Some (take off b @ enc h @ drop (off + width) b)"
  by (simp add: pack_blit blit_def enc_length)

lemma roundtrip:
  assumes "wf h" "off + width \<le> length b"
  shows "\<exists>b'. pack h off b = Some b' \<and> length b' = length b \<and> take off b' = take off b \<and>
     drop (off + width) b' = drop (off + width) b \<and> unpack (drop off b') = Some (Inr h)"
  using assms by (auto simp: pack_eq enc_length unpack_enc)

lemma unpack_Inr:
  assumes "unpack b = Some (Inr h)"
  shows "wf h" "width \<le> length b" "enc h = take width b"
proof -
  show w: "width \<le> length b"
    using assms unpack_short [of b] by (cases "length b < width") auto
  from unpack_long [OF this] assms show "wf h" "enc h = take width b" by auto
qed

lemma repack:
  assumes "unpack b = Some (Inr h)"
  shows "pack h 0 b = Some b"
  using unpack_Inr [OF assms] pack_eq [of 0 b h] by simp

lemma enc_inj: "wf h \<Longrightarrow> wf h' \<Longrightarrow> enc h = enc h' \<Longrightarrow> h = h'"
  using unpack_enc [of h "[]"] unpack_enc [of h' "[]"] by simp

end

lemma Uint16_take2: "2 \<le> length b \<Longrightarrow> \<exists>w. Uint16 (take 2 b) = Some w \<and> le16 w = take 2 b"
  using Uint16_Some [of "take 2 b"] le16_Uint16 by fastforce

lemma Uint32_take4: "4 \<le> length b \<Longrightarrow> \<exists>w. Uint32 (take 4 b) = Some w \<and> le32 w = take 4 b"
  using Uint32_Some [of "take 4 b"] le32_Uint32 by fastforce

interpretation base_hdr: wire_header "\<lambda>h. le16 (Header_val h)" Header_Pack UnpackHeader headerSize
  wf_Header HeaderTooShort
proof (unfold_locales, goal_cases)
  case (5 b)
  then obtain w where w: "Uint16 (take 2 b) = Some w" "le16 w = take 2 b"
    using Uint16_take2 by auto
  let ?h = "\<lparr>PacketType = ucast (w AND 0xF), SeqNr = drop_bit 4 w AND 0xFFF\<rparr> :: Header"
  have "UnpackHeader b = Some (Inr ?h)"
    using 5 w by (simp add: UnpackHeader_def go_slice_def)
  moreover have "wf_Header ?h"
    unfolding wf_Header_def Header.simps mask_takes
    by (intro conjI; (rule bit_word_eqI, auto simp: bit_simps)?)
  moreover have "le16 (Header_val ?h) = take headerSize b"
    by (simp only: Header_val_unpack w headerSize_def)
  ultimately show ?case by blast
qed (auto simp: Header_Pack_def UnpackHeader_def go_slice_def wf_Header_def Header_val_fields)

interpretation disc_hdr: wire_header "\<lambda>d. le16 (ServiceID d) @ le16 (Reserved d)" DiscHeader_Pack
  UnpackDiscHeader discHeaderSize "\<lambda>_. True" DiscHeaderTooShort
proof (unfold_locales, goal_cases)
  case (1 h off b)
  then show ?case by (auto simp: DiscHeader_Pack_def blit_def eval_nat_numeral)
next
  case (5 b)
  then obtain v w where v: "Uint16 (take 2 b) = Some v" "le16 v = take 2 b"
    and w: "Uint16 (take 2 (drop 2 b)) = Some w" "le16 w = take 2 (drop 2 b)"
    using Uint16_take2 [of b] Uint16_take2 [of "drop 2 b"] by force
  have "UnpackDiscHeader b = Some (Inr \<lparr>ServiceID = v, Reserved = w\<rparr>)"
    using 5 v w by (simp add: UnpackDiscHeader_def go_slice_def)
  moreover have "le16 v @ le16 w = take discHeaderSize b"
    unfolding v w by (simp flip: take_add)
  ultimately show ?case by (intro exI [of _ "\<lparr>ServiceID = v, Reserved = w\<rparr>"]) simp
qed (auto simp: UnpackDiscHeader_def go_slice_def)

interpretation data_hdr: wire_header "\<lambda>d. le32 (DataHeader_val d)" DataHeader_Pack UnpackDataHeader
  dataHeaderSize wf_DataHeader DataHeaderTooShort
proof (unfold_locales, goal_cases)
  case (5 b)
  then obtain w where w: "Uint32 (take 4 b) = Some w" "le32 w = take 4 b"
    using Uint32_take4 by auto
  let ?h = "\<lparr>SeqNrAck = ucast (w AND 0xFFF), Flags = ucast (drop_bit 12 w AND 0x3),
     HdrWordCount = ucast (drop_bit 14 w AND 0xF),
     DataByteCount = ucast (drop_bit 18 w AND 0x3FFF)\<rparr> :: DataHeader"
  have "UnpackDataHeader b = Some (Inr ?h)"
    using 5 w by (simp add: UnpackDataHeader_def go_slice_def)
  moreover have "wf_DataHeader ?h"
    unfolding wf_DataHeader_def DataHeader.simps mask_takes
    by (intro conjI; (rule bit_word_eqI, auto simp: bit_simps)?)
  moreover have "le32 (DataHeader_val ?h) = take dataHeaderSize b"
    by (simp only: DataHeader_val_unpack w dataHeaderSize_def)
  ultimately show ?case by blast
qed (auto simp: DataHeader_Pack_def UnpackDataHeader_def go_slice_def wf_DataHeader_def
  DataHeader_val_fields)

section \<open>Properties\<close>

text \<open>
  C29: A data header whose fields respect their bit widths survives the wire: packing it at any
  offset of a buffer that has room succeeds, changes only those four bytes, and unpacking there
  returns the same header.
\<close>

theorem DataHeader_roundtrip:
  assumes "wf_DataHeader d" "off + dataHeaderSize \<le> length b"
  shows "\<exists>b'. DataHeader_Pack d off b = Some b' \<and> length b' = length b \<and>
     take off b' = take off b \<and> drop (off + dataHeaderSize) b' = drop (off + dataHeaderSize) b \<and>
     UnpackDataHeader (drop off b') = Some (Inr d)"
  using assms by (rule data_hdr.roundtrip)

theorem DataHeader_roundtrip_witness:
  "\<exists>b'. DataHeader_Pack \<lparr>SeqNrAck = 0xABC, Flags = 3, HdrWordCount = 2, DataByteCount = 1400\<rparr> 2
       (replicate 6 0) = Some b' \<and> length b' = 6 \<and>
     UnpackDataHeader (drop 2 b') =
       Some (Inr \<lparr>SeqNrAck = 0xABC, Flags = 3, HdrWordCount = 2, DataByteCount = 1400\<rparr>)"
  using DataHeader_roundtrip [of "\<lparr>SeqNrAck = 0xABC, Flags = 3, HdrWordCount = 2,
      DataByteCount = 1400\<rparr>" 2 "replicate 6 0"]
  by (auto simp: wf_DataHeader_def)

text \<open>
  C30: No bit of a received data header is dropped: whatever four bytes arrive, unpacking them and
  packing the result over them again leaves the buffer unchanged. The four fields cover the 32 bits.
\<close>

theorem DataHeader_repack:
  assumes "UnpackDataHeader b = Some (Inr d)"
  shows "DataHeader_Pack d 0 b = Some b \<and> wf_DataHeader d"
  using data_hdr.repack [OF assms] data_hdr.unpack_Inr(1) [OF assms] by simp

theorem DataHeader_repack_witness:
  "DataHeader_Pack \<lparr>SeqNrAck = 0x201, Flags = 0, HdrWordCount = 0xC, DataByteCount = 0x100\<rparr> 0
     [0x01, 0x02, 0x03, 0x04] = Some [0x01, 0x02, 0x03, 0x04]"
  using DataHeader_repack [of "[0x01, 0x02, 0x03, 0x04]"
      "\<lparr>SeqNrAck = 0x201, Flags = 0, HdrWordCount = 0xC, DataByteCount = 0x100\<rparr>"]
  by (simp add: UnpackDataHeader_def go_slice_def)

text \<open>
  C31: The base header has the same two laws: a well-formed header packed into any buffer of at
  least two bytes is read back, and whatever is read back re-encodes to the bytes it came from.
\<close>

theorem Header_roundtrip:
  "(wf_Header h \<longrightarrow> headerSize \<le> length b \<longrightarrow>
      (\<exists>b'. Header_Pack h 0 b = Some b' \<and> UnpackHeader b' = Some (Inr h))) \<and>
   (UnpackHeader b = Some (Inr h) \<longrightarrow> Header_Pack h 0 b = Some b)"
  using base_hdr.roundtrip [of h 0 b] base_hdr.repack [of b h] by auto

theorem Header_roundtrip_witness:
  "wf_Header \<lparr>PacketType = 2, SeqNr = 0xFFF\<rparr> \<and>
   (\<exists>b'. Header_Pack \<lparr>PacketType = 2, SeqNr = 0xFFF\<rparr> 0 [0, 0, 7] = Some b' \<and>
      UnpackHeader b' = Some (Inr \<lparr>PacketType = 2, SeqNr = 0xFFF\<rparr>))"
  using Header_roundtrip [of "\<lparr>PacketType = 2, SeqNr = 0xFFF\<rparr>" "[0, 0, 7]"]
  by (simp add: wf_Header_def)

text \<open>The bytes of the answer to a DISCOVERY packet.\<close>

lemma inform_bytes: "le16 (Header_val \<lparr>PacketType = PacketInform, SeqNr = 1\<rparr>) = [0x11, 0]"
  by (simp add: Header_val_def le16_def)

lemma discovery_reply:
  "do { p1 \<leftarrow> Header_Pack \<lparr>PacketType = PacketInform, SeqNr = 1\<rparr> 0 (replicate 6 0);
        p2 \<leftarrow> DiscHeader_Pack \<lparr>ServiceID = svc, Reserved = 0\<rparr> 2 p1;
        Some (Inr p2) } = Some (Inr ([0x11, 0] @ le16 svc @ [0, 0]))"
  using inform_bytes
  by (simp add: base_hdr.pack_eq disc_hdr.pack_eq) (simp add: le16_def)

lemma UnpackHeader_byte0:
  assumes "2 \<le> length b"
  shows "\<exists>n. UnpackHeader b = Some (Inr \<lparr>PacketType = b ! 0 AND 0xF, SeqNr = n\<rparr>)"
proof -
  obtain x y r where b: "b = x # y # r"
    using assms by (auto simp: numeral_2_eq_2 Suc_le_length_iff)
  have "ucast ((ucast x OR push_bit 8 (ucast y) :: u16) AND 0xF) = x AND 0xF"
    unfolding mask_takes by (rule bit_word_eqI) (auto simp: bit_simps dest: bit_imp_le_length)
  then show ?thesis
    by (simp add: UnpackHeader_def b go_slice_def numeral_2_eq_2)
qed

lemma UnpackDiscHeader_bytes:
  assumes "4 \<le> length b"
  shows "\<exists>v r. UnpackDiscHeader b = Some (Inr \<lparr>ServiceID = v, Reserved = r\<rparr>) \<and> le16 v = [b ! 0, b ! 1]"
proof -
  obtain d where d: "UnpackDiscHeader b = Some (Inr d)"
    using disc_hdr.unpack_long [of b] assms by auto
  obtain w x y z r where "b = w # x # y # z # r"
    using assms by (auto simp: eval_nat_numeral Suc_le_length_iff)
  moreover have "take 2 (le16 (ServiceID d) @ le16 (Reserved d)) = take 2 (take 4 b)"
    using disc_hdr.unpack_Inr(3) [OF d] by simp
  ultimately have "le16 (ServiceID d) = [b ! 0, b ! 1]"
    by (simp add: numeral_2_eq_2)
  with d show ?thesis by (cases d) auto
qed

text \<open>
  C35: The discovery handler never panics, and it answers exactly the DISCOVERY packets (type 0) of
  at least six bytes that ask for the expected service; the answer is the INFORM packet with
  sequence number 1, the service id and a zero reserved field.
\<close>

theorem ProcessDiscoveryPacket_answers:
  "ProcessDiscoveryPacket b svc \<noteq> None \<and>
   (ProcessDiscoveryPacket b svc = Some (Inr reply) \<longleftrightarrow>
      6 \<le> length b \<and> b ! 0 AND 0xF = 0 \<and> [b ! 2, b ! 3] = le16 svc \<and>
      reply = [0x11, 0] @ le16 svc @ [0, 0])"
proof (cases "length b < 2")
  case True
  then show ?thesis
    by (simp add: ProcessDiscoveryPacket_def UnpackHeader_def)
next
  case False
  then obtain n where h: "UnpackHeader b = Some (Inr \<lparr>PacketType = b ! 0 AND 0xF, SeqNr = n\<rparr>)"
    using UnpackHeader_byte0 [of b] by auto
  show ?thesis
  proof (cases "length b < 6")
    case True
    with False h show ?thesis
      by (auto simp: ProcessDiscoveryPacket_def go_slice_def UnpackDiscHeader_def)
  next
    case len: False
    then have l4: "4 \<le> length (drop 2 b)" by simp
    then obtain v r where d: "UnpackDiscHeader (drop 2 b) = Some (Inr \<lparr>ServiceID = v, Reserved = r\<rparr>)"
      and v: "le16 v = [b ! 2, b ! 3]"
      using UnpackDiscHeader_bytes [OF l4] by (auto simp: eval_nat_numeral)
    have "v = svc \<longleftrightarrow> [b ! 2, b ! 3] = le16 svc"
      using v by (metis Uint_le_Nil(1) option.inject)
    with len h d show ?thesis
      using discovery_reply [of svc]
      by (auto simp: ProcessDiscoveryPacket_def go_slice_def)
  qed
qed

end
