(* ===== verification/RdmaSession.thy ===== *)
theory RdmaSession
  imports RdmaProtocol
begin

text \<open>
  The state of a UDPRDMA session and the operations that only read it or move its timer and its
  retransmit ring (\<^verbatim>\<open>udprdma/session.go\<close>, \<^verbatim>\<open>ack_timer.go\<close>, \<^verbatim>\<open>metrics.go\<close>, and the two ring loops of
  \<^verbatim>\<open>session_tx.go\<close>).

  \<^item> The mutex is not a field: every exported method takes it for its whole body, so a session
    runs one operation at a time and an operation is one function on the state.
  \<^item> The calls \<^verbatim>\<open>writeTo\<close>, \<^verbatim>\<open>writeBatch\<close> and \<^verbatim>\<open>resetCallback\<close> are recorded in order in
    \<open>outbox\<close>; \<open>wire\<close> reads off the datagrams.
  \<^item> The fixed array \<^verbatim>\<open>txBuffer [2048]txPacket\<close> is a function of the index. Each entry keeps its
    1500-byte backing array and the length of the slice over it, because \<^verbatim>\<open>packDataPacket\<close>
    re-slices the old packet up to its capacity.
  \<^item> \<open>ackTimer\<close> is the duration in milliseconds the timer was last reset to, or \<^term>\<open>None\<close> when
    stopped. Its callback is a step of its own that may run at any time.
\<close>

section \<open>State\<close>

datatype ackWait = ackWaitNone | ackWaitWindow | ackWaitFin

datatype effect = WriteTo bytes | WriteBatch "bytes list" | CallReset

fun wire :: "effect list \<Rightarrow> bytes list" where
  "wire [] = []"
| "wire (WriteTo p # es) = p # wire es"
| "wire (WriteBatch ps # es) = ps @ wire es"
| "wire (CallReset # es) = wire es"

record txPacket =
  tx_buf :: bytes
  tx_len :: nat
  tx_seq :: u16

definition tx_data :: "txPacket \<Rightarrow> bytes" where
  "tx_data p = take (tx_len p) (tx_buf p)"

record transfer =
  tr_header :: bytes
  tr_data :: "bytes option"
  tr_offset :: int
  tr_maxChunk :: nat

record metricContainer =
  packetsTx :: u64
  packetsRx :: u64
  retransmits :: u64
  nacks :: u64
  unexpectedSeqNrs :: u64
  peerNACKs :: u64
  peerResets :: u64

record session = metricContainer +
  resetCallback :: bool
  txBuffer :: "nat \<Rightarrow> txPacket"
  txWriteIndex :: nat
  txReadIndex :: nat
  xfer :: transfer
  txSeqNr :: u16
  txSeqNrAcked :: u16
  rxSeqExpected :: u16
  packetBuf :: bytes
  ackTimer :: "nat option"
  ackTimerExpectSeq :: u16
  ackTimerSeq :: u16
  ackWaitMode :: ackWait
  retransmitAttempts :: nat
  finPending :: bool
  closed :: bool
  outbox :: "effect list"

definition ringSize :: nat where [simp]: "ringSize = 2048"

definition packetCap :: nat where [simp]: "packetCap = 1500"

definition NewSession :: session where
  "NewSession = \<lparr>
     packetsTx = 0, packetsRx = 0, retransmits = 0, nacks = 0, unexpectedSeqNrs = 0,
     peerNACKs = 0, peerResets = 0,
     resetCallback = False,
     txBuffer = (\<lambda>_. \<lparr>tx_buf = replicate packetCap 0, tx_len = packetCap, tx_seq = 0\<rparr>),
     txWriteIndex = 0, txReadIndex = 0,
     xfer = \<lparr>tr_header = [], tr_data = None, tr_offset = 0, tr_maxChunk = 0\<rparr>,
     txSeqNr = 0, txSeqNrAcked = 0xFFF, rxSeqExpected = 0,
     packetBuf = replicate packetCap 0,
     ackTimer = None, ackTimerExpectSeq = 0, ackTimerSeq = 0, ackWaitMode = ackWaitNone,
     retransmitAttempts = 0, finPending = False, closed = False, outbox = []\<rparr>"

definition SetResetCallback :: "session \<Rightarrow> session" where
  "SetResetCallback s = s\<lparr>resetCallback := True\<rparr>"

record SessionStats =
  TotalPacketsTx :: u64
  TotalPacketsRx :: u64
  Retransmits :: u64
  NACKCount :: u64
  UnexpectedSeqNrCount :: u64
  PeerNACKCount :: u64
  PeerResetCount :: u64

definition Session_GetMetrics :: "session \<Rightarrow> SessionStats" where
  "Session_GetMetrics s = \<lparr>
     TotalPacketsTx = packetsTx s, TotalPacketsRx = packetsRx s, Retransmits = retransmits s,
     NACKCount = nacks s, UnexpectedSeqNrCount = unexpectedSeqNrs s,
     PeerNACKCount = peerNACKs s, PeerResetCount = peerResets s\<rparr>"

section \<open>Sequence numbers and the window\<close>

definition InFlight :: "session \<Rightarrow> nat" where
  "InFlight s =
     (if txReadIndex s = txWriteIndex s then 0
      else unat ((txSeqNr s - txSeqNrAcked s - 1) AND 0xFFF))"

lemma InFlight_int:
  "txReadIndex s \<noteq> txWriteIndex s \<Longrightarrow>
   int (InFlight s) = (uint (txSeqNr s) - (uint (txSeqNrAcked s) + 1)) mod 4096"
  by (simp add: InFlight_def seq_simps mod_simps diff_diff_eq)

definition seqBetween :: "u16 \<Rightarrow> u16 \<Rightarrow> u16 \<Rightarrow> bool" where
  "seqBetween start seq end =
     (let start = start AND 0xFFF; seq = seq AND 0xFFF; end = end AND 0xFFF in
      if start \<le> end then start \<le> seq \<and> seq \<le> end
      else start \<le> seq \<or> seq \<le> end)"

section \<open>The ACK timer\<close>

definition armAckTimer :: "session \<Rightarrow> session" where
  "armAckTimer s =
     (let (d, mode) = (if finPending s then (FinAckTimeout, ackWaitFin)
                       else (WindowAckTimeout, ackWaitWindow)) in
      if ackWaitMode s = mode then s
      else s\<lparr>ackTimerSeq := ackTimerSeq s + 1, ackTimerExpectSeq := ackTimerSeq s + 1,
             ackWaitMode := mode, ackTimer := Some d\<rparr>)"

definition stopAckTimer :: "session \<Rightarrow> session" where
  "stopAckTimer s =
     s\<lparr>ackTimerSeq := ackTimerSeq s + 1, ackWaitMode := ackWaitNone, ackTimer := None\<rparr>"

definition updateAckTimer :: "session \<Rightarrow> session" where
  "updateAckTimer s =
     (if InFlight s = 0 then stopAckTimer s
      else if finPending s \<or> (tr_data (xfer s) \<noteq> None \<and> SendWindow \<le> InFlight s)
      then armAckTimer s
      else stopAckTimer s)"

section \<open>Resetting\<close>

definition clearTransfer :: "session \<Rightarrow> session" where
  "clearTransfer s =
     s\<lparr>xfer := (xfer s)\<lparr>tr_header := [], tr_data := None, tr_offset := - 1\<rparr>\<rparr>"

definition resetSendState :: "session \<Rightarrow> session" where
  "resetSendState s =
     (let s = stopAckTimer (s\<lparr>txReadIndex := 0, txWriteIndex := 0\<rparr>)
      in s\<lparr>retransmitAttempts := 0, finPending := False\<rparr>)"

definition ResetSession :: "session \<Rightarrow> session" where
  "ResetSession s =
     (let s = s\<lparr>txSeqNr := 0, txSeqNrAcked := 0xFFF, txReadIndex := 0, txWriteIndex := 0,
                rxSeqExpected := 0\<rparr>;
          s = stopAckTimer s;
          s = s\<lparr>retransmitAttempts := 0, finPending := False, peerResets := peerResets s + 1\<rparr>;
          s = clearTransfer s
      in if resetCallback s then s\<lparr>outbox := outbox s @ [CallReset]\<rparr> else s)"

definition Session_Close :: "session \<Rightarrow> session" where
  "Session_Close s = (if closed s then s else stopAckTimer (s\<lparr>closed := True\<rparr>))"

section \<open>The retransmit ring\<close>

text \<open>
  The loops over the ring run from the read index to the write index, modulo its length. The
  number of occupied slots bounds the iterations and is the fuel of the two loops below.
\<close>

definition ring_count :: "session \<Rightarrow> nat" where
  "ring_count s = (txWriteIndex s + ringSize - txReadIndex s) mod ringSize"

fun pruneAcked_loop :: "nat \<Rightarrow> session \<Rightarrow> u16 \<Rightarrow> session" where
  "pruneAcked_loop 0 s seqNrAck = s"
| "pruneAcked_loop (Suc n) s seqNrAck =
     (if txReadIndex s \<noteq> txWriteIndex s then
        let p = txBuffer s (txReadIndex s) in
        if (tx_seq p - seqNrAck - 1) AND 0xFFF < 2048 then s
        else pruneAcked_loop n (s\<lparr>txReadIndex := (txReadIndex s + 1) mod ringSize\<rparr>) seqNrAck
      else s)"

definition pruneAcked :: "session \<Rightarrow> u16 \<Rightarrow> session" where
  "pruneAcked s seqNrAck = pruneAcked_loop (ring_count s) s seqNrAck"

fun retransmit_loop :: "nat \<Rightarrow> nat \<Rightarrow> session \<Rightarrow> u16 \<Rightarrow> bytes list \<Rightarrow> session \<times> bytes list" where
  "retransmit_loop 0 i s fromSeq batch = (s, batch)"
| "retransmit_loop (Suc n) i s fromSeq batch =
     (if i \<noteq> txWriteIndex s then
        let p = txBuffer s i; diff = (tx_seq p - fromSeq) AND 0xFFF in
        if 2048 \<le> diff then (s, batch)
        else if tx_seq p \<noteq> (fromSeq - 1) AND 0xFFF then
          retransmit_loop n ((i + 1) mod ringSize)
            (s\<lparr>packetsTx := packetsTx s + 1, retransmits := retransmits s + 1\<rparr>)
            fromSeq (batch @ [tx_data p])
        else retransmit_loop n ((i + 1) mod ringSize) s fromSeq batch
      else (s, batch))"

definition retransmitFrom :: "session \<Rightarrow> u16 \<Rightarrow> session \<times> nat" where
  "retransmitFrom s fromSeq =
     (let (s, batch) = retransmit_loop (ring_count s) (txReadIndex s) s fromSeq [];
          s = (if 0 < length batch then s\<lparr>outbox := outbox s @ [WriteBatch batch]\<rparr> else s)
      in (s, length batch))"

end
