(* ===== verification/RdmaTx.thy ===== *)
theory RdmaTx
  imports RdmaSession
begin

text \<open>
  The sending half of a session (\<^verbatim>\<open>udprdma/session_tx.go\<close>, \<^verbatim>\<open>acks.go\<close> and the timer callback of
  \<^verbatim>\<open>ack_timer.go\<close>): packing DATA packets into the ring, the windowed transfer loop, ACK and NACK
  handling and retransmission on timeout. \<^term>\<open>None\<close> is a Go panic: a slice beyond the capacity
  of a packet, or the explicit panic on a full ring.
\<close>

section \<open>Packing a DATA packet\<close>

definition packDataPacket :: "session \<Rightarrow> bytes \<Rightarrow> bytes \<Rightarrow> bool \<Rightarrow> (session \<times> bytes) option" where
  "packDataPacket s header dat fin = do {
     let hdrSize = length header;
     let dataSize = length dat;
     let padded = (dataSize + 3) div 4 * 4;
     let flags = (if fin then DataFlagACK OR DataFlagFIN else DataFlagACK);
     let slot = txBuffer s (txWriteIndex s);
     let n = hdrSize + padded + headerSize + dataHeaderSize;
     pkt \<leftarrow> go_slice (tx_buf slot) 0 n;
     pkt \<leftarrow> Header_Pack \<lparr>PacketType = PacketData, SeqNr = txSeqNr s\<rparr> 0 pkt;
     pkt \<leftarrow> DataHeader_Pack
       \<lparr>SeqNrAck = (rxSeqExpected s - 1) AND 0xFFF, Flags = flags,
        HdrWordCount = of_nat (hdrSize div 4), DataByteCount = of_nat padded\<rparr> headerSize pkt;
     let off = headerSize + dataHeaderSize;
     pkt \<leftarrow> blit off header pkt;
     pkt \<leftarrow> blit (off + hdrSize) dat pkt;
     pkt \<leftarrow> (if padded \<noteq> dataSize
             then blit (off + hdrSize + dataSize) (replicate (padded - dataSize) 0) pkt
             else Some pkt);
     let s = s\<lparr>txBuffer := (txBuffer s)(txWriteIndex s :=
                 \<lparr>tx_buf = pkt @ drop n (tx_buf slot), tx_len = n, tx_seq = txSeqNr s\<rparr>),
               txWriteIndex := (txWriteIndex s + 1) mod ringSize\<rparr>;
     if txWriteIndex s = txReadIndex s then None
     else do {
       let s = s\<lparr>txSeqNr := (txSeqNr s + 1) AND 0xFFF, packetsTx := packetsTx s + 1\<rparr>;
       let s = (if fin then s\<lparr>finPending := True, retransmitAttempts := 0\<rparr> else s);
       Some (s, pkt)
     }
   }"

text \<open>
  The packet in closed form. It does not depend on what the ring slot held before: every byte of
  the slice is written.
\<close>

definition padded_len :: "nat \<Rightarrow> nat" where
  "padded_len n = (n + 3) div 4 * 4"

definition data_packet :: "session \<Rightarrow> bytes \<Rightarrow> bytes \<Rightarrow> bool \<Rightarrow> bytes" where
  "data_packet s header dat fin =
     le16 (Header_val \<lparr>PacketType = PacketData, SeqNr = txSeqNr s\<rparr>) @
     le32 (DataHeader_val
       \<lparr>SeqNrAck = (rxSeqExpected s - 1) AND 0xFFF,
        Flags = (if fin then DataFlagACK OR DataFlagFIN else DataFlagACK),
        HdrWordCount = of_nat (length header div 4),
        DataByteCount = of_nat (padded_len (length dat))\<rparr>) @
     header @ dat @ replicate (padded_len (length dat) - length dat) 0"

lemma padded_len_ge [simp]: "n \<le> padded_len n" and padded_len_less: "padded_len n < n + 4"
  unfolding padded_len_def by presburger+

lemma length_data_packet:
  "length (data_packet s header dat fin) = length header + padded_len (length dat) + 6"
  by (simp add: data_packet_def)

definition pushPacket :: "session \<Rightarrow> bytes \<Rightarrow> bool \<Rightarrow> session" where
  "pushPacket s pkt fin =
     s\<lparr>txBuffer := (txBuffer s)(txWriteIndex s :=
         \<lparr>tx_buf = pkt @ drop (length pkt) (tx_buf (txBuffer s (txWriteIndex s))),
          tx_len = length pkt, tx_seq = txSeqNr s\<rparr>),
       txWriteIndex := (txWriteIndex s + 1) mod ringSize,
       txSeqNr := (txSeqNr s + 1) AND 0xFFF, packetsTx := packetsTx s + 1,
       finPending := finPending s \<or> fin,
       retransmitAttempts := (if fin then 0 else retransmitAttempts s)\<rparr>"

lemma packDataPacket_eq:
  "packDataPacket s header dat fin =
     (let pkt = data_packet s header dat fin in
      if length (tx_buf (txBuffer s (txWriteIndex s))) < length pkt \<or>
         (txWriteIndex s + 1) mod ringSize = txReadIndex s
      then None else Some (pushPacket s pkt fin, pkt))"
proof (cases "length (tx_buf (txBuffer s (txWriteIndex s))) < length (data_packet s header dat fin)")
  case True
  then show ?thesis
    by (simp add: packDataPacket_def Let_def go_slice_def length_data_packet padded_len_def)
next
  case False
  let ?buf = "tx_buf (txBuffer s (txWriteIndex s))"
  let ?pad = "padded_len (length dat)"
  let ?n = "length header + ?pad + 6"
  let ?pkt = "take ?n ?buf"
  have len: "length ?pkt = ?n" "?n \<le> length ?buf" using False by (simp_all add: length_data_packet)
  show ?thesis
    using False len
    by (auto simp: packDataPacket_def Let_def go_slice_def length_data_packet data_packet_def
        base_hdr.pack_eq data_hdr.pack_eq blit_def pushPacket_def simp flip: padded_len_def)
qed

text \<open>What the transfer loop needs to know of a successful call.\<close>

lemma packDataPacket_frame:
  assumes "packDataPacket s header dat fin = Some (s', pkt)"
  shows "s' = pushPacket s pkt fin" "pkt = data_packet s header dat fin"
    "txWriteIndex s' \<noteq> txReadIndex s'"
  using assms by (auto simp: packDataPacket_eq Let_def pushPacket_def split: if_splits)

section \<open>The transfer loop\<close>

definition setOffset :: "session \<Rightarrow> int \<Rightarrow> session" where
  "setOffset s off = s\<lparr>xfer := (xfer s)\<lparr>tr_offset := off\<rparr>\<rparr>"

lemma InFlight_step:
  assumes "txReadIndex s \<noteq> txWriteIndex s" "InFlight s < 8"
    and "txReadIndex s' \<noteq> txWriteIndex s'" "txSeqNr s' = (txSeqNr s + 1) AND 0xFFF"
    and "txSeqNrAcked s' = txSeqNrAcked s"
  shows "InFlight s' = InFlight s + 1"
proof -
  let ?x = "uint (txSeqNr s) - (uint (txSeqNrAcked s) + 1)"
  have 1: "int (InFlight s') = (?x + 1) mod 4096"
    using InFlight_int [of s'] assms(3-5) by (simp add: seq_simps mod_simps)
  have 2: "int (InFlight s) = ?x mod 4096"
    using assms(1) by (rule InFlight_int)
  have "int (InFlight s') = ?x mod 4096 + 1"
    unfolding 1 by (rule mod_succ_small) (use assms(2) 2 in simp_all)
  with 2 show ?thesis by simp
qed

text \<open>
  The body of the loop in \<^verbatim>\<open>handleTransfer\<close>, with its three ways out: a panic, the \<^verbatim>\<open>break\<close>, and
  the next iteration with one more packet in the batch.
\<close>

datatype iteration = Panic | Break session | Continue session bytes

definition handleTransfer_body :: "session \<Rightarrow> bytes \<Rightarrow> iteration" where
  "handleTransfer_body s dat =
     (if tr_offset (xfer s) = 0 \<and> 0 < length (tr_header (xfer s)) then
        let header = tr_header (xfer s);
            maxChunk = tr_maxChunk (xfer s);
            firstDataMax = (if length header < MaxDataPayload \<and>
                               MaxDataPayload - length header < maxChunk
                            then MaxDataPayload - length header else maxChunk);
            chunkSize = (if length dat < firstDataMax then length dat else firstDataMax);
            fin = (length dat \<le> chunkSize)
        in case packDataPacket s header (take chunkSize dat) fin of
             None \<Rightarrow> Panic
           | Some (s, pkt) \<Rightarrow>
               let s = setOffset s (int chunkSize)
               in Continue (if fin then clearTransfer s else s) pkt
      else if int (length dat) \<le> tr_offset (xfer s) then Break (clearTransfer s)
      else
        let off = tr_offset (xfer s);
            maxChunk = int (tr_maxChunk (xfer s));
            chunkSize = (if int (length dat) < off + maxChunk then int (length dat) - off
                         else maxChunk);
            fin = (int (length dat) \<le> off + chunkSize)
        in case go_slice_int dat off (off + chunkSize) of
             None \<Rightarrow> Panic
           | Some chunk \<Rightarrow>
               let s = setOffset s (off + chunkSize);
                   s = (if fin then clearTransfer s else s)
               in case packDataPacket s [] chunk fin of
                    None \<Rightarrow> Panic
                  | Some (s, pkt) \<Rightarrow> Continue s pkt)"

lemmas xfer_defs = setOffset_def clearTransfer_def

lemma pack_xfer_commute:
  "packDataPacket (s\<lparr>xfer := t\<rparr>) header dat fin =
     map_option (\<lambda>(s', pkt). (s'\<lparr>xfer := t\<rparr>, pkt)) (packDataPacket s header dat fin)"
  by (simp add: packDataPacket_eq Let_def data_packet_def pushPacket_def)

text \<open>
  Which packet comes next is a function of the transfer alone: the application header and the
  chunk to send, whether it is the last one, and the transfer that remains.
\<close>

definition next_chunk :: "transfer \<Rightarrow> bytes \<Rightarrow> (bytes \<times> bytes \<times> bool \<times> transfer) option" where
  "next_chunk t dat =
     (let done_t = t\<lparr>tr_header := [], tr_data := None, tr_offset := - 1\<rparr> in
      if tr_offset t = 0 \<and> tr_header t \<noteq> [] then
        let c = min (length dat)
                  (if length (tr_header t) < MaxDataPayload
                   then min (tr_maxChunk t) (MaxDataPayload - length (tr_header t))
                   else tr_maxChunk t)
        in Some (tr_header t, take c dat, length dat \<le> c,
                 if length dat \<le> c then done_t else t\<lparr>tr_offset := int c\<rparr>)
      else if int (length dat) \<le> tr_offset t then None
      else
        let off = nat (tr_offset t); c = min (length dat - off) (tr_maxChunk t)
        in Some ([], take c (drop off dat), length dat \<le> off + c,
                 if length dat \<le> off + c then done_t else t\<lparr>tr_offset := int (off + c)\<rparr>))"

lemma pack_xfer: "packDataPacket s header dat fin = Some (s', pkt) \<Longrightarrow> xfer s' = xfer s"
  by (drule packDataPacket_frame(1)) (simp add: pushPacket_def)

lemma handleTransfer_body_eq:
  assumes "0 \<le> tr_offset (xfer s)"
  shows "handleTransfer_body s dat =
     (case next_chunk (xfer s) dat of
        None \<Rightarrow> Break (clearTransfer s)
      | Some (header, chunk, fin, t) \<Rightarrow>
          (case packDataPacket s header chunk fin of
             None \<Rightarrow> Panic
           | Some (s', pkt) \<Rightarrow> Continue (s'\<lparr>xfer := t\<rparr>) pkt))"
proof -
  consider (first) "tr_offset (xfer s) = 0" "tr_header (xfer s) \<noteq> []"
    | (past) "\<not> (tr_offset (xfer s) = 0 \<and> tr_header (xfer s) \<noteq> [])"
        "int (length dat) \<le> tr_offset (xfer s)"
    | (more) "\<not> (tr_offset (xfer s) = 0 \<and> tr_header (xfer s) \<noteq> [])"
        "tr_offset (xfer s) < int (length dat)"
    by linarith
  then show ?thesis
  proof cases
    case first
    let ?h = "length (tr_header (xfer s))" and ?m = "tr_maxChunk (xfer s)"
    let ?f = "if ?h < MaxDataPayload \<and> MaxDataPayload - ?h < ?m then MaxDataPayload - ?h else ?m"
    let ?c = "min (length dat) (if ?h < MaxDataPayload then min ?m (MaxDataPayload - ?h) else ?m)"
    have c: "(if length dat < ?f then length dat else ?f) = ?c" by auto
    show ?thesis
      unfolding handleTransfer_body_def next_chunk_def Let_def c
      using first
      by (cases "packDataPacket s (tr_header (xfer s)) (take ?c dat) (length dat \<le> ?c)")
        (auto simp: xfer_defs pack_xfer simp del: take_all)
  next
    case past
    then have "(tr_offset (xfer s) = 0 \<and> 0 < length (tr_header (xfer s))) = False"
      "(tr_offset (xfer s) = 0 \<and> tr_header (xfer s) \<noteq> []) = False" by auto
    then show ?thesis
      unfolding handleTransfer_body_def next_chunk_def Let_def
      by (simp only: if_False past(2) if_True option.case)
  next
    case more
    define off where "off = nat (tr_offset (xfer s))"
    define c where "c = min (length dat - off) (tr_maxChunk (xfer s))"
    have off: "tr_offset (xfer s) = int off" "off < length dat"
      using assms more by (simp_all add: off_def)
    have c': "(if int (length dat) < int off + int (tr_maxChunk (xfer s))
        then int (length dat) - int off else int (tr_maxChunk (xfer s))) = int c"
      using off by (auto simp: c_def min_def)
    have "off + c \<le> length dat" using off by (simp add: c_def)
    then have sl: "go_slice_int dat (int off) (int off + int c) = Some (take c (drop off dat))"
      by (auto simp: go_slice_int_def go_slice_def nat_add_distrib)
    have nc: "next_chunk (xfer s) dat = Some ([], take c (drop off dat), length dat \<le> off + c,
       if length dat \<le> off + c then (xfer s)\<lparr>tr_header := [], tr_data := None, tr_offset := - 1\<rparr>
       else (xfer s)\<lparr>tr_offset := int (off + c)\<rparr>)"
      using more off(2) unfolding next_chunk_def Let_def off_def [symmetric] c_def [symmetric]
      by (auto simp: off(1))
    have fin: "int (length dat) \<le> int off + int c \<longleftrightarrow> length dat \<le> off + c" by linarith
    show ?thesis
      using more unfolding nc handleTransfer_body_def Let_def off(1) c' sl fin
      by (cases "packDataPacket s [] (take c (drop off dat)) (length dat \<le> off + c)")
        (auto simp: xfer_defs pack_xfer_commute simp del: take_all)
  qed
qed

lemma handleTransfer_body_negative:
  "tr_offset (xfer s) < 0 \<Longrightarrow> handleTransfer_body s dat = Panic"
  by (auto simp: handleTransfer_body_def go_slice_int_def Let_def)

function handleTransfer_loop :: "session \<Rightarrow> bytes list \<Rightarrow> (session \<times> bytes list) option" where
  "handleTransfer_loop s batch =
     (case tr_data (xfer s) of
        None \<Rightarrow> Some (s, batch)
      | Some dat \<Rightarrow>
          if InFlight s < SendWindow then
            (case handleTransfer_body s dat of
               Panic \<Rightarrow> None
             | Break s' \<Rightarrow> Some (s', batch)
             | Continue s' pkt \<Rightarrow> handleTransfer_loop s' (batch @ [pkt]))
          else Some (s, batch))"
  by pat_completeness auto

text \<open>The window closes after at most nine packets: each one raises the in-flight count.\<close>

definition loop_measure :: "session \<Rightarrow> nat" where
  "loop_measure s = (if txReadIndex s = txWriteIndex s then 10 else 9 - InFlight s)"

lemma loop_measure_xfer [simp]: "loop_measure (s\<lparr>xfer := t\<rparr>) = loop_measure s"
  by (simp add: loop_measure_def InFlight_def)

lemma InFlight_xfer [simp]: "InFlight (s\<lparr>xfer := t\<rparr>) = InFlight s"
  by (simp add: InFlight_def)

lemma loop_measure_pack:
  assumes p: "packDataPacket s header dat fin = Some (s', pkt)" and w: "InFlight s < 8"
  shows "loop_measure s' < loop_measure s"
proof (cases "txReadIndex s = txWriteIndex s")
  case True
  then show ?thesis using packDataPacket_frame(3) [OF p] by (auto simp: loop_measure_def)
next
  case False
  then have "InFlight s' = InFlight s + 1"
    using InFlight_step [of s s'] packDataPacket_frame [OF p] w by (simp add: pushPacket_def)
  then show ?thesis
    using False w packDataPacket_frame(3) [OF p] by (simp add: loop_measure_def)
qed

lemma handleTransfer_body_Continue:
  assumes "handleTransfer_body s dat = Continue s' pkt"
  shows "\<exists>header chunk fin t. next_chunk (xfer s) dat = Some (header, chunk, fin, t) \<and>
     s' = (pushPacket s pkt fin)\<lparr>xfer := t\<rparr> \<and> pkt = data_packet s header chunk fin \<and>
     packDataPacket s header chunk fin = Some (pushPacket s pkt fin, pkt)"
proof -
  have "0 \<le> tr_offset (xfer s)"
    using assms handleTransfer_body_negative [of s dat] by fastforce
  with assms show ?thesis
    by (auto simp: handleTransfer_body_eq split: option.splits dest: packDataPacket_frame(1,2))
qed

termination handleTransfer_loop
proof (relation "measure (\<lambda>(s, batch). loop_measure s)", goal_cases)
  case 1
  then show ?case by simp
next
  case (2 s batch dat s' pkt)
  then obtain header chunk fin t where
    "s' = (pushPacket s pkt fin)\<lparr>xfer := t\<rparr>"
    "packDataPacket s header chunk fin = Some (pushPacket s pkt fin, pkt)"
    using handleTransfer_body_Continue by metis
  with 2 show ?case using loop_measure_pack [of s] by fastforce
qed

declare handleTransfer_loop.simps [simp del]

definition handleTransfer :: "session \<Rightarrow> session option" where
  "handleTransfer s = do {
     (s, batch) \<leftarrow> handleTransfer_loop s [];
     let s = (if 0 < length batch then s\<lparr>outbox := outbox s @ [WriteBatch batch]\<rparr> else s);
     Some (updateAckTimer s)
   }"

section \<open>Sending\<close>

text \<open>
  \<^verbatim>\<open>math.Ceil(float64(n) / c)\<close>. The quotient is a multiple of \<open>1/c\<close> and below \<open>2^40\<close> for the
  lengths in use (a read buffer holds 128 KiB), so rounding to \<^verbatim>\<open>float64\<close> never crosses an
  integer and the result is the exact ceiling.
\<close>

definition ceil_div :: "nat \<Rightarrow> nat \<Rightarrow> nat" where
  "ceil_div n c = (n + c - 1) div c"

definition optimalChunkSize :: "nat \<Rightarrow> nat" where
  "optimalChunkSize totalBytes =
     (let (bestChunk, bestPackets) =
        fold (\<lambda>maxChunk (bestChunk, bestPackets).
            let packets = ceil_div totalBytes maxChunk in
            if packets < bestPackets then (maxChunk, packets) else (bestChunk, bestPackets))
          [1024, 1280, 1408] (1408, ceil_div totalBytes 1408)
      in bestChunk)"

definition SendData :: "session \<Rightarrow> bytes option \<Rightarrow> session option" where
  "SendData s payload =
     (let s = resetSendState s;
          s = s\<lparr>xfer := \<lparr>tr_header = [], tr_data = payload, tr_offset = 0,
                         tr_maxChunk = (case payload of None \<Rightarrow> 0 | Some p \<Rightarrow> length p)\<rparr>\<rparr>
      in handleTransfer s)"

definition SendRawDataWithHeader :: "session \<Rightarrow> bytes \<Rightarrow> bytes option \<Rightarrow> session option" where
  "SendRawDataWithHeader s header dat =
     (let s = resetSendState s;
          s = s\<lparr>xfer := \<lparr>tr_header = header, tr_data = dat, tr_offset = 0,
                         tr_maxChunk = optimalChunkSize (case dat of None \<Rightarrow> 0 | Some p \<Rightarrow> length p)\<rparr>\<rparr>
      in handleTransfer s)"

definition sendACK :: "session \<Rightarrow> bool \<Rightarrow> session option" where
  "sendACK s ack = do {
     let flags = (if ack then DataFlagACK else 0);
     let seqAck = (if ack then (rxSeqExpected s - 1) AND 0xFFF else rxSeqExpected s);
     pkt \<leftarrow> go_slice (packetBuf s) 0 (headerSize + dataHeaderSize);
     pkt \<leftarrow> Header_Pack \<lparr>PacketType = PacketData, SeqNr = txSeqNr s\<rparr> 0 pkt;
     pkt \<leftarrow> DataHeader_Pack \<lparr>SeqNrAck = seqAck, Flags = flags, HdrWordCount = 0,
                             DataByteCount = 0\<rparr> headerSize pkt;
     let s = s\<lparr>packetBuf := pkt @ drop (headerSize + dataHeaderSize) (packetBuf s),
               outbox := outbox s @ [WriteTo pkt], packetsTx := packetsTx s + 1\<rparr>;
     Some (if ack then s else s\<lparr>nacks := nacks s + 1\<rparr>)
   }"

definition SendACK :: "session \<Rightarrow> bool \<Rightarrow> session option" where
  "SendACK s ack = (if ack then sendACK s True else sendACK s False)"

section \<open>Acknowledgements\<close>

definition onAck :: "session \<Rightarrow> u16 \<Rightarrow> session" where
  "onAck s seqNrAck =
     (if txReadIndex s = txWriteIndex s then s
      else
        let lastSent = (txSeqNr s - 1) AND 0xFFF in
        if \<not> seqBetween (txSeqNrAcked s) seqNrAck lastSent then s
        else
          let s = s\<lparr>txSeqNrAcked := seqNrAck\<rparr>;
              s = pruneAcked s seqNrAck;
              s = s\<lparr>retransmitAttempts := 0\<rparr>
          in if seqNrAck = lastSent then (stopAckTimer s)\<lparr>finPending := False\<rparr>
             else updateAckTimer s)"

definition onPeerAck :: "session \<Rightarrow> u16 \<Rightarrow> session option" where
  "onPeerAck s seq =
     (let s = onAck s seq in
      if tr_data (xfer s) \<noteq> None then handleTransfer s else Some s)"

definition onPeerNack :: "session \<Rightarrow> u16 \<Rightarrow> session" where
  "onPeerNack s seq =
     (let s = s\<lparr>retransmitAttempts := 0\<rparr>;
          (s, sent) = retransmitFrom s seq
      in updateAckTimer s)"

section \<open>Timeouts\<close>

definition handleAckTimeout :: "session \<Rightarrow> session" where
  "handleAckTimeout s =
     (let waitingFin = finPending s;
          waitingWindow = (\<not> finPending s \<and> tr_data (xfer s) \<noteq> None \<and> SendWindow \<le> InFlight s)
      in if \<not> waitingFin \<and> \<not> waitingWindow then stopAckTimer s
         else
           let s = s\<lparr>retransmitAttempts := retransmitAttempts s + 1\<rparr>;
               from = (txSeqNrAcked s + 1) AND 0xFFF;
               (s, sent) = retransmitFrom s from
           in if retransmitAttempts s < MaxRetransmits then armAckTimer s
              else
                let s = (if waitingFin then s\<lparr>finPending := False\<rparr> else clearTransfer s);
                    s = stopAckTimer s
                in s\<lparr>retransmitAttempts := 0\<rparr>)"

definition ackTimerFunc :: "session \<Rightarrow> session" where
  "ackTimerFunc s =
     (if closed s \<or> ackWaitMode s = ackWaitNone \<or> ackTimerExpectSeq s \<noteq> ackTimerSeq s then s
      else handleAckTimeout (s\<lparr>ackWaitMode := ackWaitNone\<rparr>))"

end
