(* ===== verification/RdmaRx.thy ===== *)
theory RdmaRx
  imports RdmaTx
begin

text \<open>
  The receiving half of a session (\<^verbatim>\<open>udprdma/session_rx.go\<close>). \<open>ProcessDataPacket\<close> validates one
  datagram, handles the peer's ACK and NACK, and hands an in-sequence payload to the layer above.
  The slice it is given has no spare capacity, so \<^verbatim>\<open>data[2:6]\<close> panics on fewer than six bytes; the
  data loop of the server drops such datagrams before the call.
\<close>

definition ProcessDataPacket ::
    "session \<Rightarrow> bytes \<Rightarrow> (session \<times> (rdma_error + bytes option)) option" where
  "ProcessDataPacket s b = do {
     r \<leftarrow> UnpackHeader b;
     case r of
       Inl e \<Rightarrow> Some (s, Inl (InvalidHeader (Some e)))
     | Inr hdr \<Rightarrow>
       if PacketType hdr \<noteq> PacketData then Some (s, Inl (InvalidHeader None))
       else do {
         hs \<leftarrow> go_slice b 2 6;
         r2 \<leftarrow> UnpackDataHeader hs;
         case r2 of
           Inl e \<Rightarrow> Some (s, Inl (InvalidDataHeader e))
         | Inr header \<Rightarrow> do {
             let s = s\<lparr>packetsRx := packetsRx s + 1\<rparr>;
             payload \<leftarrow> go_slice b 6 (length b);
             let hdrSize = unat (HdrWordCount header) * 4;
             let payloadSize = hdrSize + unat (DataByteCount header);
             let payloadSize = (if length payload < payloadSize then length payload else payloadSize);
             let isAck = (Flags header AND DataFlagACK \<noteq> 0);
             if payloadSize = 0 then
               (if isAck then do {
                  s \<leftarrow> onPeerAck s (SeqNrAck header);
                  Some (s, Inr None)
                } else
                  let s = s\<lparr>peerNACKs := peerNACKs s + 1\<rparr>
                  in Some (onPeerNack s (SeqNrAck header), Inr None))
             else if SeqNr hdr \<noteq> rxSeqExpected s \<and> SeqNr hdr = (rxSeqExpected s - 1) AND 0xFFF then do {
               let s = s\<lparr>unexpectedSeqNrs := unexpectedSeqNrs s + 1\<rparr>;
               let retransmit = (tr_data (xfer s) \<noteq> None);
               let retransmitFrom = (txSeqNrAcked s + 1) AND 0xFFF;
               s \<leftarrow> sendACK s True;
               s \<leftarrow> (if isAck then onPeerAck s (SeqNrAck header) else Some s);
               let s = (if retransmit then onPeerNack s retransmitFrom else s);
               Some (s, Inr None)
             }
             else if SeqNr hdr \<noteq> rxSeqExpected s \<and> SeqNr hdr \<noteq> 0 then do {
               let s = s\<lparr>unexpectedSeqNrs := unexpectedSeqNrs s + 1\<rparr>;
               s \<leftarrow> sendACK s False;
               s \<leftarrow> (if isAck then onPeerAck s (SeqNrAck header) else Some s);
               Some (s, Inr None)
             }
             else do {
               let s = (if SeqNr hdr \<noteq> rxSeqExpected s then ResetSession s else s);
               let s = s\<lparr>rxSeqExpected := (SeqNr hdr + 1) AND 0xFFF\<rparr>;
               s \<leftarrow> sendACK s True;
               s \<leftarrow> (if isAck then onPeerAck s (SeqNrAck header) else Some s);
               pl \<leftarrow> go_slice payload 0 payloadSize;
               Some (s, Inr (Some pl))
             }
           }
       }
   }"

end
