(* ===== verification/RdmaRing.thy ===== *)
theory RdmaRing
  imports RdmaTx
begin

text \<open>
  The retransmit ring as a queue. A locale states what the send path relies on, the interpretation
  discharges it for the index arithmetic of \<^verbatim>\<open>txBuffer\<close>, and the two ring loops of the source are
  shown to be \<open>dropWhile\<close> and \<open>takeWhile\<close> on the queue's list.
\<close>

section \<open>The contract of a packet ring\<close>

locale packet_ring =
  fixes entries :: "'s \<Rightarrow> 'p list"
    and is_empty :: "'s \<Rightarrow> bool"
    and front :: "'s \<Rightarrow> 'p"
    and pop :: "'s \<Rightarrow> 's"
    and push :: "'p \<Rightarrow> 's \<Rightarrow> 's"
    and capacity :: nat
    and invar :: "'s \<Rightarrow> bool"
  assumes is_empty_iff: "invar s \<Longrightarrow> is_empty s \<longleftrightarrow> entries s = []"
    and front_entries: "invar s \<Longrightarrow> entries s \<noteq> [] \<Longrightarrow> front s = hd (entries s)"
    and entries_pop: "invar s \<Longrightarrow> entries s \<noteq> [] \<Longrightarrow> entries (pop s) = tl (entries s)"
    and invar_pop: "invar s \<Longrightarrow> invar (pop s)"
    and entries_push: "invar s \<Longrightarrow> length (entries s) < capacity \<Longrightarrow> entries (push p s) = entries s @ [p]"
    and invar_push: "invar s \<Longrightarrow> invar (push p s)"
begin

text \<open>A loop that pops from the front until an entry is to be kept, whatever its fuel is called.\<close>

lemma pop_loop:
  assumes "\<And>s. loop 0 s = s"
    and "\<And>n s. loop (Suc n) s =
      (if is_empty s then s else if keep (front s) then s else loop n (pop s))"
    and "invar s" "length (entries s) \<le> n"
  shows "invar (loop n s) \<and> entries (loop n s) = dropWhile (\<lambda>p. \<not> keep p) (entries s)"
  using assms(3,4)
proof (induction n arbitrary: s)
  case 0
  then show ?case by (simp add: assms(1))
next
  case (Suc n)
  show ?case
  proof (cases "entries s")
    case Nil
    with Suc.prems show ?thesis by (simp add: assms(2) is_empty_iff)
  next
    case (Cons p ps)
    then have s: "\<not> is_empty s" "front s = p" "entries (pop s) = ps"
      using Suc.prems by (simp_all add: is_empty_iff front_entries entries_pop)
    moreover have "invar (loop n (pop s)) \<and> entries (loop n (pop s)) = dropWhile (\<lambda>p. \<not> keep p) ps"
      using Suc.IH [of "pop s"] Suc.prems s Cons by (simp add: invar_pop)
    ultimately show ?thesis using Suc.prems Cons by (simp add: assms(2))
  qed
qed

lemma push_pop_entries:
  "invar s \<Longrightarrow> length (entries s) < capacity \<Longrightarrow> entries (pop (push p s)) = tl (entries s @ [p])"
  by (simp add: entries_pop entries_push invar_push)

end

section \<open>The ring of a session\<close>

definition ring_entries :: "session \<Rightarrow> txPacket list" where
  "ring_entries s = map (\<lambda>j. txBuffer s ((txReadIndex s + j) mod ringSize)) [0..<ring_count s]"

definition ring_ok :: "session \<Rightarrow> bool" where
  "ring_ok s \<longleftrightarrow> txReadIndex s < ringSize \<and> txWriteIndex s < ringSize"

definition ring_pop :: "session \<Rightarrow> session" where
  "ring_pop s = s\<lparr>txReadIndex := (txReadIndex s + 1) mod ringSize\<rparr>"

definition ring_push :: "txPacket \<Rightarrow> session \<Rightarrow> session" where
  "ring_push p s = s\<lparr>txBuffer := (txBuffer s)(txWriteIndex s := p),
     txWriteIndex := (txWriteIndex s + 1) mod ringSize\<rparr>"

lemma length_ring_entries [simp]: "length (ring_entries s) = ring_count s"
  by (simp add: ring_entries_def)

lemma ring_count_less: "ring_count s < 2048"
  by (simp add: ring_count_def)

lemma wrap_index: "n < 4096 \<Longrightarrow> n mod 2048 = (if n < 2048 then n else n - 2048)" for n :: nat
  by (simp add: mod_if)

lemma ring_count_eq:
  "ring_ok s \<Longrightarrow> ring_count s =
     (if txReadIndex s \<le> txWriteIndex s then txWriteIndex s - txReadIndex s
      else txWriteIndex s + 2048 - txReadIndex s)"
  by (auto simp: ring_ok_def ring_count_def wrap_index)

lemmas ring_arith = ring_ok_def ring_count_eq wrap_index

text \<open>The index arithmetic: the slot after the last one is the write index.\<close>

lemma ring_index_write:
  "ring_ok s \<Longrightarrow> (txReadIndex s + ring_count s) mod 2048 = txWriteIndex s"
  using ring_count_less [of s] by (auto simp: ring_arith)

lemma ring_count_0_iff:
  "ring_ok s \<Longrightarrow> ring_count s = 0 \<longleftrightarrow> txReadIndex s = txWriteIndex s"
  by (auto simp: ring_arith)

lemma ring_ok_pop [simp]: "ring_ok s \<Longrightarrow> ring_ok (ring_pop s)"
  by (simp add: ring_ok_def ring_pop_def)

lemma ring_ok_push [simp]: "ring_ok s \<Longrightarrow> ring_ok (ring_push p s)"
  by (simp add: ring_ok_def ring_push_def)

lemma ring_count_pop:
  assumes "ring_ok s" "ring_count s \<noteq> 0"
  shows "ring_count (ring_pop s) = ring_count s - 1"
  using assms unfolding ring_count_eq [OF ring_ok_pop [OF assms(1)]] ring_count_eq [OF assms(1)]
  by (auto simp: ring_ok_def ring_pop_def wrap_index)

lemma ring_count_push:
  assumes "ring_ok s" "ring_count s < 2047"
  shows "ring_count (ring_push p s) = ring_count s + 1"
  using assms unfolding ring_count_eq [OF ring_ok_push [OF assms(1)]] ring_count_eq [OF assms(1)]
  by (auto simp: ring_ok_def ring_push_def wrap_index split: if_splits)

lemma ring_full_iff:
  "ring_ok s \<Longrightarrow> (txWriteIndex s + 1) mod 2048 = txReadIndex s \<longleftrightarrow> ring_count s = 2047"
  by (auto simp: ring_arith)

lemma ring_index_other:
  assumes "ring_ok s" "j < ring_count s"
  shows "(txReadIndex s + j) mod 2048 \<noteq> txWriteIndex s"
  using assms ring_count_less [of s] by (auto simp: ring_arith split: if_splits)

interpretation txring: packet_ring ring_entries "\<lambda>s. txReadIndex s = txWriteIndex s"
  "\<lambda>s. txBuffer s (txReadIndex s)" ring_pop ring_push 2047 ring_ok
proof (unfold_locales, goal_cases)
  case (1 s)
  then show ?case using ring_count_0_iff [of s] by (simp add: ring_entries_def)
next
  case (2 s)
  then show ?case by (auto simp: ring_entries_def hd_map ring_ok_def)
next
  case (3 s)
  then have c: "ring_count (ring_pop s) = ring_count s - 1" "ring_count s \<noteq> 0"
    by (auto simp: ring_count_pop ring_entries_def)
  show ?case
    unfolding ring_entries_def c
    by (rule nth_equalityI) (simp_all add: nth_tl ring_pop_def mod_simps add.assoc)
next
  case (4 s)
  then show ?case by (simp add: ring_ok_def ring_pop_def)
next
  case (5 s p)
  then have c: "ring_count (ring_push p s) = Suc (ring_count s)" by (simp add: ring_count_push)
  have "txBuffer (ring_push p s) ((txReadIndex s + j) mod 2048) = txBuffer s ((txReadIndex s + j) mod 2048)"
    if "j < ring_count s" for j
    using ring_index_other [OF 5(1) that] by (simp add: ring_push_def)
  moreover have "txBuffer (ring_push p s) ((txReadIndex s + ring_count s) mod 2048) = p"
    using ring_index_write [OF 5(1)] by (simp add: ring_push_def)
  ultimately show ?case
    unfolding ring_entries_def c by (simp add: ring_push_def)
next
  case (6 s p)
  then show ?case by (simp add: ring_ok_def ring_push_def)
qed

section \<open>The ring loops of the source\<close>

lemma pruneAcked_loop_pop:
  "pruneAcked_loop (Suc n) s a =
     (if txReadIndex s = txWriteIndex s then s
      else if (tx_seq (txBuffer s (txReadIndex s)) - a - 1) AND 0xFFF < 2048 then s
      else pruneAcked_loop n (ring_pop s) a)"
  by (simp add: Let_def ring_pop_def)

lemma pruneAcked_dropWhile:
  assumes "ring_ok s"
  shows "ring_ok (pruneAcked s a)"
    "ring_entries (pruneAcked s a) =
       dropWhile (\<lambda>p. \<not> (tx_seq p - a - 1) AND 0xFFF < 2048) (ring_entries s)"
  using txring.pop_loop [of "\<lambda>n s. pruneAcked_loop n s a" "\<lambda>p. (tx_seq p - a - 1) AND 0xFFF < 2048",
      OF _ pruneAcked_loop_pop assms, of "ring_count s"]
  by (simp_all add: pruneAcked_def)

text \<open>
  The test \<^verbatim>\<open>p.seq != (fromSeq-1)&0xFFF\<close> in \<^verbatim>\<open>retransmitFrom\<close> never fails: such a packet is 4095
  ahead of \<^verbatim>\<open>fromSeq\<close>, so the loop has stopped before.
\<close>

lemma retransmit_test_redundant:
  assumes "\<not> 2048 \<le> (q - from) AND (0xFFF :: u16)"
  shows "q \<noteq> (from - 1) AND 0xFFF"
proof
  assume q: "q = (from - 1) AND 0xFFF"
  have "uint ((q - from) AND 0xFFF) = (uint from - 1 - uint from) mod 4096"
    unfolding q by (simp add: seq_simps mod_simps)
  then have "uint ((q - from) AND 0xFFF) = 4095" by simp
  with assms show False by (simp add: word_le_def)
qed

definition resend :: "session \<Rightarrow> u16 \<Rightarrow> bytes list" where
  "resend s from =
     map tx_data (takeWhile (\<lambda>p. (tx_seq p - from) AND 0xFFF < 2048) (ring_entries s))"

definition count_resent :: "nat \<Rightarrow> session \<Rightarrow> session" where
  "count_resent k s =
     s\<lparr>packetsTx := packetsTx s + of_nat k, retransmits := retransmits s + of_nat k\<rparr>"

lemma retransmit_loop_takeWhile:
  assumes "(i + n) mod 2048 = txWriteIndex s"
    and "\<And>j. j < n \<Longrightarrow> (i + j) mod 2048 \<noteq> txWriteIndex s"
  shows "retransmit_loop n (i mod 2048) s from batch =
     (let ps = takeWhile (\<lambda>p. (tx_seq p - from) AND 0xFFF < 2048)
                 (map (\<lambda>j. txBuffer s ((i + j) mod 2048)) [0..<n])
      in (count_resent (length ps) s, batch @ map tx_data ps))"
  using assms
proof (induction n arbitrary: i s batch)
  case 0
  then show ?case by (simp add: count_resent_def)
next
  case (Suc n)
  let ?p = "txBuffer s (i mod 2048)"
  have w: "i mod 2048 \<noteq> txWriteIndex s" using Suc.prems(2) [of 0] by simp
  have tl: "map (\<lambda>j. txBuffer s ((i + j) mod 2048)) [0..<Suc n] =
      ?p # map (\<lambda>j. txBuffer s ((Suc i + j) mod 2048)) [0..<n]"
    unfolding map_upt_Suc by simp
  show ?case
  proof (cases "(tx_seq ?p - from) AND 0xFFF < 2048")
    case False
    then show ?thesis unfolding tl by (simp add: w Let_def count_resent_def not_less)
  next
    case True
    let ?s = "s\<lparr>packetsTx := packetsTx s + 1, retransmits := retransmits s + 1\<rparr>"
    have "retransmit_loop n (Suc i mod 2048) ?s from (batch @ [tx_data ?p]) =
       (let ps = takeWhile (\<lambda>p. (tx_seq p - from) AND 0xFFF < 2048)
                 (map (\<lambda>j. txBuffer ?s ((Suc i + j) mod 2048)) [0..<n])
        in (count_resent (length ps) ?s, (batch @ [tx_data ?p]) @ map tx_data ps))"
      using Suc.prems Suc.prems(2) [of "Suc _"] by (intro Suc.IH) simp_all
    moreover have "count_resent k ?s = count_resent (Suc k) s" for k
      by (simp add: count_resent_def add.assoc)
    ultimately show ?thesis
      unfolding tl using True retransmit_test_redundant [of "tx_seq ?p" "from"]
      by (simp add: w Let_def not_le mod_Suc_eq)
  qed
qed

lemma retransmitFrom_eq:
  assumes "ring_ok s"
  shows "retransmitFrom s from =
     ((count_resent (length (resend s from)) s)
        \<lparr>outbox := (if resend s from = [] then outbox s
                   else outbox s @ [WriteBatch (resend s from)])\<rparr>,
      length (resend s from))"
proof -
  have "retransmit_loop (ring_count s) (txReadIndex s mod 2048) s from [] =
     (count_resent (length (resend s from)) s, resend s from)"
    unfolding resend_def length_map
    using retransmit_loop_takeWhile [OF ring_index_write [OF assms], of "from" "[]"]
      ring_index_other [OF assms]
    by (simp add: ring_entries_def Let_def)
  moreover have "txReadIndex s mod 2048 = txReadIndex s" using assms by (simp add: ring_ok_def)
  ultimately show ?thesis
    by (auto simp: retransmitFrom_def count_resent_def)
qed

end
