(* ===== verification/RdmaInv.thy ===== *)
theory RdmaInv
  imports RdmaRx RdmaRing
begin

text \<open>
  The invariant of a session and its consequences. \<open>tx_inv\<close> says that the ring holds the packets
  with the last consecutive sequence numbers and never more than nine of them, so that neither the
  explicit panic on a full ring nor a slice beyond a packet's capacity can occur. \<open>timer_inv\<close> says
  that the timer is armed exactly while the sender waits for an ACK.
\<close>

section \<open>The invariant of the send state\<close>

definition seq_gap :: "session \<Rightarrow> int" where
  "seq_gap s = (uint (txSeqNr s) - (uint (txSeqNrAcked s) + 1)) mod 4096"

definition seqs_ok :: "session \<Rightarrow> bool" where
  "seqs_ok s \<longleftrightarrow> (\<forall>j < ring_count s. uint (tx_seq (ring_entries s ! j)) =
     (uint (txSeqNr s) - (int (ring_count s) - int j)) mod 4096)"

definition xfer_ok :: "transfer \<Rightarrow> bool" where
  "xfer_ok t \<longleftrightarrow> (tr_data t \<noteq> None \<longrightarrow>
     0 \<le> tr_offset t \<and> length (tr_header t) < MaxDataPayload \<and> tr_maxChunk t \<le> 1492)"

definition tx_inv :: "session \<Rightarrow> bool" where
  "tx_inv s \<longleftrightarrow> ring_ok s \<and>
     uint (txSeqNr s) < 4096 \<and> uint (txSeqNrAcked s) < 4096 \<and> uint (rxSeqExpected s) < 4096 \<and>
     length (packetBuf s) = packetCap \<and> (\<forall>i. length (tx_buf (txBuffer s i)) = packetCap) \<and>
     xfer_ok (xfer s) \<and>
     ring_count s \<le> Suc SendWindow \<and> int (ring_count s) \<le> seq_gap s + 1 \<and> seqs_ok s"

text \<open>The fields the invariant reads; operations that leave them alone preserve it.\<close>

definition same_tx :: "session \<Rightarrow> session \<Rightarrow> bool" where
  "same_tx s t \<longleftrightarrow> txBuffer s = txBuffer t \<and> txWriteIndex s = txWriteIndex t \<and>
     txReadIndex s = txReadIndex t \<and> txSeqNr s = txSeqNr t \<and> txSeqNrAcked s = txSeqNrAcked t \<and>
     rxSeqExpected s = rxSeqExpected t \<and> length (packetBuf s) = length (packetBuf t) \<and>
     xfer s = xfer t"

lemma same_tx_ring:
  assumes "same_tx s t"
  shows "ring_count s = ring_count t" "ring_entries s = ring_entries t" "ring_ok s = ring_ok t"
    "InFlight s = InFlight t" "seq_gap s = seq_gap t"
  using assms by (auto simp: same_tx_def ring_count_def ring_entries_def ring_ok_def InFlight_def
      seq_gap_def)

lemma same_tx_inv: "same_tx s t \<Longrightarrow> tx_inv s \<longleftrightarrow> tx_inv t"
  using same_tx_ring [of s t] by (auto simp: tx_inv_def seqs_ok_def same_tx_def)

lemma same_tx_timer [simp]:
  "same_tx (stopAckTimer s) s" "same_tx (armAckTimer s) s" "same_tx (updateAckTimer s) s"
  by (auto simp: same_tx_def stopAckTimer_def armAckTimer_def updateAckTimer_def Let_def
      split: prod.split)

lemma same_tx_counters [simp]:
  "same_tx (s\<lparr>packetsRx := a\<rparr>) s" "same_tx (s\<lparr>peerNACKs := a\<rparr>) s"
  "same_tx (s\<lparr>unexpectedSeqNrs := a\<rparr>) s" "same_tx (s\<lparr>retransmitAttempts := n\<rparr>) s"
  "same_tx (s\<lparr>finPending := b\<rparr>) s" "same_tx (s\<lparr>outbox := es\<rparr>) s" "same_tx (s\<lparr>ackWaitMode := m\<rparr>) s"
  "same_tx (s\<lparr>closed := b\<rparr>) s" "same_tx (count_resent k s) s"
  by (simp_all add: same_tx_def count_resent_def)

lemmas InFlight_counters [simp] = same_tx_counters [THEN same_tx_ring(4)]
lemmas tx_inv_timer [simp] = same_tx_timer [THEN same_tx_inv]
lemmas tx_inv_counters [simp] = same_tx_counters [THEN same_tx_inv]

lemma seq_gap_nonneg [simp]: "0 \<le> seq_gap s" "seq_gap s < 4096"
  by (simp_all add: seq_gap_def)

lemma InFlight_gap: "txReadIndex s \<noteq> txWriteIndex s \<Longrightarrow> int (InFlight s) = seq_gap s"
  by (simp add: InFlight_int seq_gap_def)

lemma InFlight_empty: "txReadIndex s = txWriteIndex s \<Longrightarrow> InFlight s = 0"
  by (simp add: InFlight_def)

section \<open>Sending keeps it\<close>

lemma pushPacket_ring:
  assumes "ring_ok s" "ring_count s < 2047"
  shows "ring_entries (pushPacket s pkt fin) = ring_entries s @
      [\<lparr>tx_buf = pkt @ drop (length pkt) (tx_buf (txBuffer s (txWriteIndex s))),
        tx_len = length pkt, tx_seq = txSeqNr s\<rparr>]"
    "ring_count (pushPacket s pkt fin) = ring_count s + 1"
    "ring_ok (pushPacket s pkt fin)"
proof -
  let ?p = "\<lparr>tx_buf = pkt @ drop (length pkt) (tx_buf (txBuffer s (txWriteIndex s))),
        tx_len = length pkt, tx_seq = txSeqNr s\<rparr>"
  have eq: "ring_count (pushPacket s pkt fin) = ring_count (ring_push ?p s)"
    "ring_entries (pushPacket s pkt fin) = ring_entries (ring_push ?p s)"
    "ring_ok (pushPacket s pkt fin) = ring_ok (ring_push ?p s)"
    by (simp_all add: pushPacket_def ring_push_def ring_entries_def ring_count_def ring_ok_def)
  show "ring_entries (pushPacket s pkt fin) = ring_entries s @ [?p]"
    unfolding eq using assms by (intro txring.entries_push) simp_all
  show "ring_count (pushPacket s pkt fin) = ring_count s + 1"
    unfolding eq using assms by (rule ring_count_push)
  show "ring_ok (pushPacket s pkt fin)" unfolding eq using assms by simp
qed

lemma pushPacket_gap:
  assumes "tx_inv s" "InFlight s < SendWindow"
  shows "int (ring_count s) + 1 \<le> seq_gap (pushPacket s pkt fin) + 1" "ring_count s \<le> SendWindow"
proof -
  have k: "int (ring_count s) \<le> seq_gap s + 1" and ok: "ring_ok s"
    using assms(1) by (simp_all add: tx_inv_def)
  have "seq_gap (pushPacket s pkt fin) = (uint (txSeqNr s) - (uint (txSeqNrAcked s) + 1) + 1) mod 4096"
    by (simp add: seq_gap_def pushPacket_def seq_simps mod_simps)
  note g = this
  show "int (ring_count s) + 1 \<le> seq_gap (pushPacket s pkt fin) + 1"
  proof (cases "ring_count s = 0")
    case True
    then show ?thesis by simp
  next
    case False
    then have "seq_gap s < 8" using ok assms(2) InFlight_gap [of s] ring_count_0_iff [of s] by simp
    then have "seq_gap (pushPacket s pkt fin) = seq_gap s + 1"
      unfolding g unfolding seq_gap_def by (intro mod_succ_small) simp_all
    with k show ?thesis by simp
  qed
  show "ring_count s \<le> SendWindow"
    using k ok assms(2) InFlight_gap [of s] ring_count_0_iff [of s] by (cases "ring_count s = 0") auto
qed

lemma pushPacket_seqs:
  assumes "tx_inv s" "ring_count s < 2047"
  shows "seqs_ok (pushPacket s pkt fin)"
  unfolding seqs_ok_def
proof (intro allI impI)
  fix j assume j: "j < ring_count (pushPacket s pkt fin)"
  have T: "uint (txSeqNr (pushPacket s pkt fin)) = (uint (txSeqNr s) + 1) mod 4096"
    by (simp add: pushPacket_def seq_simps mod_simps)
  have ok: "ring_ok s" using assms(1) by (simp add: tx_inv_def)
  note r = pushPacket_ring [OF ok assms(2), of pkt fin]
  show "uint (tx_seq (ring_entries (pushPacket s pkt fin) ! j)) =
      (uint (txSeqNr (pushPacket s pkt fin)) -
        (int (ring_count (pushPacket s pkt fin)) - int j)) mod 4096"
  proof (cases "j < ring_count s")
    case True
    then have "uint (tx_seq (ring_entries s ! j)) = (uint (txSeqNr s) - (int (ring_count s) - int j)) mod 4096"
      using assms(1) by (simp add: tx_inv_def seqs_ok_def)
    then show ?thesis
      using True unfolding r T
      by (simp add: nth_append mod_simps) (simp add: diff_diff_eq2 add_diff_eq)
  next
    case False
    then have "j = ring_count s" using j r by simp
    then show ?thesis
      using assms(1) unfolding r T by (simp add: nth_append mod_simps tx_inv_def)
  qed
qed

lemma tx_inv_push:
  assumes inv: "tx_inv s" and w: "InFlight s < SendWindow" and len: "length pkt \<le> packetCap"
    and t: "xfer_ok t"
  shows "tx_inv ((pushPacket s pkt fin)\<lparr>xfer := t\<rparr>)"
proof -
  note gap = pushPacket_gap(1) [OF inv w, of pkt fin] pushPacket_gap(2) [OF inv w]
  then have k: "ring_count s < 2047" by simp
  have ok: "ring_ok s" using inv by (simp add: tx_inv_def)
  let ?s = "pushPacket s pkt fin"
  have eq: "ring_count (?s\<lparr>xfer := t\<rparr>) = ring_count ?s" "ring_entries (?s\<lparr>xfer := t\<rparr>) = ring_entries ?s"
    "ring_ok (?s\<lparr>xfer := t\<rparr>) = ring_ok ?s" "seq_gap (?s\<lparr>xfer := t\<rparr>) = seq_gap ?s"
    by (simp_all add: ring_count_def ring_entries_def ring_ok_def seq_gap_def)
  then have "seqs_ok (?s\<lparr>xfer := t\<rparr>)"
    using pushPacket_seqs [OF inv k, of pkt fin] by (simp add: seqs_ok_def)
  moreover have "uint (txSeqNr ?s) < 4096" by (simp add: pushPacket_def seq_simps)
  moreover have "length (tx_buf (txBuffer ?s i)) = packetCap" for i
    using inv len by (simp add: pushPacket_def tx_inv_def)
  moreover have "txSeqNrAcked ?s = txSeqNrAcked s" "rxSeqExpected ?s = rxSeqExpected s"
    "packetBuf ?s = packetBuf s" by (simp_all add: pushPacket_def)
  ultimately show ?thesis
    using inv gap t pushPacket_ring [OF ok k, of pkt fin] by (simp add: tx_inv_def eq)
qed

lemma next_chunk_shape:
  assumes "next_chunk t dat = Some (header, chunk, fin, t')" "length (tr_header t) < MaxDataPayload"
  shows "header = tr_header t \<and> length chunk \<le> MaxDataPayload - length (tr_header t) \<or>
      header = [] \<and> length chunk \<le> tr_maxChunk t"
    "t' = t\<lparr>tr_header := [], tr_data := None, tr_offset := - 1\<rparr> \<or>
     (\<exists>c::nat. t' = t\<lparr>tr_offset := int c\<rparr>)"
proof -
  define C where "C = min (length dat) (min (tr_maxChunk t) (MaxDataPayload - length (tr_header t)))"
  define D where "D = min (length dat - nat (tr_offset t)) (tr_maxChunk t)"
  have "(header, chunk, fin, t') = (tr_header t, take C dat, length dat \<le> C,
           if length dat \<le> C then t\<lparr>tr_header := [], tr_data := None, tr_offset := - 1\<rparr>
           else t\<lparr>tr_offset := int C\<rparr>) \<or>
        (header, chunk, fin, t') = ([], take D (drop (nat (tr_offset t)) dat),
           length dat \<le> nat (tr_offset t) + D,
           if length dat \<le> nat (tr_offset t) + D
           then t\<lparr>tr_header := [], tr_data := None, tr_offset := - 1\<rparr>
           else t\<lparr>tr_offset := int (nat (tr_offset t) + D)\<rparr>)"
    using assms(1) unfolding next_chunk_def Let_def if_P [OF assms(2)] C_def [symmetric] D_def [symmetric]
    by (simp only: option.inject option.distinct split: if_split_asm) simp_all
  moreover have "length (take C dat) \<le> MaxDataPayload - length (tr_header t)"
    "length (take D (drop (nat (tr_offset t)) dat)) \<le> tr_maxChunk t"
    by (simp_all add: C_def D_def)
  ultimately show "header = tr_header t \<and> length chunk \<le> MaxDataPayload - length (tr_header t) \<or>
      header = [] \<and> length chunk \<le> tr_maxChunk t"
    "t' = t\<lparr>tr_header := [], tr_data := None, tr_offset := - 1\<rparr> \<or>
     (\<exists>c::nat. t' = t\<lparr>tr_offset := int c\<rparr>)"
    by (elim disjE; simp only: prod.inject split: if_split; blast)+
qed

lemma next_chunk_fits:
  assumes "xfer_ok t" "tr_data t = Some dat" "next_chunk t dat = Some (header, chunk, fin, t')"
  shows "length header + padded_len (length chunk) + 6 \<le> packetCap" "xfer_ok t'"
proof -
  have pad: "n \<le> m \<Longrightarrow> m mod 4 = 0 \<Longrightarrow> padded_len n \<le> m" for n m
    unfolding padded_len_def by presburger
  have ok: "0 \<le> tr_offset t" "length (tr_header t) < MaxDataPayload" "tr_maxChunk t \<le> 1492"
    using assms(1,2) by (simp_all add: xfer_ok_def)
  note shape = next_chunk_shape [OF assms(3) ok(2)]
  show "length header + padded_len (length chunk) + 6 \<le> packetCap"
    using shape(1) ok(2,3) padded_len_less [of "length chunk"] pad [of "length chunk" 1492]
    by (elim disjE conjE) simp_all
  from shape(2) show "xfer_ok t'"
  proof
    assume "t' = t\<lparr>tr_header := [], tr_data := None, tr_offset := - 1\<rparr>"
    then show ?thesis by (simp add: xfer_ok_def)
  next
    assume "\<exists>c::nat. t' = t\<lparr>tr_offset := int c\<rparr>"
    then show ?thesis using ok by (auto simp: xfer_ok_def)
  qed
qed

lemma packDataPacket_ok:
  assumes inv: "tx_inv s" and w: "InFlight s < SendWindow"
    and len: "length header + padded_len (length chunk) + 6 \<le> packetCap"
  shows "packDataPacket s header chunk fin =
    Some (pushPacket s (data_packet s header chunk fin) fin, data_packet s header chunk fin)"
proof -
  have "ring_count s \<noteq> 2047" using pushPacket_gap(2) [OF inv w] by simp
  then show ?thesis
    using inv len ring_full_iff [of s]
    by (simp add: packDataPacket_eq Let_def length_data_packet tx_inv_def)
qed

text \<open>While a FIN is unacknowledged there is no transfer, and the timeouts counted are below the limit.\<close>

definition fin_ok :: "session \<Rightarrow> bool" where
  "fin_ok s \<longleftrightarrow> (finPending s \<longrightarrow> tr_data (xfer s) = None) \<and> retransmitAttempts s < MaxRetransmits"

lemma next_chunk_fin:
  "next_chunk t dat = Some (header, chunk, fin, t') \<Longrightarrow> tr_data t' = (if fin then None else tr_data t)"
  unfolding next_chunk_def Let_def
  by (simp only: option.inject option.distinct prod.inject split: if_split_asm) auto

lemma fin_ok_push:
  assumes "fin_ok s" "tr_data (xfer s) = Some dat" "next_chunk (xfer s) dat = Some (header, chunk, fin, t)"
  shows "fin_ok ((pushPacket s pkt fin)\<lparr>xfer := t\<rparr>)"
  using assms(1,2) next_chunk_fin [OF assms(3)] by (auto simp: fin_ok_def pushPacket_def)

text \<open>What a transfer leaves alone: the receive state, the timer and the output.\<close>

definition same_ctl :: "session \<Rightarrow> session \<Rightarrow> bool" where
  "same_ctl s t \<longleftrightarrow> rxSeqExpected s = rxSeqExpected t \<and> txSeqNrAcked s = txSeqNrAcked t \<and>
     packetBuf s = packetBuf t \<and> outbox s = outbox t \<and> ackTimer s = ackTimer t \<and>
     ackTimerSeq s = ackTimerSeq t \<and> ackTimerExpectSeq s = ackTimerExpectSeq t \<and>
     ackWaitMode s = ackWaitMode t \<and> closed s = closed t \<and> resetCallback s = resetCallback t"

lemma same_ctl_refl [simp]: "same_ctl s s"
  and same_ctl_trans: "same_ctl s t \<Longrightarrow> same_ctl t u \<Longrightarrow> same_ctl s u"
  and same_ctl_push: "same_ctl ((pushPacket s pkt fin)\<lparr>xfer := x\<rparr>) s"
  and same_ctl_clear: "same_ctl (clearTransfer s) s"
  by (auto simp: same_ctl_def pushPacket_def clearTransfer_def)

lemma tx_inv_clear: "tx_inv s \<Longrightarrow> tx_inv (clearTransfer s)"
  by (auto simp: tx_inv_def clearTransfer_def ring_ok_def seqs_ok_def ring_count_def
      ring_entries_def seq_gap_def xfer_ok_def)

lemma handleTransfer_body_inv:
  assumes inv: "tx_inv s" and w: "InFlight s < SendWindow" and d: "tr_data (xfer s) = Some dat"
  shows "(\<exists>s'. handleTransfer_body s dat = Break s' \<and> s' = clearTransfer s) \<or>
     (\<exists>header chunk fin t. next_chunk (xfer s) dat = Some (header, chunk, fin, t) \<and>
        (let pkt = data_packet s header chunk fin; s' = (pushPacket s pkt fin)\<lparr>xfer := t\<rparr>
         in handleTransfer_body s dat = Continue s' pkt \<and> tx_inv s'))"
proof -
  have x: "xfer_ok (xfer s)" using inv by (simp add: tx_inv_def)
  then have "0 \<le> tr_offset (xfer s)" using d by (simp add: xfer_ok_def)
  note b = handleTransfer_body_eq [OF this, of dat]
  show ?thesis
  proof (cases "next_chunk (xfer s) dat")
    case None
    then show ?thesis by (simp add: b)
  next
    case (Some a)
    obtain header chunk fin t where a: "a = (header, chunk, fin, t)" by (cases a)
    note fits = next_chunk_fits [OF x d Some [unfolded a]]
    have "length (data_packet s header chunk fin) \<le> packetCap"
      using fits(1) by (simp only: length_data_packet)
    then have "tx_inv ((pushPacket s (data_packet s header chunk fin) fin)\<lparr>xfer := t\<rparr>)"
      using tx_inv_push [OF inv w _ fits(2)] by blast
    then show ?thesis
      using Some a by (simp add: b packDataPacket_ok [OF inv w fits(1)])
  qed
qed

lemma handleTransfer_loop_inv:
  assumes "tx_inv s" "fin_ok s"
  shows "\<exists>s' ps. handleTransfer_loop s batch = Some (s', batch @ ps) \<and> tx_inv s' \<and> fin_ok s' \<and> same_ctl s' s"
  using assms
proof (induction s batch rule: handleTransfer_loop.induct)
  case (1 s batch)
  show ?case
  proof (cases "tr_data (xfer s) \<noteq> None \<and> InFlight s < SendWindow")
    case False
    then show ?thesis
      using 1 by (subst handleTransfer_loop.simps) (auto split: option.split)
  next
    case True
    then obtain dat where d: "tr_data (xfer s) = Some dat" and w: "InFlight s < SendWindow" by auto
    from handleTransfer_body_inv [OF 1(2) w d] show ?thesis
    proof
      assume "\<exists>s'. handleTransfer_body s dat = Break s' \<and> s' = clearTransfer s"
      moreover have "fin_ok (clearTransfer s)" using 1(3) by (simp add: fin_ok_def clearTransfer_def)
      ultimately show ?thesis
        using d w 1(2) by (subst handleTransfer_loop.simps) (simp add: tx_inv_clear same_ctl_clear)
    next
      assume "\<exists>header chunk fin t. next_chunk (xfer s) dat = Some (header, chunk, fin, t) \<and>
        (let pkt = data_packet s header chunk fin; s' = (pushPacket s pkt fin)\<lparr>xfer := t\<rparr>
         in handleTransfer_body s dat = Continue s' pkt \<and> tx_inv s')"
      then obtain header chunk pkt fin t where
        n: "next_chunk (xfer s) dat = Some (header, chunk, fin, t)"
        and b: "handleTransfer_body s dat = Continue ((pushPacket s pkt fin)\<lparr>xfer := t\<rparr>) pkt"
        and inv: "tx_inv ((pushPacket s pkt fin)\<lparr>xfer := t\<rparr>)" by (auto simp: Let_def)
      from 1(1) [OF d w b inv fin_ok_push [OF 1(3) d n]] obtain s' ps where
        "handleTransfer_loop ((pushPacket s pkt fin)\<lparr>xfer := t\<rparr>) (batch @ [pkt]) = Some (s', (batch @ [pkt]) @ ps)"
        "tx_inv s'" "fin_ok s'" "same_ctl s' ((pushPacket s pkt fin)\<lparr>xfer := t\<rparr>)" by blast
      moreover from this(4) have "same_ctl s' s" using same_ctl_push by (rule same_ctl_trans)
      ultimately show ?thesis
        using d w b by (subst handleTransfer_loop.simps) simp
    qed
  qed
qed

section \<open>Acknowledgements keep it\<close>

lemma pruneAcked_loop_frame: "\<exists>r. pruneAcked_loop n s a = s\<lparr>txReadIndex := r\<rparr>"
proof (induction n arbitrary: s)
  case 0
  then show ?case by (intro exI [of _ "txReadIndex s"]) simp
next
  case (Suc n)
  have id: "\<exists>r. s = s\<lparr>txReadIndex := r\<rparr>" by (rule exI [of _ "txReadIndex s"]) simp
  obtain r where "pruneAcked_loop n (s\<lparr>txReadIndex := (txReadIndex s + 1) mod ringSize\<rparr>) a =
      s\<lparr>txReadIndex := r\<rparr>"
    using Suc [of "s\<lparr>txReadIndex := (txReadIndex s + 1) mod ringSize\<rparr>"] by auto
  then show ?case using id by (auto simp: Let_def)
qed

lemma pruneAcked_frame: obtains r where "pruneAcked s a = s\<lparr>txReadIndex := r\<rparr>"
  using pruneAcked_loop_frame unfolding pruneAcked_def by metis

lemma dropWhile_drop: "\<exists>m. dropWhile P xs = drop m xs \<and> m \<le> length xs \<and> (m < length xs \<longrightarrow> \<not> P (xs ! m))"
  by (intro exI [of _ "length (takeWhile P xs)"])
    (simp add: dropWhile_eq_drop length_takeWhile_le nth_length_takeWhile)

text \<open>
  An entry survives the pruning exactly if it is younger than the acknowledged one; the oldest
  survivor bounds how many remain.
\<close>

lemma pruneAcked_window:
  assumes inv: "tx_inv s" and a: "uint a < 4096"
  defines "s' \<equiv> pruneAcked (s\<lparr>txSeqNrAcked := a\<rparr>) a"
  shows "tx_inv s'" "int (ring_count s') \<le> seq_gap s'"
proof -
  let ?s = "s\<lparr>txSeqNrAcked := a\<rparr>"
  obtain r where r: "s' = ?s\<lparr>txReadIndex := r\<rparr>"
    unfolding s'_def by (rule pruneAcked_frame)
  have ok: "ring_ok ?s" and k9: "ring_count s \<le> 9" and seqs: "seqs_ok s"
    using inv by (simp_all add: tx_inv_def ring_ok_def)
  have E: "ring_entries ?s = ring_entries s" "ring_count ?s = ring_count s"
    by (simp_all add: ring_entries_def ring_count_def)
  let ?g = "(uint (txSeqNr s) - (uint a + 1)) mod 4096"
  let ?P = "\<lambda>p. \<not> (tx_seq p - a - 1) AND 0xFFF < 2048"
  obtain m where m: "ring_entries s' = drop m (ring_entries s)" "m \<le> ring_count s"
    "m < ring_count s \<longrightarrow> \<not> ?P (ring_entries s ! m)"
    using dropWhile_drop [of ?P "ring_entries s"] pruneAcked_dropWhile(2) [OF ok, of a]
    unfolding s'_def E(1) by auto
  have count: "ring_count s' = ring_count s - m"
    using m(1) by (metis length_drop length_ring_entries)
  have gap: "seq_gap s' = ?g" by (simp add: seq_gap_def r)
  have "int (ring_count s - m) \<le> ?g"
  proof (cases "m < ring_count s")
    case True
    let ?p = "ring_entries s ! m" and ?age = "int (ring_count s) - int m"
    have "uint ((tx_seq ?p - a - 1) AND 0xFFF) = (uint (tx_seq ?p) - (uint a + 1)) mod 4096"
      by (simp add: seq_simps mod_simps diff_diff_eq)
    also have "\<dots> = ((uint (txSeqNr s) - (uint a + 1)) - ?age) mod 4096"
      using seqs True by (simp add: seqs_ok_def mod_simps algebra_simps)
    also have "\<dots> = (?g - ?age) mod 4096" by (simp add: mod_simps)
    finally have keep: "(?g - ?age) mod 4096 < 2048"
      using m(3) True by (simp add: word_less_def)
    have "?age \<le> ?g"
    proof (rule ccontr)
      assume "\<not> ?age \<le> ?g"
      then have "(?g - ?age) mod 4096 = ?g - ?age + 4096"
        using k9 by (intro mod_pos_pos_trivial [of "?g - ?age + 4096" 4096, simplified mod_add_self2]) simp_all
      with keep k9 show False by simp
    qed
    with True show ?thesis by simp
  qed simp
  then show *: "int (ring_count s') \<le> seq_gap s'" by (simp add: count gap)
  have "seqs_ok s'"
    unfolding seqs_ok_def
  proof (intro allI impI)
    fix j assume j: "j < ring_count s'"
    then have "ring_entries s' ! j = ring_entries s ! (m + j)" using m by (simp add: count)
    moreover have "m + j < ring_count s" using j by (simp add: count)
    ultimately show "uint (tx_seq (ring_entries s' ! j)) =
        (uint (txSeqNr s') - (int (ring_count s') - int j)) mod 4096"
      using seqs m(2) unfolding seqs_ok_def count by (simp add: r of_nat_diff algebra_simps)
  qed
  moreover have "ring_ok s'" unfolding s'_def by (rule pruneAcked_dropWhile(1) [OF ok])
  ultimately show "tx_inv s'"
    using inv * a k9 count unfolding tx_inv_def by (simp add: r)
qed

section \<open>The timer\<close>

definition waiting :: "session \<Rightarrow> bool" where
  "waiting s \<longleftrightarrow> 0 < InFlight s \<and>
     (finPending s \<or> tr_data (xfer s) \<noteq> None \<and> SendWindow \<le> InFlight s)"

text \<open>A running timer runs for its mode's duration and its callback is the current one.\<close>

definition timer_ok :: "session \<Rightarrow> bool" where
  "timer_ok s \<longleftrightarrow>
     ackTimer s = (case ackWaitMode s of ackWaitNone \<Rightarrow> None
       | ackWaitWindow \<Rightarrow> Some WindowAckTimeout | ackWaitFin \<Rightarrow> Some FinAckTimeout) \<and>
     (ackWaitMode s \<noteq> ackWaitNone \<longrightarrow> ackTimerExpectSeq s = ackTimerSeq s)"

definition mode_ok :: "session \<Rightarrow> bool" where
  "mode_ok s \<longleftrightarrow> ackWaitMode s = (if \<not> waiting s then ackWaitNone
     else if finPending s then ackWaitFin else ackWaitWindow)"

lemma timer_ok_stop [simp]: "timer_ok (stopAckTimer s)"
  and timer_ok_arm: "timer_ok s \<Longrightarrow> timer_ok (armAckTimer s)"
  by (auto simp: timer_ok_def stopAckTimer_def armAckTimer_def Let_def)

lemma timer_ok_update: "timer_ok s \<Longrightarrow> timer_ok (updateAckTimer s)"
  by (simp add: updateAckTimer_def timer_ok_arm)

lemma fin_ok_timer [simp]:
  "fin_ok (stopAckTimer s) = fin_ok s" "fin_ok (armAckTimer s) = fin_ok s"
  "fin_ok (updateAckTimer s) = fin_ok s"
  by (auto simp: fin_ok_def stopAckTimer_def armAckTimer_def updateAckTimer_def Let_def)

lemma waiting_timer [simp]:
  "waiting (stopAckTimer s) = waiting s" "waiting (armAckTimer s) = waiting s"
  "waiting (updateAckTimer s) = waiting s"
  by (auto simp: waiting_def stopAckTimer_def armAckTimer_def updateAckTimer_def Let_def
      InFlight_def)

lemma mode_ok_stop: "\<not> waiting s \<Longrightarrow> mode_ok (stopAckTimer s)"
  and mode_ok_arm: "waiting s \<Longrightarrow> mode_ok (armAckTimer s)"
  unfolding mode_ok_def by (auto simp: stopAckTimer_def [of s] armAckTimer_def [of s] Let_def waiting_def InFlight_def)

lemma mode_ok_update: "mode_ok (updateAckTimer s)"
proof (cases "waiting s")
  case True
  then have "updateAckTimer s = armAckTimer s" by (auto simp: updateAckTimer_def waiting_def)
  with True show ?thesis by (simp add: mode_ok_arm)
next
  case False
  then have "updateAckTimer s = stopAckTimer s" by (auto simp: updateAckTimer_def waiting_def)
  with False show ?thesis by (simp add: mode_ok_stop)
qed

definition session_inv :: "session \<Rightarrow> bool" where
  "session_inv s \<longleftrightarrow> tx_inv s \<and> timer_ok s \<and> fin_ok s \<and> (\<not> closed s \<longrightarrow> mode_ok s)"

lemma session_inv_update:
  "tx_inv s \<Longrightarrow> timer_ok s \<Longrightarrow> fin_ok s \<Longrightarrow> session_inv (updateAckTimer s)"
  by (simp add: session_inv_def timer_ok_update mode_ok_update)

lemma session_inv_stop:
  "tx_inv s \<Longrightarrow> fin_ok s \<Longrightarrow> \<not> waiting s \<Longrightarrow> session_inv (stopAckTimer s)"
  by (simp add: session_inv_def mode_ok_stop)

text \<open>Counters and output are irrelevant to it.\<close>

definition same_core :: "session \<Rightarrow> session \<Rightarrow> bool" where
  "same_core s t \<longleftrightarrow> same_tx s t \<and> ackTimer s = ackTimer t \<and>
     ackTimerExpectSeq s = ackTimerExpectSeq t \<and> ackTimerSeq s = ackTimerSeq t \<and>
     ackWaitMode s = ackWaitMode t \<and> retransmitAttempts s = retransmitAttempts t \<and>
     finPending s = finPending t \<and> closed s = closed t"

lemma same_core_inv:
  assumes "same_core s t" shows "session_inv s \<longleftrightarrow> session_inv t"
proof -
  have tx: "same_tx s t" using assms by (simp add: same_core_def)
  have "waiting s = waiting t"
    using assms same_tx_ring(4) [OF tx] by (simp add: waiting_def same_core_def same_tx_def)
  with assms same_tx_inv [OF tx] show ?thesis
    by (simp add: session_inv_def timer_ok_def fin_ok_def mode_ok_def same_core_def same_tx_def)
qed

section \<open>Every operation keeps the invariant\<close>

lemma same_core_refl [simp]: "same_core s s"
  and same_core_counters [simp]:
  "same_core (s\<lparr>packetsRx := a\<rparr>) s" "same_core (s\<lparr>peerNACKs := a\<rparr>) s"
  "same_core (s\<lparr>unexpectedSeqNrs := a\<rparr>) s" "same_core (s\<lparr>outbox := es\<rparr>) s"
  "same_core (s\<lparr>resetCallback := b\<rparr>) s" "same_core (count_resent k s) s"
  by (simp_all add: same_core_def same_tx_def count_resent_def)

lemma same_core_trans: "same_core s t \<Longrightarrow> same_core t u \<Longrightarrow> same_core s u"
  by (simp add: same_core_def same_tx_def)

lemmas session_inv_counters [simp] = same_core_counters [THEN same_core_inv]

lemma handleTransfer_inv:
  assumes "tx_inv s" "timer_ok s" "fin_ok s"
  shows "\<exists>s'. handleTransfer s = Some s' \<and> session_inv s' \<and> rxSeqExpected s' = rxSeqExpected s"
proof -
  obtain s' ps where l: "handleTransfer_loop s [] = Some (s', ps)" "tx_inv s'" "fin_ok s'" "same_ctl s' s"
    using handleTransfer_loop_inv [OF assms(1,3), of "[]"] by auto
  then have "timer_ok s'" using assms(2) by (simp add: timer_ok_def same_ctl_def)
  then have "timer_ok (s'\<lparr>outbox := es\<rparr>)" "fin_ok (s'\<lparr>outbox := es\<rparr>)" for es
    using l(3) by (simp_all add: timer_ok_def fin_ok_def)
  then have "session_inv (updateAckTimer (s'\<lparr>outbox := es\<rparr>))" for es
    using l(2) by (simp add: session_inv_update)
  moreover have "session_inv (updateAckTimer s')"
    using l(2) \<open>timer_ok s'\<close> l(3) by (rule session_inv_update)
  moreover have "rxSeqExpected (updateAckTimer t) = rxSeqExpected t" for t
    by (simp add: updateAckTimer_def stopAckTimer_def armAckTimer_def Let_def)
  ultimately show ?thesis using l(4) by (simp add: handleTransfer_def l(1) Let_def same_ctl_def)
qed

lemma resetSendState_inv:
  assumes "session_inv s" "xfer_ok t"
  shows "tx_inv ((resetSendState s)\<lparr>xfer := t\<rparr>)" "timer_ok ((resetSendState s)\<lparr>xfer := t\<rparr>)"
    "fin_ok ((resetSendState s)\<lparr>xfer := t\<rparr>)"
proof -
  have "ring_count ((resetSendState s)\<lparr>xfer := t\<rparr>) = 0"
    by (simp add: ring_count_def resetSendState_def stopAckTimer_def Let_def)
  then show "tx_inv ((resetSendState s)\<lparr>xfer := t\<rparr>)"
    using assms unfolding session_inv_def tx_inv_def seqs_ok_def
    by (simp add: ring_ok_def resetSendState_def stopAckTimer_def Let_def add_nonneg_pos)
  show "timer_ok ((resetSendState s)\<lparr>xfer := t\<rparr>)" "fin_ok ((resetSendState s)\<lparr>xfer := t\<rparr>)"
    by (simp_all add: timer_ok_def fin_ok_def resetSendState_def stopAckTimer_def Let_def)
qed

lemma SendData_inv:
  assumes "session_inv s" "(case payload of None \<Rightarrow> 0 | Some p \<Rightarrow> length p) \<le> 1492"
  shows "\<exists>s'. SendData s payload = Some s' \<and> session_inv s'"
proof -
  let ?t = "\<lparr>tr_header = [], tr_data = payload, tr_offset = 0,
    tr_maxChunk = (case payload of None \<Rightarrow> 0 | Some p \<Rightarrow> length p)\<rparr>"
  have "xfer_ok ?t" using assms(2) by (auto simp: xfer_ok_def)
  from handleTransfer_inv [OF resetSendState_inv [OF assms(1) this]] show ?thesis
    by (auto simp: SendData_def Let_def)
qed

lemma optimalChunkSize_1408: "optimalChunkSize n = 1408"
proof -
  have "ceil_div n 1408 \<le> ceil_div n c" if "c \<in> {1024, 1280}" for c
    using that unfolding ceil_div_def by auto
  then show ?thesis by (simp add: optimalChunkSize_def not_less [symmetric])
qed

lemma SendRawDataWithHeader_inv:
  assumes "session_inv s" "length header < MaxDataPayload"
  shows "\<exists>s'. SendRawDataWithHeader s header dat = Some s' \<and> session_inv s'"
proof -
  let ?t = "\<lparr>tr_header = header, tr_data = dat, tr_offset = 0, tr_maxChunk = 1408\<rparr>"
  have "xfer_ok ?t" using assms(2) by (simp add: xfer_ok_def)
  from handleTransfer_inv [OF resetSendState_inv [OF assms(1) this]] show ?thesis
    by (auto simp: SendRawDataWithHeader_def Let_def optimalChunkSize_1408)
qed

text \<open>The six bytes of an ACK or NACK.\<close>

definition ack_packet :: "session \<Rightarrow> bool \<Rightarrow> bytes" where
  "ack_packet s ack =
     le16 (Header_val \<lparr>PacketType = PacketData, SeqNr = txSeqNr s\<rparr>) @
     le32 (DataHeader_val
       \<lparr>SeqNrAck = (if ack then (rxSeqExpected s - 1) AND 0xFFF else rxSeqExpected s),
        Flags = (if ack then DataFlagACK else 0), HdrWordCount = 0, DataByteCount = 0\<rparr>)"

lemma sendACK_eq:
  assumes "6 \<le> length (packetBuf s)"
  shows "sendACK s ack = Some (s\<lparr>packetBuf := ack_packet s ack @ drop 6 (packetBuf s),
     outbox := outbox s @ [WriteTo (ack_packet s ack)], packetsTx := packetsTx s + 1,
     nacks := (if ack then nacks s else nacks s + 1)\<rparr>)"
  using assms
  by (simp add: sendACK_def Let_def go_slice_def base_hdr.pack_eq data_hdr.pack_eq blit_def
      ack_packet_def)

lemma sendACK_inv:
  assumes "tx_inv s"
  shows "\<exists>s'. sendACK s ack = Some s' \<and> same_core s' s"
proof -
  have "length (packetBuf s) = 1500" using assms by (simp add: tx_inv_def)
  then show ?thesis
    by (simp add: sendACK_eq same_core_def same_tx_def ack_packet_def)
qed

lemma onAck_inv:
  assumes inv: "session_inv s" and a: "uint a < 4096"
  shows "session_inv (onAck s a)"
proof -
  let ?p = "(pruneAcked (s\<lparr>txSeqNrAcked := a\<rparr>) a)\<lparr>retransmitAttempts := 0\<rparr>"
  let ?last = "(txSeqNr s - 1) AND 0xFFF"
  obtain r where r: "pruneAcked (s\<lparr>txSeqNrAcked := a\<rparr>) a = s\<lparr>txSeqNrAcked := a, txReadIndex := r\<rparr>"
    using pruneAcked_frame [of "s\<lparr>txSeqNrAcked := a\<rparr>" a] by auto
  have tx: "tx_inv s" using inv by (simp add: session_inv_def)
  note w = pruneAcked_window [OF tx a]
  have p: "tx_inv ?p" "timer_ok ?p" "fin_ok ?p"
    using w(1) inv by (simp_all add: r session_inv_def timer_ok_def fin_ok_def)
  have upd: "session_inv (updateAckTimer ?p)" using p by (rule session_inv_update)
  have "session_inv ((stopAckTimer ?p)\<lparr>finPending := False\<rparr>)" if "a = ?last"
  proof -
    have "seq_gap (pruneAcked (s\<lparr>txSeqNrAcked := a\<rparr>) a) =
        (uint (txSeqNr s) - (uint ?last + 1)) mod 4096"
      unfolding seq_gap_def r using that by simp
    also have "\<dots> = ((uint (txSeqNr s) - 1) - uint ?last) mod 4096" by (simp add: algebra_simps)
    also have "\<dots> = 0" by (simp add: seq_simps mod_simps)
    finally have "ring_count (pruneAcked (s\<lparr>txSeqNrAcked := a\<rparr>) a) = 0" using w(2) by simp
    moreover have "ring_ok (pruneAcked (s\<lparr>txSeqNrAcked := a\<rparr>) a)"
      using w(1) by (simp add: tx_inv_def)
    ultimately have "r = txWriteIndex s" by (simp add: ring_count_0_iff r)
    then have "\<not> waiting (?p\<lparr>finPending := False\<rparr>)" by (simp add: waiting_def InFlight_def r)
    then have "session_inv (stopAckTimer (?p\<lparr>finPending := False\<rparr>))"
      using p by (intro session_inv_stop) (simp_all add: fin_ok_def)
    moreover have "stopAckTimer (?p\<lparr>finPending := False\<rparr>) = (stopAckTimer ?p)\<lparr>finPending := False\<rparr>"
      by (simp add: stopAckTimer_def)
    ultimately show ?thesis by simp
  qed
  with inv upd show ?thesis by (simp add: onAck_def Let_def)
qed

lemma onPeerAck_inv:
  assumes "session_inv s" "uint a < 4096"
  shows "\<exists>s'. onPeerAck s a = Some s' \<and> session_inv s'"
  using handleTransfer_inv [of "onAck s a"] onAck_inv [OF assms]
  by (auto simp: onPeerAck_def Let_def session_inv_def)

lemma retransmitFrom_inv:
  assumes "ring_ok s"
  shows "same_core (fst (retransmitFrom s from)) s" "fst (retransmitFrom s from) =
     (count_resent (length (resend s from)) s)
        \<lparr>outbox := (if resend s from = [] then outbox s else outbox s @ [WriteBatch (resend s from)])\<rparr>"
  unfolding retransmitFrom_eq [OF assms] by (simp_all add: same_core_def same_tx_def count_resent_def)

lemma onPeerNack_inv:
  assumes "session_inv s"
  shows "session_inv (onPeerNack s a)"
proof -
  let ?s = "s\<lparr>retransmitAttempts := 0\<rparr>"
  let ?t = "fst (retransmitFrom ?s a)"
  have "ring_ok ?s" using assms by (simp add: session_inv_def tx_inv_def ring_ok_def)
  then have c: "same_core ?t ?s" by (rule retransmitFrom_inv)
  then have "tx_inv ?t" using assms same_tx_inv [of ?t ?s] by (simp add: same_core_def session_inv_def)
  moreover have "timer_ok ?t" "fin_ok ?t"
    using c assms by (simp_all add: session_inv_def timer_ok_def fin_ok_def same_core_def same_tx_def)
  ultimately show ?thesis
    unfolding onPeerNack_def Let_def by (simp add: case_prod_beta session_inv_update)
qed

lemma session_inv_giveup:
  assumes "tx_inv u" "finPending u = False" "\<not> waiting u"
  shows "session_inv ((stopAckTimer u)\<lparr>retransmitAttempts := 0\<rparr>)"
proof -
  have "session_inv (stopAckTimer (u\<lparr>retransmitAttempts := 0\<rparr>))"
    using assms by (intro session_inv_stop) (simp_all add: waiting_def fin_ok_def)
  moreover have "stopAckTimer (u\<lparr>retransmitAttempts := 0\<rparr>) = (stopAckTimer u)\<lparr>retransmitAttempts := 0\<rparr>"
    by (simp add: stopAckTimer_def)
  ultimately show ?thesis by (simp only:)
qed

lemma handleAckTimeout_inv:
  assumes tx: "tx_inv s" and fin: "fin_ok s" and w: "waiting s" and none: "ackWaitMode s = ackWaitNone"
  shows "session_inv (handleAckTimeout s)"
proof -
  let ?s = "s\<lparr>retransmitAttempts := retransmitAttempts s + 1\<rparr>"
  let ?t = "fst (retransmitFrom ?s ((txSeqNrAcked s + 1) AND 0xFFF))"
  have "ring_ok ?s" using tx by (simp add: tx_inv_def ring_ok_def)
  then have c: "same_core ?t ?s" by (rule retransmitFrom_inv)
  then have t: "retransmitAttempts ?t = retransmitAttempts s + 1" "finPending ?t = finPending s"
    "tr_data (xfer ?t) = tr_data (xfer s)" "same_tx ?t ?s" "ackWaitMode ?t = ackWaitNone"
    using none by (simp_all add: same_core_def same_tx_def)
  have tx': "tx_inv ?t" using tx same_tx_inv [OF t(4)] by simp
  have w': "waiting ?t" "finPending s \<or> tr_data (xfer s) \<noteq> None \<and> SendWindow \<le> InFlight s"
    using w t same_tx_ring(4) [OF t(4)] same_tx_ring(4) [OF same_tx_counters(4)]
    by (simp_all add: waiting_def)
  show ?thesis
  proof (cases "retransmitAttempts ?t < MaxRetransmits")
    case True
    have "fin_ok ?t" using fin True t by (simp add: fin_ok_def)
    moreover have "timer_ok (armAckTimer ?t)" using t(5) by (simp add: timer_ok_def armAckTimer_def Let_def)
    ultimately have "session_inv (armAckTimer ?t)"
      using tx' w'(1) by (simp add: session_inv_def mode_ok_arm)
    then show ?thesis
      using True w'(2) by (auto simp: handleAckTimeout_def Let_def case_prod_beta)
  next
    case False
    let ?u = "(if finPending s then ?t\<lparr>finPending := False\<rparr> else clearTransfer ?t)"
    have u: "\<not> waiting ?u" "tx_inv ?u" "finPending ?u = False"
      using fin t tx_inv_clear [OF tx'] tx'
      by (auto simp: waiting_def fin_ok_def clearTransfer_def)
    from session_inv_giveup [OF u(2,3,1)]
    have "session_inv ((stopAckTimer ?u)\<lparr>retransmitAttempts := 0\<rparr>)" .
    then show ?thesis
      using False w'(2) by (auto simp: handleAckTimeout_def Let_def case_prod_beta)
  qed
qed

lemma ackTimerFunc_inv:
  assumes "session_inv s"
  shows "session_inv (ackTimerFunc s)"
proof (cases "closed s \<or> ackWaitMode s = ackWaitNone \<or> ackTimerExpectSeq s \<noteq> ackTimerSeq s")
  case True
  with assms show ?thesis by (simp add: ackTimerFunc_def)
next
  case False
  then have "waiting s" using assms by (auto simp: session_inv_def mode_ok_def split: if_splits)
  then have "session_inv (handleAckTimeout (s\<lparr>ackWaitMode := ackWaitNone\<rparr>))"
    using assms
    by (intro handleAckTimeout_inv) (simp_all add: session_inv_def fin_ok_def waiting_def)
  with False show ?thesis by (simp add: ackTimerFunc_def)
qed

lemma ResetSession_inv:
  assumes "session_inv s"
  shows "session_inv (ResetSession s)" "uint (rxSeqExpected (ResetSession s)) < 4096"
proof -
  have "ring_count (ResetSession s) = 0" "txReadIndex (ResetSession s) = txWriteIndex (ResetSession s)"
    by (simp_all add: ring_count_def ResetSession_def clearTransfer_def stopAckTimer_def Let_def)
  then have "tx_inv (ResetSession s)" "\<not> waiting (ResetSession s)"
    using assms unfolding session_inv_def tx_inv_def seqs_ok_def waiting_def InFlight_def
    by (simp_all add: ring_ok_def ResetSession_def clearTransfer_def stopAckTimer_def Let_def
        xfer_ok_def add_nonneg_pos)
  moreover have "timer_ok (ResetSession s)" "fin_ok (ResetSession s)"
    "ackWaitMode (ResetSession s) = ackWaitNone"
    by (simp_all add: timer_ok_def fin_ok_def ResetSession_def clearTransfer_def stopAckTimer_def Let_def)
  ultimately show "session_inv (ResetSession s)" by (simp add: session_inv_def mode_ok_def)
  show "uint (rxSeqExpected (ResetSession s)) < 4096"
    by (simp add: ResetSession_def clearTransfer_def stopAckTimer_def Let_def)
qed

lemma Session_Close_inv: "session_inv s \<Longrightarrow> session_inv (Session_Close s)"
  by (simp add: Session_Close_def session_inv_def fin_ok_def) (simp add: stopAckTimer_def)

lemma session_inv_rx:
  "session_inv s \<Longrightarrow> uint v < 4096 \<Longrightarrow> session_inv (s\<lparr>rxSeqExpected := v\<rparr>)"
  by (simp add: session_inv_def tx_inv_def timer_ok_def fin_ok_def mode_ok_def waiting_def
      InFlight_def ring_ok_def seqs_ok_def ring_count_def ring_entries_def seq_gap_def)

lemma NewSession_inv: "session_inv NewSession"
  by (simp add: NewSession_def session_inv_def tx_inv_def timer_ok_def fin_ok_def mode_ok_def
      waiting_def InFlight_def ring_ok_def seqs_ok_def ring_count_def ring_entries_def seq_gap_def
      xfer_ok_def)

end
