(* ===== verification/RdmaSteps.thy ===== *)
theory RdmaSteps
  imports RdmaInv
begin

text \<open>
  A session as a state machine: the receive path branch by branch, the step relation of the
  exported operations and the timer callback, and what holds in every reachable state.
\<close>

section \<open>The receive path by branches\<close>

text \<open>A DATA datagram by its fields; every datagram of six or more bytes has this form.\<close>

definition datagram :: "Header \<Rightarrow> DataHeader \<Rightarrow> bytes \<Rightarrow> bytes" where
  "datagram hdr d payload = le16 (Header_val hdr) @ le32 (DataHeader_val d) @ payload"

definition payload_size :: "DataHeader \<Rightarrow> bytes \<Rightarrow> nat" where
  "payload_size d payload =
     min (length payload) (unat (HdrWordCount d) * 4 + unat (DataByteCount d))"

definition is_ack :: "DataHeader \<Rightarrow> bool" where
  "is_ack d \<longleftrightarrow> Flags d AND DataFlagACK \<noteq> 0"

lemma datagram_cases:
  assumes "6 \<le> length b"
  obtains hdr d payload where "b = datagram hdr d payload" "wf_Header hdr" "wf_DataHeader d"
proof -
  obtain hdr where h: "wf_Header hdr" "le16 (Header_val hdr) = take 2 b"
    using base_hdr.unpack_long [of b] assms by auto
  obtain d where d: "wf_DataHeader d" "le32 (DataHeader_val d) = take 4 (drop 2 b)"
    using data_hdr.unpack_long [of "drop 2 b"] assms by fastforce
  have "b = take 2 b @ take 4 (drop 2 b) @ drop 6 b" by (simp flip: take_add append_assoc)
  then show ?thesis using that [of hdr d "drop 6 b"] h d by (simp add: datagram_def)
qed

lemma unpack_datagram:
  assumes "wf_Header hdr" "wf_DataHeader d"
  shows "UnpackHeader (datagram hdr d payload) = Some (Inr hdr)"
    "go_slice (datagram hdr d payload) 2 6 = Some (le32 (DataHeader_val d))"
    "UnpackDataHeader (le32 (DataHeader_val d)) = Some (Inr d)"
    "go_slice (datagram hdr d payload) 6 (length (datagram hdr d payload)) = Some payload"
  using assms base_hdr.unpack_enc [of hdr] data_hdr.unpack_enc [of d "[]"]
  by (simp_all add: datagram_def go_slice_def)

lemma wf_seqs:
  "wf_Header hdr \<Longrightarrow> uint (SeqNr hdr) < 4096" "wf_DataHeader d \<Longrightarrow> uint (SeqNrAck d) < 4096"
proof -
  show "wf_Header hdr \<Longrightarrow> uint (SeqNr hdr) < 4096"
    by (metis wf_Header_def uint_and_fff pos_mod_bound zero_less_numeral)
  show "wf_DataHeader d \<Longrightarrow> uint (SeqNrAck d) < 4096"
    by (metis wf_DataHeader_def uint_and_fff pos_mod_bound zero_less_numeral)
qed

text \<open>What a payload with a sequence number means to a receiver that expects another one.\<close>

datatype rx_verdict = Deliver | Duplicate | Resync | Gap

definition verdict :: "u16 \<Rightarrow> u16 \<Rightarrow> rx_verdict" where
  "verdict expected seq =
     (if seq = expected then Deliver
      else if seq = (expected - 1) AND 0xFFF then Duplicate
      else if seq = 0 then Resync else Gap)"

definition ack_if :: "DataHeader \<Rightarrow> session \<Rightarrow> session option" where
  "ack_if d s = (if is_ack d then onPeerAck s (SeqNrAck d) else Some s)"

definition rx_counted :: "session \<Rightarrow> session" where
  "rx_counted s = s\<lparr>packetsRx := packetsRx s + 1\<rparr>"

lemmas rx_defs = ProcessDataPacket_def Let_def is_ack_def ack_if_def rx_counted_def

lemma payload_size_if:
  "(if length payload < unat (HdrWordCount d) * 4 + unat (DataByteCount d) then length payload
    else unat (HdrWordCount d) * 4 + unat (DataByteCount d)) = payload_size d payload"
  by (simp add: payload_size_def)

text \<open>The datagram parsed, the rest of the body unchanged.\<close>

lemma ProcessDataPacket_parsed:
  assumes "wf_Header hdr" "wf_DataHeader d" "PacketType hdr = PacketData"
  shows "ProcessDataPacket s (datagram hdr d payload) =
    (let s = rx_counted s; n = payload_size d payload in
     if n = 0 then
       (if is_ack d then map_option (\<lambda>s. (s, Inr None)) (onPeerAck s (SeqNrAck d))
        else Some (onPeerNack (s\<lparr>peerNACKs := peerNACKs s + 1\<rparr>) (SeqNrAck d), Inr None))
     else case verdict (rxSeqExpected s) (SeqNr hdr) of
       Duplicate \<Rightarrow>
         Option.bind (sendACK (s\<lparr>unexpectedSeqNrs := unexpectedSeqNrs s + 1\<rparr>) True) (\<lambda>t.
         map_option (\<lambda>t. (if tr_data (xfer s) \<noteq> None
             then onPeerNack t ((txSeqNrAcked s + 1) AND 0xFFF) else t, Inr None)) (ack_if d t))
     | Gap \<Rightarrow>
         Option.bind (sendACK (s\<lparr>unexpectedSeqNrs := unexpectedSeqNrs s + 1\<rparr>) False) (\<lambda>t.
         map_option (\<lambda>t. (t, Inr None)) (ack_if d t))
     | v \<Rightarrow>
         Option.bind (sendACK ((if v = Resync then ResetSession s else s)
             \<lparr>rxSeqExpected := (SeqNr hdr + 1) AND 0xFFF\<rparr>) True) (\<lambda>t.
         map_option (\<lambda>t. (t, Inr (Some (take n payload)))) (ack_if d t)))"
proof -
  have n: "payload_size d payload \<le> length payload" by (simp add: payload_size_def)
  have sl: "go_slice payload 0 (payload_size d payload) = Some (take (payload_size d payload) payload)"
    using n by (simp add: go_slice_def)
  show ?thesis
    unfolding ProcessDataPacket_def unpack_datagram [OF assms(1,2)] assms(3) Option.bind.simps
      sum.case Let_def payload_size_if is_ack_def [symmetric] ack_if_def [symmetric] sl verdict_def
    by (simp add: rx_counted_def map_conv_bind_option o_def cong: if_cong)
qed

section \<open>Receiving keeps the invariant\<close>

text \<open>The send side never touches the receive sequence, and output is only appended.\<close>

definition appends :: "session \<Rightarrow> session \<Rightarrow> bool" where
  "appends s s' \<longleftrightarrow> rxSeqExpected s' = rxSeqExpected s \<and> closed s' = closed s \<and>
     (\<exists>es. outbox s' = outbox s @ es)"

lemma appends_refl [simp]: "appends s s"
  and appends_trans: "appends s t \<Longrightarrow> appends t u \<Longrightarrow> appends s u"
  by (auto simp: appends_def)

lemma appends_timer [simp]:
  "appends s (stopAckTimer t) = appends s t" "appends s (armAckTimer t) = appends s t"
  "appends s (updateAckTimer t) = appends s t" "appends s (t\<lparr>retransmitAttempts := n\<rparr>) = appends s t"
  "appends s (t\<lparr>finPending := b\<rparr>) = appends s t"
  by (simp_all add: appends_def stopAckTimer_def armAckTimer_def updateAckTimer_def Let_def)

lemma handleTransfer_appends:
  assumes "tx_inv s" "fin_ok s" "handleTransfer s = Some s'"
  shows "appends s s'"
proof -
  obtain t ps where "handleTransfer_loop s [] = Some (t, ps)" "same_ctl t s"
    using handleTransfer_loop_inv [OF assms(1,2), of "[]"] by auto
  with assms(3) show ?thesis
    by (auto simp: handleTransfer_def Let_def same_ctl_def) (auto simp: appends_def)
qed

lemma onAck_appends: "appends s (onAck s a)"
proof -
  have "appends s (pruneAcked (s\<lparr>txSeqNrAcked := a\<rparr>) a)" for a
    by (rule pruneAcked_frame [of "s\<lparr>txSeqNrAcked := a\<rparr>" a]) (simp add: appends_def)
  then show ?thesis by (simp add: onAck_def Let_def)
qed

lemma onPeerAck_ok:
  assumes "session_inv s" "uint a < 4096"
  shows "\<exists>s'. onPeerAck s a = Some s' \<and> session_inv s' \<and> appends s s'"
proof -
  obtain s' where s': "onPeerAck s a = Some s'" "session_inv s'"
    using onPeerAck_inv [OF assms] by blast
  moreover have "appends (onAck s a) s'"
    using s'(1) onAck_inv [OF assms] handleTransfer_appends [of "onAck s a" s']
    by (auto simp: onPeerAck_def Let_def session_inv_def split: if_splits)
  ultimately show ?thesis using appends_trans [OF onAck_appends] by blast
qed

lemma onPeerNack_appends:
  assumes "session_inv s" shows "appends s (onPeerNack s a)"
proof -
  have "ring_ok (s\<lparr>retransmitAttempts := 0\<rparr>)"
    using assms by (simp add: session_inv_def tx_inv_def ring_ok_def)
  note r = retransmitFrom_inv(2) [OF this]
  have "appends s (fst (retransmitFrom (s\<lparr>retransmitAttempts := 0\<rparr>) a))"
    unfolding r by (auto simp: appends_def count_resent_def)
  then show ?thesis unfolding onPeerNack_def Let_def by (simp add: case_prod_beta)
qed

lemma ack_if_ok:
  assumes "session_inv s" "wf_DataHeader d"
  shows "\<exists>s'. ack_if d s = Some s' \<and> session_inv s' \<and> appends s s'"
  using onPeerAck_ok [OF assms(1) wf_seqs(2) [OF assms(2)]] assms(1) by (simp add: ack_if_def)

lemma sendACK_ok:
  assumes "session_inv s"
  shows "\<exists>s'. sendACK s ack = Some s' \<and> session_inv s' \<and> rxSeqExpected s' = rxSeqExpected s \<and>
    closed s' = closed s \<and> outbox s' = outbox s @ [WriteTo (ack_packet s ack)]"
proof -
  have inv: "tx_inv s" using assms by (simp add: session_inv_def)
  then have "length (packetBuf s) = 1500" by (simp add: tx_inv_def)
  then show ?thesis
    using sendACK_inv [OF inv, of ack] assms same_core_inv by (auto simp: sendACK_eq)
qed

lemma rx_counted_simps [simp]:
  "session_inv (rx_counted s) = session_inv s" "rxSeqExpected (rx_counted s) = rxSeqExpected s"
  "outbox (rx_counted s) = outbox s" "closed (rx_counted s) = closed s" "txSeqNr (rx_counted s) = txSeqNr s"
  by (simp_all add: rx_counted_def)

lemma appends_counters [simp]: "appends (rx_counted s) = appends s"
  "appends (s\<lparr>peerNACKs := m\<rparr>) = appends s" "appends (s\<lparr>unexpectedSeqNrs := m\<rparr>) = appends s"
  by (rule ext, simp add: appends_def)+

lemma ack_packet_counters [simp]:
  "ack_packet (rx_counted s) = ack_packet s" "ack_packet (s\<lparr>unexpectedSeqNrs := n\<rparr>) = ack_packet s"
  by (rule ext, simp add: ack_packet_def rx_counted_def)+

lemma rx_deliver:
  assumes "session_inv s" "wf_Header hdr" "wf_DataHeader d" "PacketType hdr = PacketData"
    and "0 < payload_size d payload" "verdict (rxSeqExpected s) (SeqNr hdr) \<in> {Deliver, Resync}"
  defines "t \<equiv> (if verdict (rxSeqExpected s) (SeqNr hdr) = Resync then ResetSession s else s)
     \<lparr>rxSeqExpected := (SeqNr hdr + 1) AND 0xFFF\<rparr>"
  shows "\<exists>s' es. ProcessDataPacket s (datagram hdr d payload) =
       Some (s', Inr (Some (take (payload_size d payload) payload))) \<and> session_inv s' \<and>
     rxSeqExpected s' = (SeqNr hdr + 1) AND 0xFFF \<and> closed s' = closed s \<and>
     outbox s' = outbox t @ [WriteTo (ack_packet t True)] @ es"
proof -
  let ?v = "verdict (rxSeqExpected s) (SeqNr hdr)"
  let ?u = "(if ?v = Resync then ResetSession (rx_counted s) else rx_counted s)
     \<lparr>rxSeqExpected := (SeqNr hdr + 1) AND 0xFFF\<rparr>"
  have "session_inv ?u"
    using assms(1) ResetSession_inv [of "rx_counted s"]
    by (auto intro!: session_inv_rx simp: seq_simps)
  from sendACK_ok [OF this, of True] obtain s1 where s1: "sendACK ?u True = Some s1" "session_inv s1"
    "rxSeqExpected s1 = rxSeqExpected ?u" "closed s1 = closed ?u"
    "outbox s1 = outbox ?u @ [WriteTo (ack_packet ?u True)]" by blast
  from ack_if_ok [OF s1(2) assms(3)] obtain s' where s': "ack_if d s1 = Some s'" "session_inv s'"
    "appends s1 s'" by blast
  have u: "outbox ?u = outbox t" "ack_packet ?u True = ack_packet t True" "closed ?u = closed s"
    unfolding t_def by (simp_all add: ack_packet_def rx_counted_def ResetSession_def
      clearTransfer_def stopAckTimer_def Let_def)
  have "ProcessDataPacket s (datagram hdr d payload) =
      Some (s', Inr (Some (take (payload_size d payload) payload)))"
    using assms(5,6) s1(1) s'(1) by (auto simp: ProcessDataPacket_parsed [OF assms(2-4)] Let_def)
  then show ?thesis using s' s1(3-5) u by (auto simp: appends_def)
qed

lemma rx_discard:
  assumes "session_inv s" "wf_Header hdr" "wf_DataHeader d" "PacketType hdr = PacketData"
    and "0 < payload_size d payload" "verdict (rxSeqExpected s) (SeqNr hdr) \<in> {Duplicate, Gap}"
  defines "ack \<equiv> verdict (rxSeqExpected s) (SeqNr hdr) = Duplicate"
  shows "\<exists>s' es. ProcessDataPacket s (datagram hdr d payload) = Some (s', Inr None) \<and> session_inv s' \<and>
     rxSeqExpected s' = rxSeqExpected s \<and> closed s' = closed s \<and>
     outbox s' = outbox s @ [WriteTo (ack_packet s ack)] @ es"
proof -
  let ?u = "(rx_counted s)\<lparr>unexpectedSeqNrs := unexpectedSeqNrs s + 1\<rparr>"
  have uq: "unexpectedSeqNrs (rx_counted s) = unexpectedSeqNrs s" by (simp add: rx_counted_def)
  have "session_inv ?u" using assms(1) by simp
  from sendACK_ok [OF this, of ack] obtain s1 where s1: "sendACK ?u ack = Some s1" "session_inv s1"
    "rxSeqExpected s1 = rxSeqExpected s" "closed s1 = closed s"
    "outbox s1 = outbox s @ [WriteTo (ack_packet s ack)]" by auto
  from ack_if_ok [OF s1(2) assms(3)] obtain s2 where s2: "ack_if d s1 = Some s2" "session_inv s2"
    "appends s1 s2" by blast
  define s' where "s' = (if ack \<and> tr_data (xfer s) \<noteq> None
    then onPeerNack s2 ((txSeqNrAcked s + 1) AND 0xFFF) else s2)"
  have s': "session_inv s'" "appends s1 s'"
    using s2(2,3) onPeerNack_inv onPeerNack_appends appends_trans unfolding s'_def by (auto split: if_split)
  have "xfer (rx_counted s) = xfer s" "txSeqNrAcked (rx_counted s) = txSeqNrAcked s"
    by (simp_all add: rx_counted_def)
  then have "ProcessDataPacket s (datagram hdr d payload) = Some (s', Inr None)"
    using assms(5,6) s1(1) s2(1) unfolding ProcessDataPacket_parsed [OF assms(2-4)] Let_def ack_def s'_def
    by (auto simp: uq)
  then show ?thesis using s' s1(3-5) by (auto simp: appends_def)
qed

lemma rx_control:
  assumes "session_inv s" "wf_Header hdr" "wf_DataHeader d" "PacketType hdr = PacketData"
    and "payload_size d payload = 0"
  shows "\<exists>s'. ProcessDataPacket s (datagram hdr d payload) = Some (s', Inr None) \<and>
    session_inv s' \<and> appends s s'"
proof -
  have inv: "session_inv (rx_counted s)" using assms(1) by simp
  from onPeerAck_ok [OF inv wf_seqs(2) [OF assms(3)]]
  show ?thesis
    using assms(5,1) onPeerNack_inv
      onPeerNack_appends [of "(rx_counted s)\<lparr>peerNACKs := peerNACKs (rx_counted s) + 1\<rparr>" "SeqNrAck d"]
    by (auto simp: ProcessDataPacket_parsed [OF assms(2-4)] Let_def)
qed

lemma rx_wrong_type:
  assumes "wf_Header hdr" "wf_DataHeader d" "PacketType hdr \<noteq> PacketData"
  shows "ProcessDataPacket s (datagram hdr d payload) = Some (s, Inl (InvalidHeader None))"
  using assms(3) unfolding ProcessDataPacket_def unpack_datagram [OF assms(1,2)] by simp

section \<open>The receiver's specification\<close>

text \<open>The payload a datagram carries, with its sequence number; control packets carry none.\<close>

definition rx_event :: "bytes \<Rightarrow> (u16 \<times> bytes) option" where
  "rx_event b =
     (case (UnpackHeader b, UnpackDataHeader (drop 2 b)) of
        (Some (Inr hdr), Some (Inr d)) \<Rightarrow>
          let n = payload_size d (drop 6 b) in
          if PacketType hdr = PacketData \<and> 0 < n then Some (SeqNr hdr, take n (drop 6 b)) else None
      | _ \<Rightarrow> None)"

lemma rx_event_datagram:
  assumes "wf_Header hdr" "wf_DataHeader d"
  shows "rx_event (datagram hdr d payload) =
     (if PacketType hdr = PacketData \<and> 0 < payload_size d payload
      then Some (SeqNr hdr, take (payload_size d payload) payload) else None)"
  using assms base_hdr.unpack_enc [of hdr] data_hdr.unpack_enc [of d]
  by (simp add: rx_event_def datagram_def Let_def)

fun rx_spec :: "u16 \<Rightarrow> (u16 \<times> bytes) list \<Rightarrow> u16 \<times> bytes list" where
  "rx_spec expected [] = (expected, [])"
| "rx_spec expected ((seq, p) # es) =
     (if verdict expected seq \<in> {Deliver, Resync}
      then let (e, ps) = rx_spec ((seq + 1) AND 0xFFF) es in (e, p # ps)
      else rx_spec expected es)"

text \<open>What a session hands to the layer above while it processes a sequence of datagrams.\<close>

fun deliveries :: "session \<Rightarrow> bytes list \<Rightarrow> (session \<times> bytes list) option" where
  "deliveries s [] = Some (s, [])"
| "deliveries s (b # bs) = do {
     (s, r) \<leftarrow> ProcessDataPacket s b;
     (s, ps) \<leftarrow> deliveries s bs;
     Some (s, (case r of Inr (Some p) \<Rightarrow> p # ps | _ \<Rightarrow> ps))
   }"

lemma rx_step:
  assumes "session_inv s" "6 \<le> length b"
  shows "\<exists>s' r. ProcessDataPacket s b = Some (s', r) \<and> session_inv s' \<and>
     (case rx_event b of
        Some (seq, p) \<Rightarrow>
          if verdict (rxSeqExpected s) seq \<in> {Deliver, Resync}
          then rxSeqExpected s' = (seq + 1) AND 0xFFF \<and> r = Inr (Some p)
          else rxSeqExpected s' = rxSeqExpected s \<and> r = Inr None
      | None \<Rightarrow> rxSeqExpected s' = rxSeqExpected s \<and> (\<forall>p. r \<noteq> Inr (Some p)))"
proof -
  obtain hdr d payload where b: "b = datagram hdr d payload" and wf: "wf_Header hdr" "wf_DataHeader d"
    using assms(2) by (rule datagram_cases)
  consider (type) "PacketType hdr \<noteq> PacketData"
    | (ctl) "PacketType hdr = PacketData" "payload_size d payload = 0"
    | (take) "PacketType hdr = PacketData" "0 < payload_size d payload"
        "verdict (rxSeqExpected s) (SeqNr hdr) \<in> {Deliver, Resync}"
    | (drop) "PacketType hdr = PacketData" "0 < payload_size d payload"
        "verdict (rxSeqExpected s) (SeqNr hdr) \<in> {Duplicate, Gap}"
    by (cases "verdict (rxSeqExpected s) (SeqNr hdr)") auto
  then show ?thesis
  proof cases
    case type
    then show ?thesis using assms(1) by (simp add: b rx_wrong_type [OF wf] rx_event_datagram [OF wf])
  next
    case ctl
    then show ?thesis
      using rx_control [OF assms(1) wf ctl] by (auto simp: b rx_event_datagram [OF wf] appends_def)
  next
    case take
    then show ?thesis
      using rx_deliver [OF assms(1) wf take] by (auto simp: b rx_event_datagram [OF wf])
  next
    case drop
    then show ?thesis
      using rx_discard [OF assms(1) wf drop] by (auto simp: b rx_event_datagram [OF wf])
  qed
qed

lemma deliveries_spec:
  assumes "session_inv s" "\<forall>b \<in> set bs. 6 \<le> length b"
  shows "\<exists>s' ps. deliveries s bs = Some (s', ps) \<and> session_inv s' \<and>
    rx_spec (rxSeqExpected s) (List.map_filter rx_event bs) = (rxSeqExpected s', ps)"
  using assms
proof (induction bs arbitrary: s)
  case Nil
  then show ?case by (simp add: map_filter_simps)
next
  case (Cons b bs)
  obtain s1 r where 1: "ProcessDataPacket s b = Some (s1, r)" "session_inv s1"
    and ev: "case rx_event b of
        Some (seq, p) \<Rightarrow>
          if verdict (rxSeqExpected s) seq \<in> {Deliver, Resync}
          then rxSeqExpected s1 = (seq + 1) AND 0xFFF \<and> r = Inr (Some p)
          else rxSeqExpected s1 = rxSeqExpected s \<and> r = Inr None
      | None \<Rightarrow> rxSeqExpected s1 = rxSeqExpected s \<and> (\<forall>p. r \<noteq> Inr (Some p))"
    using rx_step [OF Cons.prems(1), of b] Cons.prems(2) by auto
  obtain s2 ps where 2: "deliveries s1 bs = Some (s2, ps)" "session_inv s2"
    "rx_spec (rxSeqExpected s1) (List.map_filter rx_event bs) = (rxSeqExpected s2, ps)"
    using Cons.IH [OF 1(2)] Cons.prems(2) by auto
  show ?case
  proof (cases "rx_event b")
    case None
    then have "(case r of Inr (Some p) \<Rightarrow> p # ps | _ \<Rightarrow> ps) = ps"
      using ev by (auto split: sum.split option.split)
    then show ?thesis using None ev 1 2 by (simp add: map_filter_simps)
  next
    case (Some e)
    then show ?thesis using ev 1 2
      by (cases e) (auto simp: map_filter_simps split: if_splits)
  qed
qed

section \<open>The state machine\<close>

text \<open>
  The operations the server and the handlers call, and the timer callback, which may run at any
  time. \<open>wf_op\<close> is what their call sites guarantee: replies fit a packet, headers are short, and
  datagrams of fewer than six bytes are dropped before \<^verbatim>\<open>ProcessDataPacket\<close>.
\<close>

datatype session_op = OpSendData "bytes option" | OpSendRaw bytes "bytes option" | OpSendACK bool
  | OpPacket bytes | OpTimeout | OpReset | OpSetReset | OpClose

fun run_op :: "session_op \<Rightarrow> session \<Rightarrow> session option" where
  "run_op (OpSendData payload) s = SendData s payload"
| "run_op (OpSendRaw header dat) s = SendRawDataWithHeader s header dat"
| "run_op (OpSendACK ack) s = SendACK s ack"
| "run_op (OpPacket b) s = map_option fst (ProcessDataPacket s b)"
| "run_op OpTimeout s = Some (ackTimerFunc s)"
| "run_op OpReset s = Some (ResetSession s)"
| "run_op OpSetReset s = Some (SetResetCallback s)"
| "run_op OpClose s = Some (Session_Close s)"

fun wf_op :: "session_op \<Rightarrow> bool" where
  "wf_op (OpSendData payload) = ((case payload of None \<Rightarrow> 0 | Some p \<Rightarrow> length p) \<le> 1492)"
| "wf_op (OpSendRaw header dat) = (length header < MaxDataPayload)"
| "wf_op (OpPacket b) = (6 \<le> length b)"
| "wf_op _ = True"

inductive session_step :: "session \<Rightarrow> session_op \<Rightarrow> session \<Rightarrow> bool" where
  step: "wf_op op \<Longrightarrow> run_op op s = Some s' \<Longrightarrow> session_step s op s'"

inductive reachable :: "session \<Rightarrow> bool" where
  init: "reachable NewSession"
| next_state: "reachable s \<Longrightarrow> session_step s op s' \<Longrightarrow> reachable s'"

inductive_cases session_stepE: "session_step s op s'"

inductive_simps session_step_iff: "session_step s op s'"

lemma run_op_ok:
  assumes "session_inv s" "wf_op op"
  shows "\<exists>s'. run_op op s = Some s' \<and> session_inv s'"
proof (cases op)
  case (OpSendData payload)
  then show ?thesis using SendData_inv [OF assms(1)] assms(2) by simp
next
  case (OpSendRaw header dat)
  then show ?thesis using SendRawDataWithHeader_inv [OF assms(1)] assms(2) by simp
next
  case (OpSendACK ack)
  then show ?thesis using sendACK_ok [OF assms(1)] by (cases ack) (auto simp: SendACK_def)
next
  case (OpPacket b)
  then show ?thesis using rx_step [OF assms(1), of b] assms(2) by auto
next
  case OpTimeout
  then show ?thesis using ackTimerFunc_inv [OF assms(1)] by simp
next
  case OpReset
  then show ?thesis using ResetSession_inv [OF assms(1)] by simp
next
  case OpSetReset
  then show ?thesis using assms(1) by (simp add: SetResetCallback_def)
next
  case OpClose
  then show ?thesis using Session_Close_inv [OF assms(1)] by simp
qed

lemma reachable_inv: "reachable s \<Longrightarrow> session_inv s"
proof (induction rule: reachable.induct)
  case init
  show ?case by (rule NewSession_inv)
next
  case (next_state s op s')
  then show ?case using run_op_ok [of s op] by (auto elim!: session_stepE)
qed

text \<open>
  C6: A session never panics. In every state that the exported operations and the timer callback can
  reach from \<^verbatim>\<open>NewSession\<close>, each further call with the arguments its call sites guarantee returns:
  the explicit panic on a full ring is unreachable, and so is a slice beyond a packet's capacity
  or a negative offset in the transfer loop.
\<close>

theorem session_never_panics:
  assumes "reachable s" "wf_op op"
  shows "\<exists>s'. run_op op s = Some s' \<and> reachable s'"
  using run_op_ok [OF reachable_inv [OF assms(1)] assms(2)] assms
  by (auto intro: reachable.next_state session_step.step)

theorem session_never_panics_witness:
  "\<exists>s'. run_op (OpSendRaw [1, 2, 3, 4] (Some (replicate 3000 7))) NewSession = Some s' \<and> reachable s'"
  by (rule session_never_panics [OF reachable.init]) simp

end
