(* ===== verification/RdmaDelivery.thy ===== *)
theory RdmaDelivery
  imports RdmaSteps "HOL-Library.Sublist"
begin

text \<open>
  Reliability. Which buffered packets a NACK or a timeout sends again and when the sender gives
  up; that the packets of a transfer carry the caller's bytes in order, with FIN on the last; and
  that a receiver hands them up exactly once and in order.
\<close>

section \<open>Retransmission\<close>

text \<open>The distance of a sequence number from the next one to be sent.\<close>

definition seq_age :: "session \<Rightarrow> u16 \<Rightarrow> int" where
  "seq_age s q = (uint (txSeqNr s) - uint q) mod 4096"

lemma resend_test:
  assumes "seqs_ok s" "j < ring_count s"
  shows "uint ((tx_seq (ring_entries s ! j) - q) AND 0xFFF) =
     (seq_age s q - (int (ring_count s) - int j)) mod 4096"
proof -
  have "uint ((tx_seq (ring_entries s ! j) - q) AND 0xFFF) =
      (uint (tx_seq (ring_entries s ! j)) - uint q) mod 4096"
    by (simp add: seq_simps mod_simps)
  also have "\<dots> = (uint (txSeqNr s) - uint q - (int (ring_count s) - int j)) mod 4096"
    using assms by (simp add: seqs_ok_def mod_simps algebra_simps)
  also have "\<dots> = (seq_age s q - (int (ring_count s) - int j)) mod 4096"
    by (simp add: seq_age_def mod_simps)
  finally show ?thesis .
qed

lemma resend_all:
  assumes "seqs_ok s" "int (ring_count s) \<le> seq_age s q" "seq_age s q \<le> 2048"
  shows "resend s q = map tx_data (ring_entries s)"
proof -
  have "(tx_seq p - q) AND 0xFFF < 2048" if p: "p \<in> set (ring_entries s)" for p
  proof -
    obtain j where j: "j < ring_count s" "p = ring_entries s ! j"
      using p by (auto simp: in_set_conv_nth)
    have "(seq_age s q - (int (ring_count s) - int j)) mod 4096 = seq_age s q - (int (ring_count s) - int j)"
      using assms(2,3) j(1) by (intro mod_pos_pos_trivial) simp_all
    with resend_test [OF assms(1) j(1), of q] show ?thesis
      using assms(3) j by (simp add: word_less_def)
  qed
  then have "takeWhile (\<lambda>p. (tx_seq p - q) AND 0xFFF < 2048) (ring_entries s) = ring_entries s"
    by (simp add: takeWhile_eq_all_conv)
  then show ?thesis by (simp only: resend_def)
qed

lemma resend_none:
  assumes "seqs_ok s" "ring_count s \<le> 9" "seq_age s q < int (ring_count s)"
  shows "resend s q = []"
proof -
  have k: "0 < ring_count s" using assms(3) by (simp add: seq_age_def)
  have "0 \<le> seq_age s q" by (simp add: seq_age_def)
  then have "(seq_age s q - int (ring_count s) + 4096) mod 4096 = seq_age s q - int (ring_count s) + 4096"
    using assms(2,3) by (intro mod_pos_pos_trivial) simp_all
  then have "(seq_age s q - int (ring_count s)) mod 4096 = seq_age s q - int (ring_count s) + 4096"
    by simp
  with resend_test [OF assms(1) k, of q] \<open>0 \<le> seq_age s q\<close> assms(2)
  have "\<not> (tx_seq (ring_entries s ! 0) - q) AND 0xFFF < 2048" by (simp add: word_less_def)
  moreover obtain p ps where "ring_entries s = p # ps"
    using k by (metis length_ring_entries length_greater_0_conv neq_Nil_conv)
  ultimately show ?thesis by (simp add: resend_def)
qed

lemma wire_append [simp]: "wire (es @ fs) = wire es @ wire fs"
  by (induction es rule: wire.induct) simp_all

lemma onPeerNack_wire:
  assumes "ring_ok s"
  shows "wire (outbox (onPeerNack s q)) = wire (outbox s) @ resend s q"
proof -
  have r: "ring_ok (s\<lparr>retransmitAttempts := 0\<rparr>)" "resend (s\<lparr>retransmitAttempts := 0\<rparr>) q = resend s q"
    using assms by (simp_all add: ring_ok_def resend_def ring_entries_def ring_count_def)
  have "outbox (updateAckTimer t) = outbox t" for t
    by (simp add: updateAckTimer_def stopAckTimer_def armAckTimer_def Let_def)
  then show ?thesis
    using retransmitFrom_inv(2) [OF r(1), of q] r(2)
    unfolding onPeerNack_def Let_def by (simp add: case_prod_beta)
qed

lemma resend_cong:
  "txBuffer s = txBuffer t \<Longrightarrow> txReadIndex s = txReadIndex t \<Longrightarrow> txWriteIndex s = txWriteIndex t \<Longrightarrow>
   resend s q = resend t q"
  by (simp add: resend_def ring_entries_def ring_count_def)

text \<open>One timeout of a waiting session, in full.\<close>

lemma timeout_step:
  assumes inv: "session_inv s" and "\<not> closed s" "waiting s"
  defines "q \<equiv> (txSeqNrAcked s + 1) AND 0xFFF" and "s' \<equiv> ackTimerFunc s"
  shows "session_inv s'" "\<not> closed s'" "txSeqNrAcked s' = txSeqNrAcked s"
    "resend s' q' = resend s q'" "wire (outbox s') = wire (outbox s) @ resend s q"
    "if retransmitAttempts s + 1 < MaxRetransmits
     then waiting s' \<and> retransmitAttempts s' = retransmitAttempts s + 1
     else \<not> waiting s' \<and> ackTimer s' = None \<and> \<not> finPending s' \<and> tr_data (xfer s') = None \<and>
       retransmitAttempts s' = 0"
proof -
  let ?s = "s\<lparr>ackWaitMode := ackWaitNone, retransmitAttempts := retransmitAttempts s + 1\<rparr>"
  let ?b = "if resend s q = [] then outbox s else outbox s @ [WriteBatch (resend s q)]"
  define t where "t = (count_resent (length (resend s q)) ?s)\<lparr>outbox := ?b\<rparr>"
  have "ring_ok ?s" using inv by (simp add: session_inv_def tx_inv_def ring_ok_def)
  moreover have "resend ?s q = resend s q" by (rule resend_cong) simp_all
  ultimately have r: "fst (retransmitFrom ?s q) = t"
    using retransmitFrom_inv(2) [of ?s q] by (simp add: t_def)
  have t: "retransmitAttempts t = retransmitAttempts s + 1" by (simp add: t_def count_resent_def)
  have mode: "ackWaitMode s \<noteq> ackWaitNone" "ackTimerExpectSeq s = ackTimerSeq s"
    using inv assms(2,3) by (auto simp: session_inv_def mode_ok_def timer_ok_def)
  have w: "finPending s \<or> tr_data (xfer s) \<noteq> None \<and> SendWindow \<le> InFlight s" "0 < InFlight s"
    using assms(3) by (auto simp: waiting_def)
  have fin: "finPending s \<Longrightarrow> tr_data (xfer s) = None"
    using inv by (simp add: session_inv_def fin_ok_def)
  have s': "s' = (if retransmitAttempts t < MaxRetransmits then armAckTimer t
     else (stopAckTimer (if finPending s then t\<lparr>finPending := False\<rparr> else clearTransfer t))
       \<lparr>retransmitAttempts := 0\<rparr>)"
    using w(1) assms(2) mode r
    by (auto simp: s'_def ackTimerFunc_def handleAckTimeout_def Let_def case_prod_beta q_def)
  show "session_inv s'" unfolding s'_def by (rule ackTimerFunc_inv [OF inv])
  have tf: "closed t = closed s" "txSeqNrAcked t = txSeqNrAcked s" "txBuffer t = txBuffer s"
    "txReadIndex t = txReadIndex s" "txWriteIndex t = txWriteIndex s" "finPending t = finPending s"
    "xfer t = xfer s" "outbox t = ?b" "InFlight t = InFlight s"
    by (simp_all add: t_def count_resent_def InFlight_def)
  show "\<not> closed s'" "txSeqNrAcked s' = txSeqNrAcked s"
    using assms(2) tf unfolding s' by (auto simp: armAckTimer_def stopAckTimer_def clearTransfer_def Let_def)
  show "resend s' q' = resend s q'"
    by (rule resend_cong)
      (auto simp: s' tf armAckTimer_def stopAckTimer_def clearTransfer_def Let_def)
  have "outbox s' = ?b"
    using tf(8) unfolding s' by (auto simp: armAckTimer_def stopAckTimer_def clearTransfer_def Let_def)
  then show "wire (outbox s') = wire (outbox s) @ resend s q" by simp
  show "if retransmitAttempts s + 1 < MaxRetransmits
     then waiting s' \<and> retransmitAttempts s' = retransmitAttempts s + 1
     else \<not> waiting s' \<and> ackTimer s' = None \<and> \<not> finPending s' \<and> tr_data (xfer s') = None \<and>
       retransmitAttempts s' = 0"
  proof (cases "retransmitAttempts s + 1 < MaxRetransmits")
    case True
    then have "s' = armAckTimer t" using t by (simp add: s')
    moreover have "waiting t" using assms(3) tf by (simp add: waiting_def)
    moreover have "retransmitAttempts (armAckTimer t) = retransmitAttempts t"
      by (simp add: armAckTimer_def Let_def)
    ultimately show ?thesis using True t by simp
  next
    case False
    then have "s' = (stopAckTimer (if finPending s then t\<lparr>finPending := False\<rparr> else clearTransfer t))
       \<lparr>retransmitAttempts := 0\<rparr>" using t by (simp add: s')
    then show ?thesis
      using False fin tf by (auto simp: stopAckTimer_def clearTransfer_def waiting_def)
  qed
qed

lemma timeouts:
  assumes "session_inv s" "\<not> closed s" "waiting s" "n + retransmitAttempts s = MaxRetransmits"
  defines "s' \<equiv> (ackTimerFunc ^^ n) s" and "q \<equiv> (txSeqNrAcked s + 1) AND 0xFFF"
  shows "\<not> waiting s' \<and> ackTimer s' = None \<and> \<not> finPending s' \<and> tr_data (xfer s') = None \<and>
    wire (outbox s') = wire (outbox s) @ concat (replicate n (resend s q))"
  using assms(1-4) unfolding s'_def q_def
proof (induction n arbitrary: s)
  case 0
  then show ?case by (simp add: session_inv_def fin_ok_def)
next
  case (Suc n)
  note st = timeout_step [OF Suc.prems(1-3)]
  show ?case
  proof (cases "n = 0")
    case True
    then show ?thesis using st(5,6) Suc.prems(4) by simp
  next
    case False
    then have "waiting (ackTimerFunc s)" "retransmitAttempts (ackTimerFunc s) = retransmitAttempts s + 1"
      using st(6) Suc.prems(4) by simp_all
    then have "let s' = (ackTimerFunc ^^ n) (ackTimerFunc s) in
      \<not> waiting s' \<and> ackTimer s' = None \<and> \<not> finPending s' \<and> tr_data (xfer s') = None \<and>
      wire (outbox s') = wire (outbox (ackTimerFunc s)) @
        concat (replicate n (resend (ackTimerFunc s) ((txSeqNrAcked (ackTimerFunc s) + 1) AND 0xFFF)))"
      using Suc.IH [OF st(1,2)] Suc.prems(4) by (simp add: Let_def)
    then show ?thesis by (simp add: Let_def funpow_Suc_right st(3,4,5) del: funpow.simps)
  qed
qed

section \<open>The packets of a transfer\<close>

lemma and_mask_small:
  "uint w < 4096 \<Longrightarrow> (w :: u16) AND 0xFFF = w"
  "n \<le> 15 \<Longrightarrow> (of_nat n :: u8) AND 0xF = of_nat n"
  "n < 16384 \<Longrightarrow> (of_nat n :: u16) AND 0x3FFF = of_nat n"
proof -
  show "uint w < 4096 \<Longrightarrow> (w :: u16) AND 0xFFF = w"
    by (simp add: word_uint_eq_iff uint_and_fff)
  show "n \<le> 15 \<Longrightarrow> (of_nat n :: u8) AND 0xF = of_nat n"
    unfolding mask_takes by (simp add: take_bit_eq_mod word_unat_eq_iff unat_mod unat_of_nat)
  show "n < 16384 \<Longrightarrow> (of_nat n :: u16) AND 0x3FFF = of_nat n"
    unfolding mask_takes by (simp add: take_bit_eq_mod word_unat_eq_iff unat_mod unat_of_nat)
qed

text \<open>
  What a receiver reads from a packet of \<open>packDataPacket\<close>. The application header must be a
  multiple of four and at most 60 bytes long, because the wire format counts it in words and in
  four bits.
\<close>

definition packet_body :: "bytes \<Rightarrow> bytes \<Rightarrow> bytes" where
  "packet_body header chunk = header @ chunk @ replicate (padded_len (length chunk) - length chunk) 0"

lemma drop_data_packet [simp]: "drop 6 (data_packet s header chunk fin) = packet_body header chunk"
  by (simp add: data_packet_def packet_body_def)

lemma rx_event_data_packet:
  assumes "uint (txSeqNr s) < 4096" "4 dvd length header" "length header \<le> 60"
    and "padded_len (length chunk) < 16384" "header @ chunk \<noteq> []"
  shows "rx_event (data_packet s header chunk fin) = Some (txSeqNr s, packet_body header chunk)"
proof -
  let ?h = "\<lparr>PacketType = PacketData, SeqNr = txSeqNr s\<rparr> :: Header"
  let ?d = "\<lparr>SeqNrAck = (rxSeqExpected s - 1) AND 0xFFF,
        Flags = (if fin then DataFlagACK OR DataFlagFIN else DataFlagACK),
        HdrWordCount = of_nat (length header div 4),
        DataByteCount = of_nat (padded_len (length chunk))\<rparr> :: DataHeader"
  have wf: "wf_Header ?h" "wf_DataHeader ?d"
    using assms by (simp_all add: wf_Header_def wf_DataHeader_def and_mask_small and.assoc)
  have "length header div 4 < 256" using assms(3) by simp
  then have "unat (HdrWordCount ?d) = length header div 4"
    "unat (DataByteCount ?d) = padded_len (length chunk)"
    using assms(4) by (simp_all add: unat_of_nat)
  moreover have "length header div 4 * 4 = length header" using assms(2) by presburger
  ultimately have "payload_size ?d (packet_body header chunk) = length (packet_body header chunk)"
    by (simp add: payload_size_def packet_body_def)
  moreover have "packet_body header chunk \<noteq> []" using assms(5) by (auto simp: packet_body_def)
  moreover have "data_packet s header chunk fin = datagram ?h ?d (packet_body header chunk)"
    by (simp add: data_packet_def datagram_def packet_body_def)
  ultimately show ?thesis using rx_event_datagram [OF wf, of "packet_body header chunk"]
    unfolding length_greater_0_conv [symmetric] by (simp only: simp_thms if_True Header.simps take_all order.refl)
qed

text \<open>The bytes a transfer has still to send, padded as its last packet will be.\<close>

definition to_send :: "transfer \<Rightarrow> bytes" where
  "to_send t = (case tr_data t of None \<Rightarrow> [] | Some dat \<Rightarrow>
     (if tr_offset t = 0 then tr_header t else []) @ drop (nat (tr_offset t)) dat @
     replicate (padded_len (length dat) - length dat) 0)"

definition aligned :: "transfer \<Rightarrow> bool" where
  "aligned t \<longleftrightarrow> (\<forall>dat. tr_data t = Some dat \<longrightarrow>
     0 \<le> tr_offset t \<and> 4 dvd tr_offset t \<and> (tr_offset t = 0 \<or> tr_offset t < int (length dat)) \<and>
     (dat \<noteq> [] \<longrightarrow> 0 < tr_maxChunk t) \<and>
     (4 dvd tr_maxChunk t \<or> length dat \<le> tr_maxChunk t \<and> tr_header t = []) \<and>
     4 dvd length (tr_header t) \<and> length (tr_header t) \<le> 60)"

lemma padded_len_pos [simp]: "0 < padded_len n \<longleftrightarrow> 0 < n"
  unfolding padded_len_def by presburger

lemma padded_len_mult: "4 dvd n \<Longrightarrow> padded_len n = n" and
  padded_len_add: "4 dvd n \<Longrightarrow> padded_len (n + m) = n + padded_len m"
  unfolding padded_len_def by presburger+

lemma packet_body_aligned: "4 dvd length chunk \<Longrightarrow> packet_body header chunk = header @ chunk"
  by (simp add: packet_body_def padded_len_mult)

lemma packet_body_suffix:
  assumes "off \<le> length dat" "4 dvd off"
  shows "packet_body header (drop off dat) =
     header @ drop off dat @ replicate (padded_len (length dat) - length dat) 0"
  using padded_len_add [of off "length dat - off"] assms by (simp add: packet_body_def)

text \<open>Each packet takes its bytes off the front of what is to be sent, and FIN marks the last.\<close>

lemma next_chunk_stream:
  assumes al: "aligned t" and ok: "xfer_ok t" and dat: "tr_data t = Some dat"
  shows "case next_chunk t dat of
     None \<Rightarrow> to_send t = []
   | Some (header, chunk, fin, t') \<Rightarrow>
       to_send t = packet_body header chunk @ to_send t' \<and> aligned t' \<and>
       (fin \<longleftrightarrow> tr_data t' = None) \<and> (tr_data t' \<noteq> None \<longrightarrow> to_send t' \<noteq> []) \<and> header @ chunk \<noteq> [] \<and>
       4 dvd length header \<and> length header \<le> 60"
proof -
  define off where "off = nat (tr_offset t)"
  have o: "tr_offset t = int off" "4 dvd int off" "off = 0 \<or> off < length dat"
    using al dat by (auto simp: aligned_def off_def)
  from o(2) have "4 dvd off" by presburger
  note off = o(1) this o(3)
  have al': "dat \<noteq> [] \<Longrightarrow> 0 < tr_maxChunk t"
    "4 dvd tr_maxChunk t \<or> length dat \<le> tr_maxChunk t \<and> tr_header t = []"
    "4 dvd length (tr_header t)" "length (tr_header t) \<le> 60"
    using al dat by (auto simp: aligned_def)
  let ?done = "t\<lparr>tr_header := [], tr_data := None, tr_offset := - 1\<rparr>"
  let ?pad = "replicate (padded_len (length dat) - length dat) (0 :: u8)"
  show ?thesis
  proof (cases "off = 0 \<and> tr_header t \<noteq> []")
    case True
    define c where "c = min (length dat) (min (tr_maxChunk t) (1408 - length (tr_header t)))"
    have n: "next_chunk t dat = Some (tr_header t, take c dat, length dat \<le> c,
        if length dat \<le> c then ?done else t\<lparr>tr_offset := int c\<rparr>)"
      using True off(1) al'(4) by (simp add: next_chunk_def Let_def c_def [symmetric])
    have ts: "to_send t = tr_header t @ dat @ ?pad" using True off dat by (simp add: to_send_def)
    show ?thesis
    proof (cases "length dat \<le> c")
      case fin: True
      then show ?thesis
        using True al'(3,4) packet_body_suffix [of 0 dat] dat
        unfolding n ts by (simp add: to_send_def aligned_def)
    next
      case more: False
      then have c0: "dat \<noteq> []" by auto
      have m: "4 dvd tr_maxChunk t" "0 < tr_maxChunk t" using al'(1,2) True more c0 by auto
      have h: "4 dvd 1408 - length (tr_header t)" using al'(3,4) by presburger
      have "c = min (tr_maxChunk t) (1408 - length (tr_header t))" using more unfolding c_def by linarith
      then have c: "c < length dat" "0 < c" "4 dvd c"
        using more m h al'(4) by (simp_all add: min_def)
      moreover from c(3) have "4 dvd int c" by presburger
      ultimately show ?thesis
        using True al'(3,4) m dat more
        unfolding n ts by (simp add: to_send_def aligned_def packet_body_aligned)
    qed
  next
    case no_hdr: False
    show ?thesis
    proof (cases "length dat \<le> off")
      case True
      then have "off = 0" "dat = []" using off(3) by auto
      then show ?thesis
        using no_hdr off(1) dat by (simp add: next_chunk_def Let_def to_send_def padded_len_mult)
    next
      case False
      define c where "c = min (length dat - off) (tr_maxChunk t)"
      have n: "next_chunk t dat = Some ([], take c (drop off dat), length dat \<le> off + c,
          if length dat \<le> off + c then ?done else t\<lparr>tr_offset := int (off + c)\<rparr>)"
        using no_hdr False off(1) by (auto simp: next_chunk_def Let_def c_def)
      have ts: "to_send t = drop off dat @ ?pad" using no_hdr off dat by (auto simp: to_send_def)
      have "dat \<noteq> []" using False by auto
      then have c: "0 < c" using False al'(1) by (simp add: c_def)
      show ?thesis
      proof (cases "length dat \<le> off + c")
        case fin: True
        then show ?thesis
          using False c packet_body_suffix [of off dat] off(2) dat
          unfolding n ts by (auto simp: to_send_def aligned_def)
      next
        case more: False
        then have m: "4 dvd c" "c = tr_maxChunk t" using al'(2) by (auto simp: c_def min_def split: if_splits)
        with off(2) have int_off: "4 dvd int (off + tr_maxChunk t)" by presburger
        note m
        moreover have "drop off dat = take c (drop off dat) @ drop (off + c) dat"
          by (metis append_take_drop_id drop_drop add.commute)
        ultimately show ?thesis
          using False more c al'(2-4) dat int_off
          unfolding n ts by (simp add: to_send_def aligned_def packet_body_aligned nat_add_distrib)
      qed
    qed
  qed
qed

text \<open>Payloads numbered the way the sender numbers its packets.\<close>

fun stamp :: "u16 \<Rightarrow> bytes list \<Rightarrow> (u16 \<times> bytes) list" where
  "stamp q [] = []"
| "stamp q (p # ps) = (q, p) # stamp ((q + 1) AND 0xFFF) ps"

text \<open>
  What one run of the transfer loop puts on the wire: a batch of parseable DATA packets, numbered
  from \<^verbatim>\<open>txSeqNr\<close>, whose bodies are the front of what was to be sent. It is empty only when the
  window is closed or nothing was to be sent.
\<close>

definition batch_ok :: "session \<Rightarrow> bytes list \<Rightarrow> session \<Rightarrow> bool" where
  "batch_ok s ps s' \<longleftrightarrow>
     to_send (xfer s) = concat (map (drop 6) ps) @ to_send (xfer s') \<and> aligned (xfer s') \<and>
     List.map_filter rx_event ps = stamp (txSeqNr s) (map (drop 6) ps) \<and>
     (\<forall>p \<in> set ps. 6 < length p) \<and>
     txSeqNr s' = fold (\<lambda>_ q. (q + 1) AND 0xFFF) ps (txSeqNr s) \<and>
     (ps = [] \<longrightarrow> SendWindow \<le> InFlight s \<or> to_send (xfer s) = [] \<and> tr_data (xfer s') = None) \<and>
     (tr_data (xfer s) = None \<longrightarrow> tr_data (xfer s') = None) \<and>
     ((ps \<noteq> [] \<or> to_send (xfer s) \<noteq> []) \<and> tr_data (xfer s') \<noteq> None \<longrightarrow> to_send (xfer s') \<noteq> []) \<and>
     (txReadIndex s \<noteq> txWriteIndex s \<or> ps \<noteq> [] \<longrightarrow> txReadIndex s' \<noteq> txWriteIndex s')"

lemma handleTransfer_loop_stream:
  assumes "tx_inv s" "aligned (xfer s)" "handleTransfer_loop s batch = Some (s', batch')"
  shows "\<exists>ps. batch' = batch @ ps \<and> batch_ok s ps s'"
  using assms
proof (induction s batch rule: handleTransfer_loop.induct)
  case (1 s batch)
  show ?case
  proof (cases "tr_data (xfer s) \<noteq> None \<and> InFlight s < SendWindow")
    case False
    then have "s' = s" "batch' = batch"
      using 1(4) by (subst (asm) handleTransfer_loop.simps, auto split: option.splits)+
    then show ?thesis
      using False 1(3) by (auto simp: batch_ok_def map_filter_simps to_send_def)
  next
    case True
    then obtain dat where d: "tr_data (xfer s) = Some dat" and w: "InFlight s < SendWindow" by auto
    have ok: "xfer_ok (xfer s)" and seq: "uint (txSeqNr s) < 4096" using 1(2) by (auto simp: tx_inv_def)
    note stream = next_chunk_stream [OF 1(3) ok d]
    from handleTransfer_body_inv [OF 1(2) w d] show ?thesis
    proof
      assume "\<exists>s'. handleTransfer_body s dat = Break s' \<and> s' = clearTransfer s"
      then have b: "handleTransfer_body s dat = Break (clearTransfer s)" by blast
      then have "s' = clearTransfer s" "batch' = batch"
        using 1(4) d w by (subst (asm) handleTransfer_loop.simps, simp)+
      moreover have "0 \<le> tr_offset (xfer s)" using 1(3) d by (simp add: aligned_def)
      then have "next_chunk (xfer s) dat = None"
        using b by (auto simp: handleTransfer_body_eq split: option.splits)
      ultimately show ?thesis using stream
        by (simp add: batch_ok_def map_filter_simps clearTransfer_def aligned_def to_send_def)
    next
      assume "\<exists>header chunk fin t. next_chunk (xfer s) dat = Some (header, chunk, fin, t) \<and>
        (let pkt = data_packet s header chunk fin; s' = (pushPacket s pkt fin)\<lparr>xfer := t\<rparr>
         in handleTransfer_body s dat = Continue s' pkt \<and> tx_inv s')"
      then obtain header chunk fin t where n: "next_chunk (xfer s) dat = Some (header, chunk, fin, t)"
        and "let pkt = data_packet s header chunk fin; s' = (pushPacket s pkt fin)\<lparr>xfer := t\<rparr>
         in handleTransfer_body s dat = Continue s' pkt \<and> tx_inv s'" by blast
      then obtain pkt s1 where pkt: "pkt = data_packet s header chunk fin"
        and s1: "s1 = (pushPacket s pkt fin)\<lparr>xfer := t\<rparr>"
        and b: "handleTransfer_body s dat = Continue s1 pkt" and inv: "tx_inv s1" by (simp add: Let_def)
      have st: "to_send (xfer s) = packet_body header chunk @ to_send t" "aligned t" "header @ chunk \<noteq> []"
        "4 dvd length header" "length header \<le> 60" "tr_data t \<noteq> None \<longrightarrow> to_send t \<noteq> []"
        using stream n by simp_all
      have l: "handleTransfer_loop s1 (batch @ [pkt]) = Some (s', batch')"
        using 1(4) d w b by (subst (asm) handleTransfer_loop.simps) simp
      have x1: "xfer s1 = t" "txSeqNr s1 = (txSeqNr s + 1) AND 0xFFF"
        by (simp_all add: s1 pushPacket_def)
      obtain ps where ps: "batch' = (batch @ [pkt]) @ ps" "batch_ok s1 ps s'"
        using 1(1) [OF d w b inv] st(2) x1 l by auto
      have "length header + padded_len (length chunk) + 6 \<le> packetCap"
        by (rule next_chunk_fits(1) [OF ok d n])
      then have ev: "rx_event pkt = Some (txSeqNr s, drop 6 pkt)" and len: "6 < length pkt"
        using rx_event_data_packet [OF seq st(4,5) _ st(3)] st(3)
        by (auto simp: pkt length_data_packet)
      have "ring_ok s" "ring_count s < 2047" using 1(2) by (simp_all add: tx_inv_def)
      from pushPacket_ring(2,3) [OF this] have "txReadIndex s1 \<noteq> txWriteIndex s1"
        by (auto simp: s1 simp flip: ring_count_0_iff)
      then have "batch_ok s (pkt # ps) s'"
        using ps(2) st(1,6) ev len x1 d unfolding batch_ok_def
        by (auto simp: map_filter_simps pkt)
      then show ?thesis using ps(1) by auto
    qed
  qed
qed

lemma handleTransfer_stream:
  assumes "tx_inv s" "fin_ok s" "aligned (xfer s)" "handleTransfer s = Some s'"
  shows "\<exists>ps. wire (outbox s') = wire (outbox s) @ ps \<and> batch_ok s ps s'"
proof -
  obtain t ps where l: "handleTransfer_loop s [] = Some (t, ps)" "same_ctl t s"
    using handleTransfer_loop_inv [OF assms(1,2), of "[]"] by auto
  obtain ps' where "batch_ok s ps' t" "ps' = ps"
    using handleTransfer_loop_stream [OF assms(1,3) l(1)] by auto
  moreover have u: "xfer (updateAckTimer v) = xfer v" "txSeqNr (updateAckTimer v) = txSeqNr v"
    "txReadIndex (updateAckTimer v) = txReadIndex v" "txWriteIndex (updateAckTimer v) = txWriteIndex v"
    "outbox (updateAckTimer v) = outbox v" for v
    by (simp_all add: updateAckTimer_def stopAckTimer_def armAckTimer_def Let_def)
  moreover have "s' = updateAckTimer (if 0 < length ps then t\<lparr>outbox := outbox t @ [WriteBatch ps]\<rparr> else t)"
    using assms(4) l(1) by (simp add: handleTransfer_def Let_def)
  ultimately show ?thesis
    using l(2) by (intro exI [of _ ps]) (auto simp: batch_ok_def same_ctl_def)
qed

lemma rx_spec_stamp:
  "rx_spec q (stamp q ps) = (fold (\<lambda>_ q. (q + 1) AND 0xFFF) ps q, ps)"
  by (induction ps arbitrary: q) (simp_all add: verdict_def)

lemma fold_map_const: "fold (\<lambda>_ q. f q) (map g xs) a = fold (\<lambda>_ q. f q) xs a"
  by (induction xs arbitrary: a) simp_all

lemma batch_delivered:
  assumes "batch_ok s ps s'" "session_inv r" "rxSeqExpected r = txSeqNr s"
  shows "\<exists>r'. deliveries r ps = Some (r', map (drop 6) ps) \<and> session_inv r' \<and>
    rxSeqExpected r' = txSeqNr s'"
proof -
  have "\<forall>p \<in> set ps. 6 \<le> length p" using assms(1) by (auto simp: batch_ok_def less_imp_le)
  from deliveries_spec [OF assms(2) this] obtain r' out where
    r': "deliveries r ps = Some (r', out)" "session_inv r'"
    "rx_spec (rxSeqExpected r) (List.map_filter rx_event ps) = (rxSeqExpected r', out)" by blast
  then show ?thesis
    using assms(1,3) by (auto simp: batch_ok_def rx_spec_stamp fold_map_const)
qed

section \<open>A whole transfer over a loss-free network\<close>

text \<open>
  The packets on the wire reach the receiver, its cumulative ACK returns to the sender, which sends
  on; the exchange ends when an ACK brings no more packets.
\<close>

fun exchange :: "nat \<Rightarrow> session \<Rightarrow> session \<Rightarrow> bytes list \<Rightarrow> bytes list \<Rightarrow>
    (session \<times> session \<times> bytes list) option" where
  "exchange 0 s r ps got = None"
| "exchange (Suc n) s r ps got = do {
     (r, out) \<leftarrow> deliveries r ps;
     s' \<leftarrow> onPeerAck s ((rxSeqExpected r - 1) AND 0xFFF);
     let new = drop (length (wire (outbox s))) (wire (outbox s'));
     if new = [] then Some (s', r, got @ out) else exchange n s' r new (got @ out)
   }"

lemma onAck_last:
  assumes inv: "session_inv s" and ne: "txReadIndex s \<noteq> txWriteIndex s"
  defines "a \<equiv> (txSeqNr s - 1) AND 0xFFF"
  shows "session_inv (onAck s a)" "InFlight (onAck s a) = 0" "xfer (onAck s a) = xfer s"
    "txSeqNr (onAck s a) = txSeqNr s" "outbox (onAck s a) = outbox s" "\<not> finPending (onAck s a)"
proof -
  obtain r where r: "pruneAcked (s\<lparr>txSeqNrAcked := a\<rparr>) a = s\<lparr>txSeqNrAcked := a, txReadIndex := r\<rparr>"
    using pruneAcked_frame [of "s\<lparr>txSeqNrAcked := a\<rparr>" a] by auto
  have a: "uint a < 4096" by (simp add: a_def seq_simps)
  have "seqBetween (txSeqNrAcked s) a a" by (simp add: seqBetween_def Let_def)
  then have eq: "onAck s a =
      (stopAckTimer (s\<lparr>txSeqNrAcked := a, txReadIndex := r, retransmitAttempts := 0\<rparr>))\<lparr>finPending := False\<rparr>"
    using ne r unfolding onAck_def Let_def a_def [symmetric] by simp
  show "session_inv (onAck s a)" using inv a by (rule onAck_inv)
  then have "tx_inv (onAck s a)" by (simp add: session_inv_def)
  have "tx_inv s" using inv by (simp add: session_inv_def)
  note w = pruneAcked_window [OF this a, unfolded r]
  have "seq_gap (s\<lparr>txSeqNrAcked := a, txReadIndex := r\<rparr>) = (uint (txSeqNr s) - 1 - uint a) mod 4096"
    by (simp add: seq_gap_def algebra_simps)
  also have "\<dots> = 0" by (simp add: a_def seq_simps mod_simps)
  finally have "ring_count (s\<lparr>txSeqNrAcked := a, txReadIndex := r\<rparr>) = 0" using w(2) by simp
  moreover have "ring_ok (s\<lparr>txSeqNrAcked := a, txReadIndex := r\<rparr>)" using w(1) by (simp add: tx_inv_def)
  ultimately have "r = txWriteIndex s" by (simp add: ring_count_0_iff)
  then show "InFlight (onAck s a) = 0" "xfer (onAck s a) = xfer s" "txSeqNr (onAck s a) = txSeqNr s"
    "outbox (onAck s a) = outbox s" "\<not> finPending (onAck s a)"
    unfolding eq by (simp_all add: InFlight_def stopAckTimer_def)
qed

lemma exchange_ok:
  assumes "session_inv s" "session_inv r" "batch_ok s0 ps s" "rxSeqExpected r = txSeqNr s0"
    and "ps \<noteq> []" "length (to_send (xfer s)) < n"
  shows "\<exists>s' r' out. exchange n s r ps got = Some (s', r', got @ out) \<and>
    concat out = to_send (xfer s0) \<and> tr_data (xfer s') = None \<and>
    \<not> waiting s' \<and> session_inv s' \<and> session_inv r' \<and> rxSeqExpected r' = txSeqNr s'"
  using assms
proof (induction n arbitrary: s0 s r ps got)
  case 0
  then show ?case by simp
next
  case (Suc n)
  note b = Suc.prems(3) [unfolded batch_ok_def]
  have ne: "txReadIndex s \<noteq> txWriteIndex s" using b Suc.prems(5) by blast
  have more: "tr_data (xfer s) \<noteq> None \<Longrightarrow> to_send (xfer s) \<noteq> []" using b Suc.prems(5) by blast
  obtain r1 where r1: "deliveries r ps = Some (r1, map (drop 6) ps)" "session_inv r1"
    "rxSeqExpected r1 = txSeqNr s" using batch_delivered [OF Suc.prems(3,2,4)] by blast
  define s1 where "s1 = onAck s ((txSeqNr s - 1) AND 0xFFF)"
  note s1 = onAck_last [OF Suc.prems(1) ne, folded s1_def]
  have whole: "to_send (xfer s0) = concat (map (drop 6) ps) @ to_send (xfer s)" using b by blast
  show ?case
  proof (cases "tr_data (xfer s)")
    case None
    then have "onPeerAck s ((rxSeqExpected r1 - 1) AND 0xFFF) = Some s1"
      using s1(3) by (simp add: onPeerAck_def Let_def r1(3) s1_def [symmetric])
    then show ?thesis
      using None r1 s1 whole by (auto simp: waiting_def to_send_def)
  next
    case (Some dat)
    then have ack: "onPeerAck s ((rxSeqExpected r1 - 1) AND 0xFFF) = handleTransfer s1"
      using s1(3) by (simp add: onPeerAck_def Let_def r1(3) s1_def [symmetric])
    have ok: "tx_inv s1" "timer_ok s1" "fin_ok s1" using s1(1) by (simp_all add: session_inv_def)
    have al: "aligned (xfer s1)" using b s1(3) by simp
    obtain s2 where s2: "handleTransfer s1 = Some s2" "session_inv s2"
      using handleTransfer_inv [OF ok] by blast
    obtain ps2 where ps2: "wire (outbox s2) = wire (outbox s1) @ ps2" "batch_ok s1 ps2 s2"
      using handleTransfer_stream [OF ok(1,3) al s2(1)] by blast
    then have "ps2 \<noteq> []" using s1(2,3) more Some by (auto simp: batch_ok_def)
    moreover have "length (to_send (xfer s2)) < n"
    proof -
      obtain p where p: "p \<in> set ps2" using \<open>ps2 \<noteq> []\<close> by (cases ps2) auto
      then have "concat (map (drop 6) ps2) \<noteq> []" using ps2(2) by (force simp: batch_ok_def)
      moreover have "to_send (xfer s1) = concat (map (drop 6) ps2) @ to_send (xfer s2)"
        using ps2(2) by (simp add: batch_ok_def)
      ultimately have "length (to_send (xfer s2)) < length (to_send (xfer s1))"
        by (metis length_append length_greater_0_conv less_add_same_cancel2)
      then show ?thesis using Suc.prems(6) s1(3) by simp
    qed
    moreover have "rxSeqExpected r1 = txSeqNr s1" using r1(3) s1(4) by simp
    ultimately obtain s' r' out where
      "exchange n s2 r1 ps2 (got @ map (drop 6) ps) = Some (s', r', (got @ map (drop 6) ps) @ out)"
      "concat out = to_send (xfer s1)" "tr_data (xfer s') = None" "\<not> waiting s'"
      "session_inv s'" "session_inv r'" "rxSeqExpected r' = txSeqNr s'"
      using Suc.IH [OF s2(2) r1(2) ps2(2)] by blast
    then show ?thesis
      using r1(1) ack s2(1) ps2(1) s1(3,5) whole \<open>ps2 \<noteq> []\<close>
      by (intro exI [of _ s'] exI [of _ r'] exI [of _ "map (drop 6) ps @ out"]) simp
  qed
qed

lemma start_exchange:
  assumes "session_inv s" "session_inv r" "rxSeqExpected r = txSeqNr s"
    and "xfer_ok t" "aligned t" "to_send t \<noteq> []"
  shows "\<exists>s1 ps s' r' out. handleTransfer ((resetSendState s)\<lparr>xfer := t\<rparr>) = Some s1 \<and>
    wire (outbox s1) = wire (outbox s) @ ps \<and>
    exchange (length (to_send t)) s1 r ps [] = Some (s', r', out) \<and>
    concat out = to_send t \<and> tr_data (xfer s') = None \<and> \<not> waiting s' \<and>
    rxSeqExpected r' = txSeqNr s'"
proof -
  let ?s = "(resetSendState s)\<lparr>xfer := t\<rparr>"
  note ok = resetSendState_inv [OF assms(1,4)]
  have s: "txSeqNr ?s = txSeqNr s" "outbox ?s = outbox s" "InFlight ?s = 0"
    by (simp_all add: resetSendState_def stopAckTimer_def Let_def InFlight_def)
  obtain s1 where s1: "handleTransfer ?s = Some s1" "session_inv s1"
    using handleTransfer_inv [OF ok] by blast
  obtain ps where ps: "wire (outbox s1) = wire (outbox ?s) @ ps" "batch_ok ?s ps s1"
    using handleTransfer_stream [OF ok(1,3) _ s1(1)] assms(5) by auto
  have ne: "ps \<noteq> []" using ps(2) assms(6) s(3) by (auto simp: batch_ok_def)
  then obtain p where "p \<in> set ps" "6 < length p" using ps(2) by (cases ps) (auto simp: batch_ok_def)
  then have "concat (map (drop 6) ps) \<noteq> []" by force
  then have "length (to_send (xfer s1)) < length (to_send t)"
    using ps(2) by (simp add: batch_ok_def del: concat_eq_Nil_conv)
  from exchange_ok [OF s1(2) assms(2) ps(2) _ ne this, of "[]"] show ?thesis
    using s1 ps(1) s assms(3) by auto
qed

section \<open>Loss, duplication and reordering\<close>

lemma verdict_of_nat:
  assumes "1 \<le> i" "i < 4096" "1 \<le> e" "e \<le> 4096"
  shows "verdict (of_nat (e mod 4096)) (of_nat i) \<in> {Deliver, Resync} \<longleftrightarrow> i = e"
proof -
  have "(of_nat i :: u16) = of_nat (e mod 4096) \<longleftrightarrow> i = e mod 4096"
    using assms by (simp add: word_unat_eq_iff unat_of_nat)
  also have "\<dots> \<longleftrightarrow> i = e" using assms by (cases "e = 4096") auto
  finally have eq: "(of_nat i :: u16) = of_nat (e mod 4096) \<longleftrightarrow> i = e" .
  have "(of_nat i :: u16) \<noteq> 0" using assms by (simp add: word_unat_eq_iff unat_of_nat)
  then show ?thesis using eq unfolding verdict_def by (simp only: if_False split: if_split) auto
qed

lemma next_of_nat: "(of_nat i + 1 :: u16) AND 0xFFF = of_nat (Suc i mod 4096)"
proof -
  have "unat ((of_nat i + 1 :: u16) AND 0xFFF) = Suc i mod 65536 mod 4096"
    unfolding unat_and_fff by (simp add: unat_word_ariths unat_of_nat mod_simps)
  also have "\<dots> = Suc i mod 4096" by (simp add: mod_mod_cancel)
  finally show ?thesis by (simp add: word_unat_eq_iff unat_of_nat mod_mod_trivial)
qed

lemma rx_spec_lossy:
  assumes "set js \<subseteq> {1..<n}" "n \<le> 4096" "length ps = n" "1 \<le> e" "e \<le> n"
  shows "\<exists>m. e \<le> m \<and> m \<le> n \<and> rx_spec (of_nat (e mod 4096)) (map (\<lambda>i. (of_nat i, ps ! i)) js) =
      (of_nat (m mod 4096), drop e (take m ps)) \<and>
    (\<forall>e' \<le> e. subseq [e'..<n] js \<longrightarrow> m = n)"
  using assms(1,4,5)
proof (induction js arbitrary: e)
  case Nil
  have "n \<le> e'" if "subseq [e'..<n] []" for e'
    using that by (cases "e' < n") (simp_all add: upt_conv_Cons)
  with Nil have "\<forall>e' \<le> e. subseq [e'..<n] [] \<longrightarrow> e = n" by (metis le_antisym order_trans)
  with Nil show ?case by (intro exI [of _ e]) simp
next
  case (Cons j js)
  have j: "1 \<le> j" "j < 4096" "j < n" using Cons.prems(1) assms(2) by auto
  have v: "verdict (of_nat (e mod 4096)) (of_nat j) \<in> {Deliver, Resync} \<longleftrightarrow> j = e"
    using j Cons.prems(2,3) assms(2) by (intro verdict_of_nat) simp_all
  have sub: "subseq [e'..<n] (j # js) \<Longrightarrow> \<exists>e'' \<in> {e', Suc e'}. (e'' = Suc e' \<longrightarrow> e' = j) \<and> subseq [e''..<n] js" for e'
    by (cases "e' < n") (auto simp: upt_conv_Cons subseq_Cons2_iff split: if_splits)
  show ?case
  proof (cases "j = e")
    case True
    then obtain m where m: "Suc e \<le> m" "m \<le> n"
      "rx_spec (of_nat (Suc e mod 4096)) (map (\<lambda>i. (of_nat i, ps ! i)) js) =
        (of_nat (m mod 4096), drop (Suc e) (take m ps))"
      "\<forall>e' \<le> Suc e. subseq [e'..<n] js \<longrightarrow> m = n"
      using Cons.IH [of "Suc e"] Cons.prems j(3) by auto
    have "drop e (take m ps) = ps ! e # drop (Suc e) (take m ps)"
      using m(1,2) assms(3) by (simp add: Cons_nth_drop_Suc [symmetric])
    moreover have "m = n" if le: "e' \<le> e" and sb: "subseq [e'..<n] (j # js)" for e'
    proof -
      obtain e'' where "e'' = e' \<or> e'' = Suc e'" "subseq [e''..<n] js"
        using sub [OF sb] by auto
      moreover from this(1) le have "e'' \<le> Suc e" by auto
      ultimately show ?thesis using m(4) by blast
    qed
    ultimately show ?thesis
      using m(1,2,3) v True by (intro exI [of _ m]) (simp add: next_of_nat)
  next
    case False
    obtain m where m: "e \<le> m" "m \<le> n"
      "rx_spec (of_nat (e mod 4096)) (map (\<lambda>i. (of_nat i, ps ! i)) js) =
        (of_nat (m mod 4096), drop e (take m ps))"
      "\<forall>e' \<le> e. subseq [e'..<n] js \<longrightarrow> m = n"
      using Cons.IH [of e] Cons.prems by auto
    have "m = n" if le: "e' \<le> e" and sb: "subseq [e'..<n] (j # js)" for e'
    proof -
      obtain e'' where "e'' = e' \<or> e'' = Suc e' \<and> e' = j" "subseq [e''..<n] js"
        using sub [OF sb] by auto
      moreover from this(1) le False have "e'' \<le> e" by auto
      ultimately show ?thesis using m(4) by blast
    qed
    then show ?thesis using m(1,2,3) v False by (intro exI [of _ m]) simp
  qed
qed

section \<open>An example state\<close>

text \<open>A new session after a reply of 1504 bytes: two packets in flight, the second with FIN.\<close>

definition two_packets :: session where
  "two_packets = the (SendRawDataWithHeader NewSession [1, 2, 3, 4] (Some (replicate 1500 7)))"

lemma two_packets_eval:
  "map_option (\<lambda>s. (ring_count s, seq_age s 1, seq_gap s, waiting s, closed s, retransmitAttempts s, finPending s, txSeqNr s))
     (SendRawDataWithHeader NewSession [1, 2, 3, 4] (Some (replicate 1500 7))) =
   Some (2, 1, 2, True, False, 0, True, 2)"
  unfolding SendRawDataWithHeader_def optimalChunkSize_1408 handleTransfer_def Let_def
  apply (subst handleTransfer_loop.simps)
  apply (simp add: NewSession_def resetSendState_def stopAckTimer_def Let_def InFlight_def
      handleTransfer_body_eq next_chunk_def packDataPacket_eq length_data_packet padded_len_def)
  apply (subst handleTransfer_loop.simps)
  apply (simp add: InFlight_def handleTransfer_body_eq next_chunk_def Let_def pushPacket_def
      packDataPacket_eq length_data_packet padded_len_def)
  apply (subst handleTransfer_loop.simps)
  apply (simp add: updateAckTimer_def InFlight_def armAckTimer_def ring_count_def seq_age_def
      seq_gap_def waiting_def)
  done

lemma two_packets_facts:
  "reachable two_packets" "ring_count two_packets = 2" "seq_age two_packets 1 = 1"
  "InFlight two_packets = 2" "waiting two_packets" "\<not> closed two_packets"
  "retransmitAttempts two_packets = 0" "finPending two_packets" "txSeqNr two_packets = 2"
proof -
  obtain s where s: "SendRawDataWithHeader NewSession [1, 2, 3, 4] (Some (replicate 1500 7)) = Some s"
    and f: "ring_count s = 2" "seq_age s 1 = 1" "seq_gap s = 2" "waiting s" "\<not> closed s"
      "retransmitAttempts s = 0" "finPending s" "txSeqNr s = 2"
    using two_packets_eval by auto
  have "txReadIndex s \<noteq> txWriteIndex s" using f(4) by (auto simp: waiting_def InFlight_def)
  from InFlight_gap [OF this] f(3) have "InFlight s = 2" by simp
  have "session_step NewSession (OpSendRaw [1, 2, 3, 4] (Some (replicate 1500 7))) s"
    by (rule session_step.step) (simp_all add: s)
  then have "reachable s" by (rule reachable.next_state [OF reachable.init])
  with s f \<open>InFlight s = 2\<close> show "reachable two_packets" "ring_count two_packets = 2" "seq_age two_packets 1 = 1"
    "InFlight two_packets = 2" "waiting two_packets" "\<not> closed two_packets"
    "retransmitAttempts two_packets = 0" "finPending two_packets" "txSeqNr two_packets = 2"
    by (simp_all add: two_packets_def)
qed

section \<open>Properties\<close>

definition pad4 :: "bytes \<Rightarrow> bytes" where
  "pad4 b = b @ replicate (padded_len (length b) - length b) 0"

lemma raw_delivered:
  assumes "reachable s" "reachable r" "rxSeqExpected r = txSeqNr s"
    and "4 dvd length header" "length header \<le> 60" "header @ dat \<noteq> []"
  shows "\<exists>s1 ps n s' r' out. SendRawDataWithHeader s header (Some dat) = Some s1 \<and>
    wire (outbox s1) = wire (outbox s) @ ps \<and> exchange n s1 r ps [] = Some (s', r', out) \<and>
    concat out = header @ pad4 dat \<and> tr_data (xfer s') = None \<and> \<not> waiting s' \<and>
    rxSeqExpected r' = txSeqNr s'"
proof -
  let ?t = "\<lparr>tr_header = header, tr_data = Some dat, tr_offset = 0, tr_maxChunk = 1408\<rparr>"
  have t: "xfer_ok ?t" "aligned ?t" "to_send ?t = header @ pad4 dat"
    using assms(4,5) by (simp_all add: xfer_ok_def aligned_def to_send_def pad4_def)
  have "to_send ?t \<noteq> []" using assms(6) by (auto simp: t(3) pad4_def)
  from start_exchange [OF assms(1,2) [THEN reachable_inv] assms(3) t(1,2) this] show ?thesis
    unfolding SendRawDataWithHeader_def optimalChunkSize_1408 Let_def t(3) by blast
qed

text \<open>
  C4: A reply with data arrives whole and in order. For any reachable sender and any reachable
  receiver that expects the sender's next sequence number, \<^verbatim>\<open>SendRawDataWithHeader\<close> followed by the
  alternation of deliveries and cumulative ACKs ends; the payloads handed up by the receiver
  concatenate to the header followed by the data, padded to a multiple of four, and the sender is
  left with no transfer and nothing to wait for. The header is a multiple of four and at most 60
  bytes long, as the four-bit word count of the wire format requires.
\<close>

theorem transfer_delivered:
  assumes "reachable s" "reachable r" "rxSeqExpected r = txSeqNr s"
    and "4 dvd length header" "length header \<le> 60" "header @ dat \<noteq> []"
  shows "\<exists>s1 ps n s' r' out. SendRawDataWithHeader s header (Some dat) = Some s1 \<and>
    wire (outbox s1) = wire (outbox s) @ ps \<and> exchange n s1 r ps [] = Some (s', r', out) \<and>
    concat out = header @ pad4 dat \<and> tr_data (xfer s') = None \<and> \<not> waiting s' \<and>
    rxSeqExpected r' = txSeqNr s'"
  using raw_delivered [OF assms] .

theorem transfer_delivered_witness:
  "\<exists>s1 ps n s' r' out. SendRawDataWithHeader NewSession [1, 2, 3, 4] (Some (replicate 20001 7)) = Some s1 \<and>
    wire (outbox s1) = wire (outbox NewSession) @ ps \<and>
    exchange n s1 NewSession ps [] = Some (s', r', out) \<and>
    concat out = [1, 2, 3, 4] @ pad4 (replicate 20001 7) \<and> tr_data (xfer s') = None \<and> \<not> waiting s' \<and>
    rxSeqExpected r' = txSeqNr s'"
  by (rule transfer_delivered [OF reachable.init reachable.init])
    (simp add: NewSession_def, simp add: eval_nat_numeral, simp, simp)

text \<open>
  C28: The same for a reply without a header: a payload of 1 to 1492 bytes given to \<^verbatim>\<open>SendData\<close> is
  delivered in order and followed only by the zero bytes that pad it to a multiple of four.
\<close>

theorem reply_delivered:
  assumes "reachable s" "reachable r" "rxSeqExpected r = txSeqNr s"
    and "payload \<noteq> []" "length payload \<le> 1492"
  shows "\<exists>s1 ps n s' r' out. SendData s (Some payload) = Some s1 \<and>
    wire (outbox s1) = wire (outbox s) @ ps \<and> exchange n s1 r ps [] = Some (s', r', out) \<and>
    concat out = pad4 payload \<and> tr_data (xfer s') = None \<and> \<not> waiting s' \<and>
    rxSeqExpected r' = txSeqNr s'"
proof -
  let ?t = "\<lparr>tr_header = [], tr_data = Some payload, tr_offset = 0, tr_maxChunk = length payload\<rparr>"
  have t: "xfer_ok ?t" "aligned ?t" "to_send ?t = pad4 payload"
    using assms(4,5) by (simp_all add: xfer_ok_def aligned_def to_send_def pad4_def)
  have "to_send ?t \<noteq> []" using assms(4) by (auto simp: t(3) pad4_def)
  from start_exchange [OF assms(1,2) [THEN reachable_inv] assms(3) t(1,2) this] show ?thesis
    unfolding SendData_def Let_def t(3) option.case by blast
qed

theorem reply_delivered_witness:
  "\<exists>s1 ps n s' r' out. SendData NewSession (Some [1, 2, 3, 4, 5]) = Some s1 \<and>
    wire (outbox s1) = wire (outbox NewSession) @ ps \<and>
    exchange n s1 NewSession ps [] = Some (s', r', out) \<and>
    concat out = pad4 [1, 2, 3, 4, 5] \<and> tr_data (xfer s') = None \<and> \<not> waiting s' \<and>
    rxSeqExpected r' = txSeqNr s'"
  by (rule reply_delivered [OF reachable.init reachable.init]) (simp_all add: NewSession_def)

text \<open>
  C11: The receiver implements its specification. In any reachable state and for any sequence of
  datagrams of at least six bytes, the payloads handed up and the next expected number are those
  of \<open>rx_spec\<close>: a payload is handed up exactly if its number is the expected one, or is 0 while
  neither 0 nor 1 is expected, which restarts the session; everything else leaves the receiver's
  sequence alone.
\<close>

theorem receiver_refines_spec:
  assumes "reachable s" "\<forall>b \<in> set bs. 6 \<le> length b"
  shows "\<exists>s' ps. deliveries s bs = Some (s', ps) \<and>
    rx_spec (rxSeqExpected s) (List.map_filter rx_event bs) = (rxSeqExpected s', ps)"
  using deliveries_spec [OF reachable_inv [OF assms(1)] assms(2)] by blast

theorem receiver_refines_spec_witness:
  "\<exists>s' ps. deliveries NewSession [[2, 0, 0, 0, 16, 0, 1, 2, 3, 4], [2, 0, 0, 0, 16, 0, 1, 2, 3, 4]] =
      Some (s', ps) \<and>
    rx_spec (rxSeqExpected NewSession) (List.map_filter rx_event
      [[2, 0, 0, 0, 16, 0, 1, 2, 3, 4], [2, 0, 0, 0, 16, 0, 1, 2, 3, 4]]) = (rxSeqExpected s', ps)"
  by (rule receiver_refines_spec [OF reachable.init]) simp

text \<open>
  C12: Once and in order after the first packet. A receiver that expects number 0 gets packet 0 of up
  to 4096 packets first, and afterwards the others in any order, any of them lost or repeated, but
  packet 0 not again: what it hands up is a prefix of the payloads, each once and in order, and it
  is all of them as soon as the arrivals contain packets 1, 2, ... in order, as the repetitions of
  a go-back-N sender do.
\<close>

theorem lossy_delivery:
  assumes "reachable s" "rxSeqExpected s = 0"
    and "length bs = length ps" "ps \<noteq> []" "length ps \<le> 4096"
    and "\<forall>i < length ps. 6 \<le> length (bs ! i) \<and> rx_event (bs ! i) = Some (of_nat i, ps ! i)"
    and "set js \<subseteq> {1..<length ps}"
  shows "\<exists>s' m. deliveries s (bs ! 0 # map ((!) bs) js) = Some (s', take m ps) \<and>
    (subseq [1..<length ps] js \<longrightarrow> m = length ps)"
proof -
  let ?bs = "bs ! 0 # map ((!) bs) js"
  have len: "\<forall>b \<in> set ?bs. 6 \<le> length b" using assms(4,6,7) by auto
  have ev: "List.map_filter rx_event (map ((!) bs) js) = map (\<lambda>i. (of_nat i, ps ! i)) js"
    using assms(6,7) by (induction js) (auto simp: map_filter_simps)
  have ev0: "rx_event (bs ! 0) = Some (0, ps ! 0)" using assms(4,6) by fastforce
  obtain m where m: "1 \<le> m" "m \<le> length ps"
    "rx_spec (of_nat (1 mod 4096)) (map (\<lambda>i. (of_nat i, ps ! i)) js) = (of_nat (m mod 4096), drop 1 (take m ps))"
    "\<forall>e' \<le> 1. subseq [e'..<length ps] js \<longrightarrow> m = length ps"
    using rx_spec_lossy [OF assms(7,5), of ps 1] assms(4) by (auto simp: Suc_leI)
  have "take m ps = ps ! 0 # drop 1 (take m ps)"
    using m(1,2) assms(4) by (cases ps; cases m) auto
  then have "rx_spec (rxSeqExpected s) (List.map_filter rx_event ?bs) = (of_nat (m mod 4096), take m ps)"
    using ev ev0 m(3) assms(2) by (simp add: map_filter_simps verdict_def)
  with deliveries_spec [OF reachable_inv [OF assms(1)] len] m(4) show ?thesis by fastforce
qed

definition example_datagrams :: "bytes list" where
  "example_datagrams = [[2, 0, 0, 0, 16, 0, 1, 2, 3, 4], [18, 0, 0, 0, 16, 0, 5, 6, 7, 8]]"

lemma example_events:
  "rx_event [2, 0, 0, 0, 16, 0, 1, 2, 3, 4] = Some (0, [1, 2, 3, 4])"
  "rx_event [18, 0, 0, 0, 16, 0, 5, 6, 7, 8] = Some (1, [5, 6, 7, 8])"
  by code_simp+

lemma deliveries_reachable:
  "reachable s \<Longrightarrow> \<forall>b \<in> set bs. 6 \<le> length b \<Longrightarrow> deliveries s bs = Some (s', ps) \<Longrightarrow> reachable s'"
proof (induction bs arbitrary: s ps)
  case (Cons b bs)
  from Cons.prems(3) obtain s1 r ps1 where s1: "ProcessDataPacket s b = Some (s1, r)"
    "deliveries s1 bs = Some (s', ps1)" by (auto split: bind_splits)
  then have "session_step s (OpPacket b) s1" using Cons.prems(2) by (intro session_step.step) simp_all
  then show ?case using Cons.IH [OF reachable.next_state [OF Cons.prems(1)] _ s1(2)] Cons.prems(2) by simp
qed simp

theorem lossy_delivery_witness:
  "\<exists>s' m. deliveries NewSession (example_datagrams ! 0 # map ((!) example_datagrams) [1, 1]) =
      Some (s', take m [[1, 2, 3, 4], [5, 6, 7, 8]]) \<and> (subseq [1] [1, 1 :: nat] \<longrightarrow> m = 2)"
proof -
  let ?ps = "[[1, 2, 3, 4], [5, 6, 7, 8]] :: bytes list"
  note ev = example_events
  have two: "length ?ps = 2" "[1..<2] = [1 :: nat]" by (simp_all add: upt_rec)
  have all: "\<forall>i < length ?ps. 6 \<le> length (example_datagrams ! i) \<and>
      rx_event (example_datagrams ! i) = Some (of_nat i, ?ps ! i)"
    using ev by (simp add: example_datagrams_def less_Suc_eq)
  have js: "set [1, 1] \<subseteq> {1..<length ?ps}" by simp
  have r0: "rxSeqExpected NewSession = 0" by (simp add: NewSession_def)
  show ?thesis
    using lossy_delivery [OF reachable.init r0 _ _ _ all js]
    unfolding two by (simp only: example_datagrams_def list.size list.distinct) simp
qed

text \<open>
  Packet 0 is the exception: when it arrives again while the receiver expects neither 0 nor 1, it
  is taken for a restart of the peer. The payload is handed up a second time and the receiver
  expects number 1 from then on, whatever it had received.
\<close>

theorem late_first_packet_redelivered:
  assumes "reachable s" "rxSeqExpected s \<notin> {0, 1}" "6 \<le> length b" "rx_event b = Some (0, p)"
  shows "\<exists>s'. deliveries s [b] = Some (s', [p]) \<and> rxSeqExpected s' = 1"
proof -
  have "(rxSeqExpected s - 1) AND 0xFFF \<noteq> 0"
  proof
    assume "(rxSeqExpected s - 1) AND 0xFFF = 0"
    then have "uint ((rxSeqExpected s - 1) AND 0xFFF) = 0" by simp
    then have "(uint (rxSeqExpected s) - 1) mod 4096 = 0" by (simp add: seq_simps mod_simps)
    moreover have "uint (rxSeqExpected s) < 4096"
      using reachable_inv [OF assms(1)] by (simp add: session_inv_def tx_inv_def)
    moreover have "uint (rxSeqExpected s) \<noteq> 1" "uint (rxSeqExpected s) \<noteq> 0"
      using assms(2) by (auto simp: word_uint_eq_iff)
    moreover have "0 \<le> uint (rxSeqExpected s)" by simp
    ultimately show False
      using mod_pos_pos_trivial [of "uint (rxSeqExpected s) - 1" 4096] by linarith
  qed
  then have "rx_spec (rxSeqExpected s) [(0, p)] = (1, [p])"
    using assms(2) by (simp add: verdict_def)
  with deliveries_spec [OF reachable_inv [OF assms(1)], of "[b]"] assms(3,4) show ?thesis
    by (auto simp: map_filter_simps)
qed

theorem late_first_packet_redelivered_witness:
  "\<exists>s s'. deliveries NewSession example_datagrams = Some (s, [[1, 2, 3, 4], [5, 6, 7, 8]]) \<and>
    deliveries s [example_datagrams ! 0] = Some (s', [[1, 2, 3, 4]]) \<and> rxSeqExpected s' = 1"
proof -
  have len: "\<forall>b \<in> set example_datagrams. 6 \<le> length b" by (simp add: example_datagrams_def)
  have "rx_spec (rxSeqExpected NewSession) (List.map_filter rx_event example_datagrams) =
      (2, [[1, 2, 3, 4], [5, 6, 7, 8]])"
    by (simp add: example_datagrams_def example_events map_filter_simps verdict_def NewSession_def)
  then obtain s where s: "deliveries NewSession example_datagrams = Some (s, [[1, 2, 3, 4], [5, 6, 7, 8]])"
    "rxSeqExpected s = 2"
    using deliveries_spec [OF reachable_inv [OF reachable.init] len] by auto
  moreover from deliveries_reachable [OF reachable.init len s(1)] have "reachable s" .
  then have "\<exists>s'. deliveries s [example_datagrams ! 0] = Some (s', [[1, 2, 3, 4]]) \<and> rxSeqExpected s' = 1"
    using s(2) example_events(1)
    by (intro late_first_packet_redelivered) (simp_all add: example_datagrams_def)
  ultimately show ?thesis by blast
qed

text \<open>
  C19: Giving up. In a reachable open session that waits for an ACK which never comes, each expiry of
  the timer sends the buffered packets from the first unacknowledged one again, and after
  \<open>MaxRetransmits\<close> expiries in all the session stops waiting: no FIN and no transfer is left, and
  the timer is off.
\<close>

theorem timeout_gives_up:
  assumes "reachable s" "\<not> closed s" "waiting s"
  defines "n \<equiv> MaxRetransmits - retransmitAttempts s"
    and "from \<equiv> (txSeqNrAcked s + 1) AND 0xFFF"
  shows "let s' = (ackTimerFunc ^^ n) s in
    \<not> waiting s' \<and> ackTimer s' = None \<and> \<not> finPending s' \<and> tr_data (xfer s') = None \<and>
    wire (outbox s') = wire (outbox s) @ concat (replicate n (resend s from)) \<and> 0 < n"
proof -
  have "retransmitAttempts s < MaxRetransmits"
    using reachable_inv [OF assms(1)] by (simp add: session_inv_def fin_ok_def)
  then have "n + retransmitAttempts s = MaxRetransmits" "0 < n" by (simp_all add: n_def)
  with timeouts [OF reachable_inv [OF assms(1)] assms(2,3)] show ?thesis
    by (simp add: Let_def from_def)
qed

theorem timeout_gives_up_witness:
  "let s' = (ackTimerFunc ^^ 4) two_packets in
    \<not> waiting s' \<and> ackTimer s' = None \<and> \<not> finPending s' \<and> tr_data (xfer s') = None"
  using timeout_gives_up [OF two_packets_facts(1,6,5)] two_packets_facts(7)
  unfolding Let_def MaxRetransmits_def by simp

text \<open>
  C20: A timeout repeats every packet in the window. In a reachable open session that waits for an
  ACK, the expiry of the timer puts on the wire all the buffered packets, unchanged, oldest first,
  and nothing else, provided \<^verbatim>\<open>InFlight\<close> spans the ring and is at most 2048. \<^verbatim>\<open>InFlight\<close> counts from
  the last acknowledged number, and \<^verbatim>\<open>resetSendState\<close> drops the packets of an unacknowledged reply
  without moving it, so it may be larger than the ring; beyond 2048 the half-sequence test of
  \<^verbatim>\<open>retransmitFrom\<close> takes the buffered packets for older ones.
\<close>

theorem timeout_resends_window:
  assumes "reachable s" "\<not> closed s" "waiting s"
    and "ring_count s \<le> InFlight s" "InFlight s \<le> 2048"
  shows "wire (outbox (ackTimerFunc s)) = wire (outbox s) @ map tx_data (ring_entries s)"
proof -
  have inv: "session_inv s" using assms(1) by (rule reachable_inv)
  then have "seqs_ok s" by (simp add: session_inv_def tx_inv_def)
  have "txReadIndex s \<noteq> txWriteIndex s" using assms(3) by (auto simp: waiting_def InFlight_def)
  moreover have "seq_age s ((txSeqNrAcked s + 1) AND 0xFFF) = seq_gap s"
    by (simp add: seq_age_def seq_gap_def seq_simps mod_simps)
  ultimately have "seq_age s ((txSeqNrAcked s + 1) AND 0xFFF) = int (InFlight s)"
    by (simp add: InFlight_gap)
  with \<open>seqs_ok s\<close> assms(4,5) have "resend s ((txSeqNrAcked s + 1) AND 0xFFF) = map tx_data (ring_entries s)"
    by (intro resend_all) simp_all
  with timeout_step(5) [OF inv assms(2,3)] show ?thesis by simp
qed

theorem timeout_resends_window_witness:
  "wire (outbox (ackTimerFunc two_packets)) = wire (outbox two_packets) @ map tx_data (ring_entries two_packets) \<and>
    length (ring_entries two_packets) = 2"
  using timeout_resends_window [OF two_packets_facts(1,6,5)] by (simp add: two_packets_facts)

text \<open>
  C38: A NACK from inside the window is ignored. If the oldest buffered packet is older than the
  number the peer reports missing, \<^verbatim>\<open>retransmitFrom\<close> stops at that packet at once and nothing is
  sent again, although the missing packet is in the ring.
\<close>

theorem nack_inside_window_ignored:
  assumes "reachable s" "seq_age s seq < int (ring_count s)"
  shows "wire (outbox (onPeerNack s seq)) = wire (outbox s)"
proof -
  have inv: "ring_ok s" "seqs_ok s" "ring_count s \<le> 9"
    using reachable_inv [OF assms(1)] by (simp_all add: session_inv_def tx_inv_def)
  show ?thesis using onPeerNack_wire [OF inv(1)] resend_none [OF inv(2,3) assms(2)] by simp
qed

theorem nack_inside_window_ignored_witness:
  "wire (outbox (onPeerNack two_packets 1)) = wire (outbox two_packets)"
  by (rule nack_inside_window_ignored [OF two_packets_facts(1)]) (simp add: two_packets_facts)

text \<open>
  C37: The chunk size does not depend on the amount of data: the loop of \<^verbatim>\<open>optimalChunkSize\<close> starts
  from the largest candidate and no smaller one needs fewer packets.
\<close>

theorem optimalChunkSize_constant: "optimalChunkSize totalBytes = 1408"
  by (rule optimalChunkSize_1408)

text \<open>
  C17: The send window. In every reachable state the ring holds at most \<open>SendWindow + 1\<close> packets, its
  packets carry consecutive sequence numbers that end just before \<^verbatim>\<open>txSeqNr\<close>, and all sequence
  numbers stay below 4096.
\<close>

theorem session_window:
  assumes "reachable s"
  shows "ring_count s \<le> SendWindow + 1 \<and> uint (txSeqNr s) < 4096 \<and> uint (txSeqNrAcked s) < 4096 \<and>
    uint (rxSeqExpected s) < 4096 \<and>
    (\<forall>j < ring_count s. uint (tx_seq (ring_entries s ! j)) =
       (uint (txSeqNr s) - (int (ring_count s) - int j)) mod 4096)"
  using reachable_inv [OF assms] by (simp add: session_inv_def tx_inv_def seqs_ok_def)

theorem session_window_witness:
  "ring_count two_packets \<le> SendWindow + 1 \<and> uint (tx_seq (ring_entries two_packets ! 0)) = 0 \<and>
    uint (tx_seq (ring_entries two_packets ! 1)) = 1"
proof -
  have pair: "(\<forall>j < (2 :: nat). P j) \<longleftrightarrow> P 0 \<and> P 1" for P
    by (auto simp: less_2_cases_iff)
  show ?thesis
    using session_window [OF two_packets_facts(1)] by (simp add: two_packets_facts pair)
qed

text \<open>
  C18: The timer runs exactly while the sender waits. In every reachable state of an open session it
  is armed if and only if packets are in flight and either a FIN is unacknowledged or a transfer
  is blocked on a full window; it then runs for the duration of that wait, and its callback is
  never discarded as stale.
\<close>

theorem session_timer:
  assumes "reachable s" "\<not> closed s"
  shows "ackTimer s =
      (if \<not> waiting s then None
       else Some (if finPending s then FinAckTimeout else WindowAckTimeout)) \<and>
    (ackTimer s \<noteq> None \<longrightarrow> ackTimerExpectSeq s = ackTimerSeq s \<and> ackWaitMode s \<noteq> ackWaitNone)"
  using reachable_inv [OF assms(1)] assms(2)
  by (auto simp: session_inv_def timer_ok_def mode_ok_def)

theorem session_timer_witness:
  "ackTimer two_packets = Some FinAckTimeout \<and> ackTimerExpectSeq two_packets = ackTimerSeq two_packets"
  using session_timer [OF two_packets_facts(1,6)] by (simp add: two_packets_facts)

end
