(* ===== verification/GoRuntime.thy ===== *)
theory GoRuntime
  imports Prelude "HOL-Library.AList"
begin

text \<open>
  More of what the program uses of Go and its standard library: signed integers, error values,
  maps, and reading a file at an offset. \<^verbatim>\<open>int\<close> is 64 bits wide.
\<close>

section \<open>Signed integers\<close>

definition int64 :: "int \<Rightarrow> int" where
  "int64 x = (x + 2 ^ 63) mod 2 ^ 64 - 2 ^ 63"

definition int32 :: "int \<Rightarrow> int" where
  "int32 x = (x + 2 ^ 31) mod 2 ^ 32 - 2 ^ 31"

lemma int64_id: "- (2 ^ 63) \<le> x \<Longrightarrow> x < 2 ^ 63 \<Longrightarrow> int64 x = x"
  unfolding int64_def by (subst mod_pos_pos_trivial) simp_all

lemma int32_id: "- (2 ^ 31) \<le> x \<Longrightarrow> x < 2 ^ 31 \<Longrightarrow> int32 x = x"
  unfolding int32_def by (subst mod_pos_pos_trivial) simp_all

lemma int64_range: "- (2 ^ 63) \<le> int64 x" "int64 x < 2 ^ 63"
  unfolding int64_def using pos_mod_sign [of "2 ^ 64" "x + 2 ^ 63"] pos_mod_bound [of "2 ^ 64" "x + 2 ^ 63"]
  by simp_all

lemma int64_signed: "int64 x = signed_take_bit 63 x"
  by (simp add: int64_def signed_take_bit_eq_take_bit_shift take_bit_eq_mod)

lemma sint_int64: "sint (word_of_int x :: u64) = int64 x"
  by (simp add: int64_signed sint_sbintrunc')

lemma sint_of_nat64: "int n < 2 ^ 63 \<Longrightarrow> sint (of_nat n :: u64) = int n"
  using sint_int64 [of "int n"] by (simp add: int64_id)

text \<open>Division and remainder truncate towards zero.\<close>

definition go_quot :: "int \<Rightarrow> int \<Rightarrow> int" where
  "go_quot x y = sgn x * sgn y * (\<bar>x\<bar> div \<bar>y\<bar>)"

definition go_rem :: "int \<Rightarrow> int \<Rightarrow> int" where
  "go_rem x y = x - go_quot x y * y"

lemma go_quot_nonneg: "0 \<le> x \<Longrightarrow> 0 < y \<Longrightarrow> go_quot x y = x div y"
  by (cases "x = 0") (simp_all add: go_quot_def)

lemma go_rem_nonneg: "0 \<le> x \<Longrightarrow> 0 < y \<Longrightarrow> go_rem x y = x mod y"
  by (simp add: go_rem_def go_quot_nonneg minus_div_mult_eq_mod)

section \<open>Errors\<close>

text \<open>
  The error values the program distinguishes. \<open>PathError\<close> stands for an error of the operating
  system that is none of the others, \<open>FormatError\<close> for the errors the sources build with
  \<^verbatim>\<open>fmt.Errorf\<close>.
\<close>

datatype go_error = ErrNotExist | ErrExist | ErrPermission | ErrInvalid | ErrClosed
  | EOF | UnexpectedEOF | PathError | FormatError | Errno int

text \<open>Go's early return: the rest runs unless the call panicked or returned an error.\<close>

definition try_ok :: "('e + 'a) option \<Rightarrow> ('a \<Rightarrow> ('e + 'b) option) \<Rightarrow> ('e + 'b) option" where
  "try_ok r k = (case r of None \<Rightarrow> None | Some (Inl e) \<Rightarrow> Some (Inl e) | Some (Inr x) \<Rightarrow> k x)"

lemma try_ok_simps [simp]:
  "try_ok None k = None" "try_ok (Some (Inl e)) k = Some (Inl e)" "try_ok (Some (Inr x)) k = k x"
  by (simp_all add: try_ok_def)

lemma try_ok_Inr:
  "try_ok r k = Some (Inr y) \<longleftrightarrow> (\<exists>x. r = Some (Inr x) \<and> k x = Some (Inr y))"
  by (auto simp: try_ok_def split: option.split sum.split)

lemma try_ok_cong [fundef_cong]:
  "r = r' \<Longrightarrow> (\<And>x. r' = Some (Inr x) \<Longrightarrow> k x = k' x) \<Longrightarrow> try_ok r k = try_ok r' k'"
  by (auto simp: try_ok_def split: option.split sum.split)

section \<open>File information\<close>

text \<open>The calendar fields of a \<^verbatim>\<open>time.Time\<close>, which is all the program reads of a modification time.\<close>

record go_time =
  t_Year :: int
  t_Month :: int
  t_Day :: int
  t_Hour :: int
  t_Minute :: int
  t_Second :: int

definition zero_time :: go_time where
  "zero_time = \<lparr>t_Year = 1, t_Month = 1, t_Day = 1, t_Hour = 0, t_Minute = 0, t_Second = 0\<rparr>"

datatype file_mode = ModeRegular | ModeDir | ModeOther

record FileInfo =
  fi_name :: string
  fi_size :: int
  fi_mode :: file_mode
  fi_modTime :: go_time

section \<open>Maps\<close>

text \<open>
  A Go map is an association list with distinct keys, so that its length is the number of keys.
\<close>

type_synonym ('k, 'v) go_map = "('k \<times> 'v) list"

definition map_ok :: "('k, 'v) go_map \<Rightarrow> bool" where
  "map_ok m \<longleftrightarrow> distinct (map fst m)"

lemma map_ok_update [simp]: "map_ok m \<Longrightarrow> map_ok (AList.update k v m)"
  and map_ok_delete [simp]: "map_ok m \<Longrightarrow> map_ok (AList.delete k m)"
  and map_ok_Nil [simp]: "map_ok []"
  by (auto simp: map_ok_def distinct_update distinct_delete)

lemma length_update:
  "length (AList.update k v m) = (if k \<in> fst ` set m then length m else Suc (length m))"
  by (induction m) auto

lemma length_delete:
  "map_ok m \<Longrightarrow> k \<in> fst ` set m \<Longrightarrow> length (AList.delete k m) = length m - 1"
proof -
  assume m: "map_ok m" "k \<in> fst ` set m"
  have "length (AList.delete k m) = length (removeAll k (map fst m))"
    by (metis delete_keys length_map)
  also have "\<dots> = length (remove1 k (map fst m))"
    using m(1) by (simp add: map_ok_def distinct_remove1_removeAll)
  also have "\<dots> = length m - 1" using m(2) by (simp add: length_remove1)
  finally show ?thesis .
qed

lemma keys_delete: "fst ` set (AList.delete k m) = fst ` set m - {k}"
  using delete_keys [of k m] by (metis list.set_map set_removeAll)

section \<open>Files\<close>

text \<open>
  \<^verbatim>\<open>f.Seek(off, io.SeekStart)\<close>, \<^verbatim>\<open>make([]byte, n)\<close> and \<^verbatim>\<open>io.ReadFull(f, buf)\<close> on a file with the
  given contents: a negative offset is an error, a negative length a panic, and fewer than \<open>n\<close>
  bytes left an error, \<^verbatim>\<open>io.EOF\<close> when none is left.
\<close>

definition read_full :: "bytes \<Rightarrow> int \<Rightarrow> int \<Rightarrow> (go_error + bytes) option" where
  "read_full f off n =
     (if off < 0 then Some (Inl ErrInvalid)
      else if n < 0 then None
      else let b = drop (nat off) f in
        if nat n \<le> length b then Some (Inr (take (nat n) b))
        else if b = [] then Some (Inl EOF) else Some (Inl UnexpectedEOF))"

lemma read_full_Inr:
  "read_full f off n = Some (Inr b) \<longleftrightarrow>
     0 \<le> off \<and> 0 \<le> n \<and> b = take (nat n) (drop (nat off) f) \<and>
     (nat n \<le> length f - nat off)"
  by (auto simp: read_full_def Let_def)

lemma read_full_length: "read_full f off n = Some (Inr b) \<Longrightarrow> int (length b) = n"
  by (auto simp: read_full_Inr)

lemma read_full_None: "read_full f off n = None \<longleftrightarrow> 0 \<le> off \<and> n < 0"
  by (auto simp: read_full_def Let_def)

end
