(* ===== verification/BlockCache.thy ===== *)
theory BlockCache
  imports GoRuntime
begin

text \<open>
  The block cache of the decompressors (\<^verbatim>\<open>internal/fs/compression/cache.go\<close>): a map from block
  indices to blocks and the list of its keys, least recently used first. The contract that the
  reader needs is a locale: a lookup returns what was stored last, and storing may forget other
  blocks but never changes them.
\<close>

section \<open>The cache\<close>

text \<open>A block is a slice: the array up to its capacity, and the length.\<close>

datatype block = Block (blk_arr: bytes) (blk_len: nat)

record blockCache =
  cache_data :: "(int, block) go_map"
  cache_order :: "int list"
  cache_max :: int

definition newBlockCache :: "int \<Rightarrow> blockCache" where
  "newBlockCache maxBlocks = \<lparr>cache_data = [], cache_order = [], cache_max = maxBlocks\<rparr>"

text \<open>The loop of \<^verbatim>\<open>get\<close> moves the first occurrence of the index to the end.\<close>

fun move_to_end :: "int \<Rightarrow> int list \<Rightarrow> int list option" where
  "move_to_end idx [] = None"
| "move_to_end idx (k # ks) =
     (if k = idx then Some (ks @ [idx]) else map_option ((#) k) (move_to_end idx ks))"

definition cache_get :: "blockCache \<Rightarrow> int \<Rightarrow> blockCache \<times> block option" where
  "cache_get c idx =
     (case map_of (cache_data c) idx of
        None \<Rightarrow> (c, None)
      | Some b \<Rightarrow>
          (case move_to_end idx (cache_order c) of
             None \<Rightarrow> (c, Some b)
           | Some order \<Rightarrow> (c\<lparr>cache_order := order\<rparr>, Some b)))"

fun evict_loop :: "int \<Rightarrow> (int, block) go_map \<Rightarrow> int list \<Rightarrow> (int, block) go_map \<times> int list" where
  "evict_loop mx data [] = (data, [])"
| "evict_loop mx data (k # ks) =
     (if mx \<le> int (length data) then evict_loop mx (AList.delete k data) ks else (data, k # ks))"

definition cache_put :: "blockCache \<Rightarrow> int \<Rightarrow> block \<Rightarrow> blockCache" where
  "cache_put c idx b =
     (let (data, order) = evict_loop (cache_max c) (cache_data c) (cache_order c)
      in c\<lparr>cache_data := AList.update idx b data, cache_order := order @ [idx]\<rparr>)"

section \<open>Its invariant\<close>

definition cache_inv :: "blockCache \<Rightarrow> bool" where
  "cache_inv c \<longleftrightarrow> map_ok (cache_data c) \<and> distinct (cache_order c) \<and>
     set (cache_order c) = fst ` set (cache_data c) \<and> 0 < cache_max c \<and>
     int (length (cache_data c)) \<le> cache_max c"

lemma move_to_end_eq:
  "move_to_end idx ks = (if idx \<in> set ks then Some (remove1 idx ks @ [idx]) else None)"
  by (induction ks) auto

lemma cache_inv_order:
  "cache_inv c \<Longrightarrow> length (cache_order c) = length (cache_data c)"
proof -
  assume "cache_inv c"
  then have "distinct (cache_order c)" "distinct (map fst (cache_data c))"
    "set (cache_order c) = set (map fst (cache_data c))"
    by (auto simp: cache_inv_def map_ok_def)
  then show ?thesis by (metis distinct_card length_map)
qed

lemma evict_loop_ok:
  fixes mx :: int
  assumes "map_ok data" "distinct order" "set order = fst ` set data"
  defines "r \<equiv> evict_loop mx data order"
  shows "map_ok (fst r)" "distinct (snd r)" "set (snd r) = fst ` set (fst r)"
    "0 < mx \<Longrightarrow> int (length (fst r)) < mx"
    "map_of (fst r) \<subseteq>\<^sub>m map_of data" "\<exists>n. snd r = drop n order"
    "int (length data) < mx \<Longrightarrow> r = (data, order)"
proof -
  have "map_ok (fst r) \<and> distinct (snd r) \<and> set (snd r) = fst ` set (fst r) \<and>
    (0 < mx \<longrightarrow> int (length (fst r)) < mx) \<and> map_of (fst r) \<subseteq>\<^sub>m map_of data \<and>
    (\<exists>n. snd r = drop n order) \<and> (int (length data) < mx \<longrightarrow> r = (data, order))"
    using assms(1-3) unfolding r_def
  proof (induction mx data order rule: evict_loop.induct)
    case (1 mx data)
    then show ?case by simp
  next
    case (2 mx data k ks)
    show ?case
    proof (cases "mx \<le> int (length data)")
      case True
      have "set ks = fst ` set (AList.delete k data)"
        using 2(3,4) by (auto simp: keys_delete)
      moreover have "map_of (AList.delete k data) \<subseteq>\<^sub>m map_of data"
        by (simp add: delete_conv' map_le_def)
      moreover have "map_ok (AList.delete k data)" "distinct ks" using 2(2,3) by simp_all
      ultimately have r: "map_of (fst (evict_loop mx (AList.delete k data) ks)) \<subseteq>\<^sub>m map_of data"
        "\<exists>n. snd (evict_loop mx (AList.delete k data) ks) = drop n (k # ks)"
        using 2(1) [OF True] map_le_trans by (blast, metis drop_Suc_Cons)
      show ?thesis
        using 2(1) [OF True \<open>map_ok (AList.delete k data)\<close> \<open>distinct ks\<close> \<open>set ks = _\<close>] r True by simp
    next
      case False
      then show ?thesis using 2 by (auto intro: exI [of _ 0])
    qed
  qed
  then show "map_ok (fst r)" "distinct (snd r)" "set (snd r) = fst ` set (fst r)"
    "0 < mx \<Longrightarrow> int (length (fst r)) < mx"
    "map_of (fst r) \<subseteq>\<^sub>m map_of data" "\<exists>n. snd r = drop n order"
    "int (length data) < mx \<Longrightarrow> r = (data, order)"
    by blast+
qed

section \<open>The contract of a block store\<close>

locale block_store =
  fixes contents :: "'c \<Rightarrow> int \<rightharpoonup> 'b"
    and get :: "'c \<Rightarrow> int \<Rightarrow> 'c \<times> 'b option"
    and put :: "'c \<Rightarrow> int \<Rightarrow> 'b \<Rightarrow> 'c"
    and invar :: "'c \<Rightarrow> bool"
  assumes get_result: "invar c \<Longrightarrow> snd (get c i) = contents c i"
    and get_contents: "invar c \<Longrightarrow> contents (fst (get c i)) = contents c"
    and get_invar: "invar c \<Longrightarrow> invar (fst (get c i))"
    and put_contents: "invar c \<Longrightarrow> contents c i = None \<Longrightarrow> contents (put c i b) \<subseteq>\<^sub>m (contents c)(i \<mapsto> b)"
    and put_stored: "invar c \<Longrightarrow> contents c i = None \<Longrightarrow> contents (put c i b) i = Some b"
    and put_invar: "invar c \<Longrightarrow> contents c i = None \<Longrightarrow> invar (put c i b)"
begin

text \<open>A store is coherent with a source if it holds nothing that the source would not give.\<close>

definition coherent :: "(int \<Rightarrow> 'b option) \<Rightarrow> 'c \<Rightarrow> bool" where
  "coherent src c \<longleftrightarrow> invar c \<and> contents c \<subseteq>\<^sub>m src"

lemma coherent_hit: "coherent src c \<Longrightarrow> get c i = (c', Some b) \<Longrightarrow> src i = Some b \<and> coherent src c'"
  using get_result [of c i] get_contents [of c i] get_invar [of c i]
  by (simp add: coherent_def map_le_def) (metis domI)

lemma coherent_miss: "coherent src c \<Longrightarrow> get c i = (c', None) \<Longrightarrow> coherent src c' \<and> contents c' i = None"
  using get_result [of c i] get_contents [of c i] get_invar [of c i] by (auto simp: coherent_def)

lemma coherent_put:
  assumes "coherent src c" "contents c i = None" "src i = Some b"
  shows "coherent src (put c i b)"
proof -
  have inv: "invar c" and le: "contents c \<subseteq>\<^sub>m src" using assms(1) by (simp_all add: coherent_def)
  have "(contents c)(i \<mapsto> b) \<subseteq>\<^sub>m src" using le assms(3) by (auto simp: map_le_def)
  then show ?thesis
    using put_invar [OF inv assms(2)] put_contents [OF inv assms(2)] map_le_trans
    unfolding coherent_def by blast
qed

end

lemma cache_get_frame:
  "cache_data (fst (cache_get c i)) = cache_data c" "cache_max (fst (cache_get c i)) = cache_max c"
  by (simp_all add: cache_get_def split: option.split)

lemma cache_get_inv: "cache_inv c \<Longrightarrow> cache_inv (fst (cache_get c i))"
  by (auto simp: cache_get_def cache_inv_def move_to_end_eq distinct_remove1 split: option.split)

lemma cache_put_inv:
  assumes "cache_inv c" "map_of (cache_data c) i = None"
  shows "cache_inv (cache_put c i b)" "map_of (cache_data (cache_put c i b)) \<subseteq>\<^sub>m (map_of (cache_data c))(i \<mapsto> b)"
    "map_of (cache_data (cache_put c i b)) i = Some b"
proof -
  have c: "map_ok (cache_data c)" "distinct (cache_order c)" "set (cache_order c) = fst ` set (cache_data c)"
    "0 < cache_max c" using assms(1) by (simp_all add: cache_inv_def)
  obtain data order where r: "evict_loop (cache_max c) (cache_data c) (cache_order c) = (data, order)"
    by fastforce
  note e = evict_loop_ok [OF c(1-3), of "cache_max c", unfolded r fst_conv snd_conv]
  have put: "cache_put c i b = c\<lparr>cache_data := AList.update i b data, cache_order := order @ [i]\<rparr>"
    by (simp add: cache_put_def r)
  have "map_of data i = None" using e(5) assms(2) by (metis domI map_le_def not_None_eq)
  then have new: "i \<notin> fst ` set data" by (simp add: map_of_eq_None_iff)
  show "cache_inv (cache_put c i b)"
    using e(1-4) new c(4) by (auto simp: cache_inv_def put length_update dom_update)
  show "map_of (cache_data (cache_put c i b)) \<subseteq>\<^sub>m (map_of (cache_data c))(i \<mapsto> b)"
    "map_of (cache_data (cache_put c i b)) i = Some b"
    using e(5) by (auto simp: put update_conv' map_le_def)
qed

interpretation lru: block_store "\<lambda>c. map_of (cache_data c)" cache_get cache_put cache_inv
proof (unfold_locales, goal_cases)
  case (1 c i)
  then show ?case by (simp add: cache_get_def split: option.split)
next
  case (2 c i)
  then show ?case by (simp add: cache_get_frame)
next
  case (3 c i)
  then show ?case by (rule cache_get_inv)
next
  case (4 c i b)
  then show ?case by (rule cache_put_inv)
next
  case (5 c i b)
  then show ?case by (rule cache_put_inv)
next
  case (6 c i b)
  then show ?case by (rule cache_put_inv)
qed

section \<open>Properties\<close>

text \<open>
  C27: The cache forgets the block used least recently, and only when it is full. Storing a new block
  in a full cache drops exactly the block at the head of the order and appends the new one; in a
  cache with room nothing is dropped; and a hit moves its block to the end of the order.
\<close>

theorem cache_lru:
  assumes "cache_inv c" "map_of (cache_data c) i = None"
  shows "(int (length (cache_data c)) = cache_max c \<longrightarrow>
      map_of (cache_data (cache_put c i b)) = ((map_of (cache_data c))(hd (cache_order c) := None))(i \<mapsto> b) \<and>
      cache_order (cache_put c i b) = tl (cache_order c) @ [i]) \<and>
    (int (length (cache_data c)) < cache_max c \<longrightarrow>
      map_of (cache_data (cache_put c i b)) = (map_of (cache_data c))(i \<mapsto> b) \<and>
      cache_order (cache_put c i b) = cache_order c @ [i]) \<and>
    (\<forall>j b'. map_of (cache_data c) j = Some b' \<longrightarrow>
      snd (cache_get c j) = Some b' \<and> cache_order (fst (cache_get c j)) = remove1 j (cache_order c) @ [j])"
proof (intro conjI impI allI)
  assume full: "int (length (cache_data c)) = cache_max c"
  have c: "map_ok (cache_data c)" "0 < cache_max c" "set (cache_order c) = fst ` set (cache_data c)"
    using assms(1) by (simp_all add: cache_inv_def)
  obtain k ks where ks: "cache_order c = k # ks"
    using cache_inv_order [OF assms(1)] full c(2) by (cases "cache_order c") auto
  have "length (AList.delete k (cache_data c)) = length (cache_data c) - 1"
    using c(1,3) ks by (intro length_delete) auto
  then have "int (length (AList.delete k (cache_data c))) < cache_max c" using full c(2) by simp
  then have "evict_loop (cache_max c) (AList.delete k (cache_data c)) ks = (AList.delete k (cache_data c), ks)"
    by (cases ks) simp_all
  then have "evict_loop (cache_max c) (cache_data c) (cache_order c) = (AList.delete k (cache_data c), ks)"
    using full by (simp add: ks)
  then show "map_of (cache_data (cache_put c i b)) = ((map_of (cache_data c))(hd (cache_order c) := None))(i \<mapsto> b)"
    "cache_order (cache_put c i b) = tl (cache_order c) @ [i]"
    by (simp_all add: cache_put_def ks update_conv' delete_conv')
next
  assume room: "int (length (cache_data c)) < cache_max c"
  then have "evict_loop (cache_max c) (cache_data c) (cache_order c) = (cache_data c, cache_order c)"
    by (cases "cache_order c") simp_all
  then show "map_of (cache_data (cache_put c i b)) = (map_of (cache_data c))(i \<mapsto> b)"
    "cache_order (cache_put c i b) = cache_order c @ [i]"
    by (simp_all add: cache_put_def update_conv')
next
  fix j b' assume j: "map_of (cache_data c) j = Some b'"
  then have "j \<in> fst ` set (cache_data c)" by (metis domI dom_map_of_conv_image_fst)
  then have "j \<in> set (cache_order c)" using assms(1) by (simp add: cache_inv_def)
  with j show "snd (cache_get c j) = Some b'"
    "cache_order (fst (cache_get c j)) = remove1 j (cache_order c) @ [j]"
    by (simp_all add: cache_get_def move_to_end_eq)
qed

theorem cache_lru_witness:
  "let c = cache_put (cache_put (newBlockCache 2) 7 (Block [1] 1)) 8 (Block [2] 1) in
   map_of (cache_data (cache_put c 9 (Block [3] 1))) =
     ((map_of (cache_data c))(hd (cache_order c) := None))(9 \<mapsto> Block [3] 1) \<and>
   cache_order (cache_put c 9 (Block [3] 1)) = [8, 9]"
proof -
  define c where "c = cache_put (cache_put (newBlockCache 2) 7 (Block [1] 1)) 8 (Block [2] 1)"
  have c: "cache_data c = [(7, Block [1] 1), (8, Block [2] 1)]" "cache_order c = [7, 8]" "cache_max c = 2"
    by (simp_all add: c_def cache_put_def newBlockCache_def)
  have "cache_inv c" unfolding cache_inv_def c by (simp add: map_ok_def)
  moreover have "map_of (cache_data c) 9 = None" unfolding c by simp
  ultimately show ?thesis
    using cache_lru [of c 9 "Block [3] 1"] unfolding Let_def c_def [symmetric] c by simp
qed

end
