(* ===== verification/GoPath.thy ===== *)
theory GoPath
  imports GoRuntime "HOL-Library.Sublist"
begin

text \<open>
  The functions of \<^verbatim>\<open>strings\<close> and \<^verbatim>\<open>path/filepath\<close> (on Unix) that the program calls. A Go string is a
  sequence of bytes, so it is an Isabelle \<^typ>\<open>string\<close> here; \<^verbatim>\<open>strings.ToLower\<close> is given for ASCII,
  which is all the extensions compared with it contain.
\<close>

section \<open>Strings\<close>

definition sep :: char where "sep = CHR ''/''"

definition lower_char :: "char \<Rightarrow> char" where
  "lower_char c = (let n = of_char c :: nat in if 65 \<le> n \<and> n \<le> 90 then char_of (n + 32) else c)"

definition ToLower :: "string \<Rightarrow> string" where
  "ToLower s = map lower_char s"

definition TrimLeft :: "string \<Rightarrow> string \<Rightarrow> string" where
  "TrimLeft s cutset = dropWhile (\<lambda>c. c \<in> set cutset) s"

definition ReplaceChar :: "string \<Rightarrow> char \<Rightarrow> char \<Rightarrow> string" where
  "ReplaceChar s old new = map (\<lambda>c. if c = old then new else c) s"

definition HasPrefix :: "string \<Rightarrow> string \<Rightarrow> bool" where
  "HasPrefix s p = (take (length p) s = p)"

definition HasSuffix :: "string \<Rightarrow> string \<Rightarrow> bool" where
  "HasSuffix s p = (length p \<le> length s \<and> drop (length s - length p) s = p)"

definition TrimSuffix :: "string \<Rightarrow> string \<Rightarrow> string" where
  "TrimSuffix s p = (if HasSuffix s p then take (length s - length p) s else s)"

section \<open>Paths\<close>

fun split_path :: "string \<Rightarrow> string list" where
  "split_path [] = [[]]"
| "split_path (c # cs) =
     (case split_path cs of
        [] \<Rightarrow> [[c]]
      | x # xs \<Rightarrow> if c = sep then [] # x # xs else (c # x) # xs)"

fun join_path :: "string list \<Rightarrow> string" where
  "join_path [] = []"
| "join_path [x] = x"
| "join_path (x # xs) = x @ [sep] @ join_path xs"

text \<open>
  The lexical rules of \<^verbatim>\<open>filepath.Clean\<close>, one component at a time on the stack of the components
  kept so far, the last one first.
\<close>

definition clean_step :: "bool \<Rightarrow> string \<Rightarrow> string list \<Rightarrow> string list" where
  "clean_step rooted x stack =
     (if x = [] \<or> x = ''.'' then stack
      else if x = ''..'' then
        (case stack of
           [] \<Rightarrow> if rooted then [] else [x]
         | y # ys \<Rightarrow> if y = ''..'' then x # stack else ys)
      else x # stack)"

definition clean_comps :: "bool \<Rightarrow> string list \<Rightarrow> string list" where
  "clean_comps rooted xs = rev (fold (clean_step rooted) xs [])"

definition IsAbs :: "string \<Rightarrow> bool" where
  "IsAbs p = (p \<noteq> [] \<and> hd p = sep)"

definition Clean :: "string \<Rightarrow> string" where
  "Clean p =
     (if p = [] then ''.''
      else if IsAbs p then sep # join_path (clean_comps True (split_path p))
      else let xs = clean_comps False (split_path p) in if xs = [] then ''.'' else join_path xs)"

definition Join :: "string \<Rightarrow> string \<Rightarrow> string" where
  "Join a b =
     (if a \<noteq> [] then Clean (a @ [sep] @ b) else if b \<noteq> [] then Clean b else [])"

definition Ext :: "string \<Rightarrow> string" where
  "Ext p =
     (let x = last (split_path p) in
      if CHR ''.'' \<in> set x then CHR ''.'' # rev (takeWhile (\<lambda>c. c \<noteq> CHR ''.'') (rev x)) else [])"

definition Base :: "string \<Rightarrow> string" where
  "Base p =
     (if p = [] then ''.''
      else let x = last (split_path (rev (dropWhile (\<lambda>c. c = sep) (rev p)))) in
        if x = [] then [sep] else x)"

definition Dir :: "string \<Rightarrow> string" where
  "Dir p = Clean (take (length p - length (last (split_path p))) p)"

section \<open>Components\<close>

lemma split_path_ne [simp]: "split_path s \<noteq> []"
  by (cases s) (auto split: list.split)

lemma join_split [simp]: "join_path (split_path s) = s"
proof (induction s)
  case (Cons c cs)
  then show ?case by (cases "split_path cs"; cases "tl (split_path cs)") (auto split: list.split)
qed simp

lemma split_path_no_sep: "x \<in> set (split_path s) \<Longrightarrow> sep \<notin> set x"
  by (induction s arbitrary: x) (auto split: list.splits if_splits)

lemma split_path_append_sep: "split_path (a @ sep # b) = split_path a @ split_path b"
proof (induction a)
  case Nil
  then show ?case by (cases "split_path b") simp_all
next
  case (Cons c cs)
  then show ?case by (cases "split_path cs") (simp_all split: list.split)
qed

lemma split_path_single: "sep \<notin> set x \<Longrightarrow> split_path x = [x]"
  by (induction x) auto

lemma split_join: "xs \<noteq> [] \<Longrightarrow> (\<And>x. x \<in> set xs \<Longrightarrow> sep \<notin> set x) \<Longrightarrow> split_path (join_path xs) = xs"
proof (induction xs rule: join_path.induct)
  case (3 x y ys)
  then show ?case by (simp add: split_path_append_sep split_path_single)
qed (auto simp: split_path_single)

end
