(* ===== verification/BlockReader.thy ===== *)
theory BlockReader
  imports BlockCache GoPath
begin

text \<open>
  What the three compressed formats have in common: the information they report
  (\<^verbatim>\<open>internal/fs/compression/common/common.go\<close>), the codecs they call, and the contract of the
  \<^verbatim>\<open>BlockReader\<close> interface of \<^verbatim>\<open>compression.go\<close> as a locale. The decompressors themselves
  (\<^verbatim>\<open>compress/flate\<close>, \<^verbatim>\<open>compress/zlib\<close>, \<^verbatim>\<open>lz4\<close> and \<^verbatim>\<open>libchdr\<close>) are parameters.
\<close>

section \<open>Common parts\<close>

record CompressedInfo =
  ci_modTime :: go_time
  ci_name :: string
  ci_size :: int

definition NewCompressedInfo :: "string \<Rightarrow> int \<Rightarrow> go_time \<Rightarrow> CompressedInfo" where
  "NewCompressedInfo name sz modTime = \<lparr>ci_modTime = modTime, ci_name = name, ci_size = sz\<rparr>"

text \<open>Its \<^verbatim>\<open>os.FileInfo\<close> methods: mode 0 is a regular file.\<close>

definition CompressedInfo_FileInfo :: "CompressedInfo \<Rightarrow> FileInfo" where
  "CompressedInfo_FileInfo c =
     \<lparr>fi_name = ci_name c, fi_size = ci_size c, fi_mode = ModeRegular, fi_modTime = ci_modTime c\<rparr>"

text \<open>
  An open file: its contents, which nobody changes while it is open, its name and its
  modification time, if \<^verbatim>\<open>Stat\<close> succeeds.
\<close>

record os_file =
  f_data :: bytes
  f_name :: string
  f_modTime :: "go_time option"

definition modTime_of :: "os_file \<Rightarrow> go_time" where
  "modTime_of f = (case f_modTime f of None \<Rightarrow> zero_time | Some t \<Rightarrow> t)"

text \<open>
  The decompressors. \<open>inflate\<close> and \<open>zlib_inflate\<close> give the whole output of a stream, or nothing on
  an error; \<open>lz4_block\<close> gives the destination array and the number of bytes written, for a zeroed
  destination of the given size; \<open>chd_open\<close> gives the return code of libchdr for a path and
  \<open>chd_read\<close> the bytes written to the hunk buffer. \<open>chd_Available\<close> says whether the program is
  built with libchdr.
\<close>

record codecs =
  inflate :: "bytes \<Rightarrow> bytes option"
  zlib_inflate :: "bytes \<Rightarrow> bytes option"
  lz4_block :: "bytes \<Rightarrow> nat \<Rightarrow> (bytes \<times> nat) option"
  chd_Available :: bool
  chd_open :: "string \<Rightarrow> int"
  chd_read :: "string \<Rightarrow> int \<Rightarrow> bytes option"

text \<open>\<^verbatim>\<open>offsets[i]\<close> read from the block map as little-endian words.\<close>

fun words32 :: "nat \<Rightarrow> bytes \<Rightarrow> u32 list option" where
  "words32 0 b = Some []"
| "words32 (Suc n) b = do {
     s \<leftarrow> go_slice b 0 4; w \<leftarrow> Uint32 s; rest \<leftarrow> go_slice b 4 (length b); ws \<leftarrow> words32 n rest; Some (w # ws)
   }"

lemma words32_some: "4 * n \<le> length b \<Longrightarrow> \<exists>ws. words32 n b = Some ws \<and> length ws = n"
proof (induction n arbitrary: b)
  case (Suc n)
  obtain w where "Uint32 (take 4 b) = Some w" using Suc.prems Uint32_Some [of "take 4 b"] by auto
  moreover obtain ws where "words32 n (drop 4 b) = Some ws" "length ws = n"
    using Suc.IH [of "drop 4 b"] Suc.prems by fastforce
  ultimately show ?case using Suc.prems by (simp add: go_slice_def)
qed simp

lemma words32_le32: "words32 (length ws) (concat (map le32 ws) @ rest) = Some ws"
  by (induction ws) (simp_all add: go_slice_def)

lemma length_concat_le32 [simp]: "length (concat (map le32 ws)) = 4 * length ws"
  by (induction ws) simp_all

text \<open>\<^verbatim>\<open>int64(x & 0x7FFFFFFF) << align\<close>\<close>

definition shifted_offset :: "u32 \<Rightarrow> u8 \<Rightarrow> int" where
  "shifted_offset x align = int64 (uint (x AND 0x7FFFFFFF) * 2 ^ unat align)"

lemma shifted_offset_range: "- (2 ^ 63) \<le> shifted_offset x a" "shifted_offset x a < 2 ^ 63"
  unfolding shifted_offset_def by (rule int64_range)+

text \<open>\<^verbatim>\<open>copy(out, src)\<close> into a zeroed array of length \<open>n\<close>.\<close>

definition zero_copy :: "nat \<Rightarrow> bytes \<Rightarrow> bytes" where
  "zero_copy n src = take n src @ replicate (n - length src) 0"

lemma length_zero_copy [simp]: "length (zero_copy n src) = n"
  by (simp add: zero_copy_def)

lemma zero_copy_id: "length src = n \<Longrightarrow> zero_copy n src = src"
  by (simp add: zero_copy_def)

lemma take_zero_copy: "k \<le> n \<Longrightarrow> k \<le> length src \<Longrightarrow> take k (zero_copy n src) = take k src"
  by (simp add: zero_copy_def min_absorb1)

section \<open>Images\<close>

text \<open>The bytes of block \<open>i\<close> of an image; the last block may be short.\<close>

definition image_block :: "bytes \<Rightarrow> int \<Rightarrow> int \<Rightarrow> bytes" where
  "image_block img bs i = take (nat bs) (drop (nat (i * bs)) img)"

definition blocks_of :: "int \<Rightarrow> int \<Rightarrow> int" where
  "blocks_of sz bs = (sz + bs - 1) div bs"

lemma blocks_of_bounds:
  assumes "0 < bs" "0 \<le> sz"
  shows "sz \<le> blocks_of sz bs * bs" "blocks_of sz bs * bs < sz + bs" "0 \<le> blocks_of sz bs"
proof -
  have "(sz + bs - 1) div bs * bs + (sz + bs - 1) mod bs = sz + bs - 1" by simp
  moreover have "0 \<le> (sz + bs - 1) mod bs" "(sz + bs - 1) mod bs < bs" using assms(1) by simp_all
  ultimately show "sz \<le> blocks_of sz bs * bs" "blocks_of sz bs * bs < sz + bs"
    unfolding blocks_of_def by linarith+
  show "0 \<le> blocks_of sz bs"
    unfolding blocks_of_def using assms by (simp add: pos_imp_zdiv_nonneg_iff)
qed

lemma image_block_length: "length (image_block img bs i) \<le> nat bs"
  by (simp add: image_block_def)

lemma take_eq_length: "take (length xs) ys = xs \<Longrightarrow> length xs \<le> length ys"
  by (metis length_take min.cobounded1)

lemma blocks_of_le: "0 < bs \<Longrightarrow> 0 \<le> n \<Longrightarrow> blocks_of n bs \<le> n"
proof -
  assume a: "0 < bs" "0 \<le> n"
  have "(n + bs - 1) div bs \<le> n"
  proof (cases "n = 0")
    case False
    then have "0 \<le> (n - 1) * (bs - 1)" using a by simp
    then have "n + bs - 1 \<le> n * bs" by (simp add: algebra_simps)
    then show ?thesis using a zdiv_mono1 [of "n + bs - 1" "n * bs" bs] by simp
  qed (use a in simp)
  then show ?thesis by (simp add: blocks_of_def)
qed

lemma blocks_of_mult: "0 < bs \<Longrightarrow> blocks_of (n * bs) bs = n"
  unfolding blocks_of_def by (subst add_diff_eq [symmetric], subst add.commute) simp

text \<open>
  The contract of a block reader that stands for an image: every block can be read, the array
  behind the slice is at least one block long, and it starts with the block's bytes.
\<close>

definition block_matches :: "block \<Rightarrow> bytes \<Rightarrow> int \<Rightarrow> int \<Rightarrow> bool" where
  "block_matches b img bs i \<longleftrightarrow> nat bs \<le> length (blk_arr b) \<and>
     take (length (image_block img bs i)) (blk_arr b) = image_block img bs i"

locale block_reader =
  fixes ReadBlock :: "'r \<Rightarrow> int \<Rightarrow> (go_error + block) option"
    and BlockSize :: "'r \<Rightarrow> int"
    and NumBlocks :: "'r \<Rightarrow> int"
    and UncompressedSize :: "'r \<Rightarrow> int"
    and represents :: "'r \<Rightarrow> bytes \<Rightarrow> bool"
  assumes blockSize_pos: "represents r img \<Longrightarrow> 0 < BlockSize r"
    and size_eq: "represents r img \<Longrightarrow> UncompressedSize r = int (length img)"
    and numBlocks_eq: "represents r img \<Longrightarrow> NumBlocks r = blocks_of (int (length img)) (BlockSize r)"
    and read_block: "represents r img \<Longrightarrow> 0 \<le> i \<Longrightarrow> i < NumBlocks r \<Longrightarrow>
       \<exists>b. ReadBlock r i = Some (Inr b) \<and> block_matches b img (BlockSize r) i"
begin

text \<open>The block that holds a position, and how much of it is image.\<close>

lemma block_of_pos:
  assumes "represents r img" "0 \<le> pos" "pos < int (length img)"
  shows "0 \<le> pos div BlockSize r" "pos div BlockSize r < NumBlocks r"
    "length (image_block img (BlockSize r) (pos div BlockSize r)) =
       (if pos div BlockSize r = NumBlocks r - 1 \<and> int (length img) mod BlockSize r \<noteq> 0
        then nat (int (length img) mod BlockSize r) else nat (BlockSize r))"
proof -
  let ?bs = "BlockSize r" and ?i = "pos div BlockSize r" and ?n = "int (length img)"
  have bs: "0 < ?bs" using assms(1) by (rule blockSize_pos)
  show i0: "0 \<le> ?i" using assms(2) bs by (simp add: pos_imp_zdiv_nonneg_iff)
  have "?i * ?bs + pos mod ?bs = pos" "0 \<le> pos mod ?bs" using bs by simp_all
  then have le: "?i * ?bs \<le> pos" by linarith
  note nb = blocks_of_bounds [OF bs of_nat_0_le_iff, of "length img"] numBlocks_eq [OF assms(1)]
  have "?i * ?bs < NumBlocks r * ?bs" unfolding nb(4) using nb(1) le assms(3) by linarith
  then show lt: "?i < NumBlocks r" using bs by (simp only: mult_less_cancel_right)
  have len: "length (image_block img ?bs ?i) = min (nat ?bs) (length img - nat (?i * ?bs))"
    by (simp add: image_block_def)
  have L: "length img - nat (?i * ?bs) = nat (?n - ?i * ?bs)" using i0 bs by (simp add: nat_diff_distrib')
  show "length (image_block img ?bs ?i) =
     (if ?i = NumBlocks r - 1 \<and> ?n mod ?bs \<noteq> 0 then nat (?n mod ?bs) else nat ?bs)"
  proof (cases "?i = NumBlocks r - 1")
    case True
    then have "NumBlocks r = ?i + 1" by simp
    then have "NumBlocks r * ?bs = ?i * ?bs + ?bs" by (simp only: distrib_right mult_1)
    then have r: "0 < ?n - ?i * ?bs" "?n - ?i * ?bs \<le> ?bs"
      using nb(1) [folded nb(4)] le assms(3) by linarith+
    have m: "?n mod ?bs = (?n - ?i * ?bs) mod ?bs" by (metis add.commute diff_add_cancel mod_mult_self1)
    show ?thesis
    proof (cases "?n - ?i * ?bs = ?bs")
      case True
      then have "?n mod ?bs = 0" unfolding m by simp
      then show ?thesis unfolding len L True by simp
    next
      case less: False
      then have "?n mod ?bs = ?n - ?i * ?bs" unfolding m using r by (intro mod_pos_pos_trivial) simp_all
      moreover have "min (nat ?bs) (nat (?n - ?i * ?bs)) = nat (?n - ?i * ?bs)"
        using nat_mono [OF r(2)] by (rule min_absorb2)
      ultimately show ?thesis using True r(1) unfolding len L by simp
    qed
  next
    case False
    then have "?i + 2 \<le> NumBlocks r" using lt by simp
    then have "(?i + 2) * ?bs \<le> NumBlocks r * ?bs" using bs by (simp add: mult_right_mono)
    then have "?i * ?bs + ?bs + ?bs \<le> NumBlocks r * ?bs" by (simp add: algebra_simps)
    then have "?i * ?bs + ?bs \<le> ?n" using nb(2,4) by simp
    then have "?bs \<le> ?n - ?i * ?bs" by simp
    then have "min (nat ?bs) (nat (?n - ?i * ?bs)) = nat ?bs" by (intro min_absorb1 nat_mono)
    then show ?thesis using False unfolding len L by simp
  qed
qed

end

end
