(* ===== verification/CachedReader.thy ===== *)
theory CachedReader
  imports BlockReader
begin

text \<open>
  The cached reader over a block reader (\<^verbatim>\<open>internal/fs/compression/reader.go\<close>). The methods of the
  \<^verbatim>\<open>BlockReader\<close> interface are an argument; what is proved here holds for every reader that meets
  the contract \<open>block_reader\<close>.
\<close>

section \<open>The reader\<close>

record 'r CachedReader =
  cr_br :: 'r
  cr_info :: FileInfo
  cr_cache :: blockCache
  cr_blockSize :: int
  cr_numBlocks :: int
  cr_size :: int
  cr_pos :: int

definition NewCachedReader :: "('r \<Rightarrow> int) \<Rightarrow> ('r \<Rightarrow> int) \<Rightarrow> ('r \<Rightarrow> int) \<Rightarrow>
    'r \<Rightarrow> int \<Rightarrow> FileInfo \<Rightarrow> 'r CachedReader" where
  "NewCachedReader BlockSize NumBlocks UncompressedSize br cacheSize info =
     (let cacheSize = (if cacheSize \<le> 0 then 32 else cacheSize)
      in \<lparr>cr_br = br, cr_info = info, cr_cache = newBlockCache cacheSize, cr_blockSize = BlockSize br,
          cr_numBlocks = NumBlocks br, cr_size = UncompressedSize br, cr_pos = 0\<rparr>)"

definition getBlock :: "('r \<Rightarrow> int \<Rightarrow> (go_error + block) option) \<Rightarrow> 'r CachedReader \<Rightarrow> int \<Rightarrow>
    ('r CachedReader \<times> (go_error + block)) option" where
  "getBlock ReadBlock c blockIdx =
     (let (cache, hit) = cache_get (cr_cache c) blockIdx;
          c = c\<lparr>cr_cache := cache\<rparr>
      in case hit of
           Some b \<Rightarrow> Some (c, Inr b)
         | None \<Rightarrow>
             (case ReadBlock (cr_br c) blockIdx of
                None \<Rightarrow> None
              | Some (Inl e) \<Rightarrow> Some (c, Inl e)
              | Some (Inr b) \<Rightarrow> Some (c\<lparr>cr_cache := cache_put (cr_cache c) blockIdx b\<rparr>, Inr b)))"

text \<open>
  The loop of \<^verbatim>\<open>Read\<close>: \<open>n\<close> is the length of the rest of the caller's buffer and \<open>acc\<close> what has been
  copied into it.
\<close>

function Read_loop :: "('r \<Rightarrow> int \<Rightarrow> (go_error + block) option) \<Rightarrow> 'r CachedReader \<Rightarrow> nat \<Rightarrow> bytes \<Rightarrow>
    ('r CachedReader \<times> bytes \<times> go_error option) option" where
  "Read_loop ReadBlock c n acc =
     (if 0 < n \<and> cr_pos c < cr_size c then
        if cr_blockSize c = 0 then None
        else
          let blockIdx = go_quot (cr_pos c) (cr_blockSize c);
              offsetInBlock = go_rem (cr_pos c) (cr_blockSize c);
              lastBlockSize =
                (if blockIdx = cr_numBlocks c - 1 \<and> go_rem (cr_size c) (cr_blockSize c) \<noteq> 0
                 then go_rem (cr_size c) (cr_blockSize c) else cr_blockSize c);
              avail = lastBlockSize - offsetInBlock
          in if avail \<le> 0 then Some (c, acc, None)
             else
               let toRead = (if avail < int n then nat avail else n)
               in case getBlock ReadBlock c blockIdx of
                    None \<Rightarrow> None
                  | Some (c, Inl e) \<Rightarrow> Some (c, acc, Some e)
                  | Some (c, Inr b) \<Rightarrow>
                      (case go_slice_int (blk_arr b) offsetInBlock (offsetInBlock + int toRead) of
                         None \<Rightarrow> None
                       | Some chunk \<Rightarrow>
                           Read_loop ReadBlock (c\<lparr>cr_pos := cr_pos c + int toRead\<rparr>) (n - toRead) (acc @ chunk))
      else Some (c, acc, None))"
  by pat_completeness auto

termination Read_loop
  by (relation "measure (\<lambda>(rb, c, n, acc). n)") (auto simp: Let_def split: if_splits)

declare Read_loop.simps [simp del]

definition CachedReader_Read :: "('r \<Rightarrow> int \<Rightarrow> (go_error + block) option) \<Rightarrow> 'r CachedReader \<Rightarrow> nat \<Rightarrow>
    ('r CachedReader \<times> bytes \<times> go_error option) option" where
  "CachedReader_Read ReadBlock c n =
     (if cr_size c \<le> cr_pos c then Some (c, [], Some EOF)
      else
        let remaining = cr_size c - cr_pos c;
            n = (if remaining < int n then nat remaining else n)
        in Read_loop ReadBlock c n [])"

definition CachedReader_Write :: "'r CachedReader \<Rightarrow> bytes \<Rightarrow> 'r CachedReader \<times> int \<times> go_error option" where
  "CachedReader_Write c p = (c, 0, None)"

definition CachedReader_Seek :: "'r CachedReader \<Rightarrow> int \<Rightarrow> int \<Rightarrow> 'r CachedReader \<times> int \<times> go_error option" where
  "CachedReader_Seek c offset whence =
     (if whence \<in> {0, 1, 2} then
        let c = c\<lparr>cr_pos := (if whence = 0 then offset
                             else if whence = 1 then int64 (cr_pos c + offset)
                             else int64 (cr_size c + offset))\<rparr>;
            c = (if cr_pos c < 0 then c\<lparr>cr_pos := 0\<rparr> else c);
            c = (if cr_size c < cr_pos c then c\<lparr>cr_pos := cr_size c\<rparr> else c)
        in (c, cr_pos c, None)
      else (c, cr_pos c, Some FormatError))"

definition CachedReader_Stat :: "'r CachedReader \<Rightarrow> FileInfo" where
  "CachedReader_Stat c = cr_info c"

definition CachedReader_Name :: "'r CachedReader \<Rightarrow> string" where
  "CachedReader_Name c = fi_name (cr_info c)"

section \<open>Reading returns the image\<close>

definition source_of :: "('r \<Rightarrow> int \<Rightarrow> (go_error + block) option) \<Rightarrow> 'r \<Rightarrow> int \<Rightarrow> block option" where
  "source_of ReadBlock br i = (case ReadBlock br i of Some (Inr b) \<Rightarrow> Some b | _ \<Rightarrow> None)"

lemma take_drop_chunk:
  "k \<le> n \<Longrightarrow> take k (drop p xs) @ take (n - k) (drop (p + k) xs) = take n (drop p xs)"
  by (metis add.commute drop_drop le_add_diff_inverse take_add)

context block_reader
begin

definition reader_ok :: "'r CachedReader \<Rightarrow> bytes \<Rightarrow> bool" where
  "reader_ok c img \<longleftrightarrow> represents (cr_br c) img \<and> cr_blockSize c = BlockSize (cr_br c) \<and>
     cr_numBlocks c = NumBlocks (cr_br c) \<and> cr_size c = int (length img) \<and>
     0 \<le> cr_pos c \<and> cr_pos c \<le> cr_size c \<and>
     lru.coherent (source_of ReadBlock (cr_br c)) (cr_cache c)"

lemma reader_ok_new:
  "represents br img \<Longrightarrow>
   reader_ok (NewCachedReader BlockSize NumBlocks UncompressedSize br cacheSize info) img"
  by (auto simp: reader_ok_def NewCachedReader_def newBlockCache_def lru.coherent_def cache_inv_def size_eq)

lemma getBlock_ok:
  assumes ok: "reader_ok c img" and i: "0 \<le> i" "i < NumBlocks (cr_br c)"
  shows "\<exists>cache b. getBlock ReadBlock c i = Some (c\<lparr>cr_cache := cache\<rparr>, Inr b) \<and>
    reader_ok (c\<lparr>cr_cache := cache\<rparr>) img \<and> block_matches b img (BlockSize (cr_br c)) i"
proof -
  have rep: "represents (cr_br c) img" and coh: "lru.coherent (source_of ReadBlock (cr_br c)) (cr_cache c)"
    using ok by (simp_all add: reader_ok_def)
  obtain b where b: "ReadBlock (cr_br c) i = Some (Inr b)" "block_matches b img (BlockSize (cr_br c)) i"
    using read_block [OF rep i] by blast
  then have src: "source_of ReadBlock (cr_br c) i = Some b" by (simp add: source_of_def)
  obtain cache hit where g: "cache_get (cr_cache c) i = (cache, hit)" by fastforce
  show ?thesis
  proof (cases hit)
    case None
    then have "lru.coherent (source_of ReadBlock (cr_br c)) (cache_put cache i b)"
      using lru.coherent_miss [OF coh] lru.coherent_put src g by metis
    then show ?thesis
      using ok b g None
      by (intro exI [of _ "cache_put cache i b"] exI [of _ b]) (simp add: getBlock_def reader_ok_def)
  next
    case (Some b')
    then have "b' = b" "lru.coherent (source_of ReadBlock (cr_br c)) cache"
      using lru.coherent_hit [OF coh] src g by (metis option.inject)+
    then show ?thesis using ok b g Some
      by (intro exI [of _ cache] exI [of _ b]) (simp add: getBlock_def reader_ok_def)
  qed
qed

lemma image_chunk:
  assumes "0 < bs" "0 \<le> pos" "pos mod bs + int k \<le> int (length (image_block img bs (pos div bs)))"
    and "take (length (image_block img bs (pos div bs))) arr = image_block img bs (pos div bs)"
  shows "take k (drop (nat (pos mod bs)) arr) = take k (drop (nat pos) img)"
proof -
  let ?o = "nat (pos mod bs)" and ?blk = "image_block img bs (pos div bs)"
  have "int ?o = pos mod bs" using assms(1) by simp
  with assms(3) have le: "?o + k \<le> length ?blk" by linarith
  have "take k (drop ?o arr) = take k (drop ?o (take (length ?blk) arr))"
    using le by (simp add: drop_take)
  also have "\<dots> = take k (drop ?o (take (nat bs) (drop (nat (pos div bs * bs)) img)))"
    unfolding assms(4) by (simp add: image_block_def)
  also have "\<dots> = take (min k (nat bs - ?o)) (drop (?o + nat (pos div bs * bs)) img)"
    by (simp add: drop_take)
  also have "min k (nat bs - ?o) = k"
  proof (rule min_absorb1)
    have "k + ?o \<le> nat bs" using le by (simp add: image_block_def add.commute)
    then show "k \<le> nat bs - ?o" by (rule add_le_imp_le_diff)
  qed
  also have "?o + nat (pos div bs * bs) = nat pos"
    using assms(1,2) by (simp add: pos_imp_zdiv_nonneg_iff flip: nat_add_distrib)
  finally show ?thesis .
qed

lemma Read_loop_ok:
  assumes "reader_ok c img" "int n \<le> cr_size c - cr_pos c"
  shows "\<exists>c'. Read_loop ReadBlock c n acc = Some (c', acc @ take n (drop (nat (cr_pos c)) img), None) \<and>
    reader_ok c' img \<and> cr_pos c' = cr_pos c + int n"
  using assms
proof (induction n arbitrary: c acc rule: less_induct)
  case (less n)
  let ?bs = "cr_blockSize c" and ?pos = "cr_pos c"
  have rep: "represents (cr_br c) img" and f: "?bs = BlockSize (cr_br c)"
    "cr_numBlocks c = NumBlocks (cr_br c)" "cr_size c = int (length img)" "0 \<le> ?pos"
    using less.prems(1) by (simp_all add: reader_ok_def)
  have bs: "0 < ?bs" using blockSize_pos [OF rep] f by simp
  show ?case
  proof (cases "n = 0")
    case True
    then show ?thesis using less.prems(1) by (subst Read_loop.simps) simp
  next
    case False
    then have pos: "?pos < int (length img)" "?pos < cr_size c" using less.prems(2) f(3) by linarith+
    define i where "i = ?pos div ?bs"
    define L where "L = length (image_block img ?bs i)"
    note bp = block_of_pos [OF rep f(4) pos(1), folded f(1,2,3), folded i_def L_def]
    have last: "(if i = cr_numBlocks c - 1 \<and> go_rem (cr_size c) ?bs \<noteq> 0
        then go_rem (cr_size c) ?bs else ?bs) = int L"
      using bs f(3) bp(3) by (auto simp: go_rem_nonneg L_def)
    have "i * ?bs + ?pos mod ?bs = ?pos" "?pos mod ?bs < ?bs" "0 \<le> ?pos mod ?bs" using bs by (simp_all add: i_def)
    moreover have "L = min (nat ?bs) (length img - nat (i * ?bs))" by (simp add: L_def image_block_def)
    moreover have "0 \<le> i * ?bs" using bp(1) bs by simp
    ultimately have avail: "?pos mod ?bs < int L" using pos(1) by (simp add: min_def) linarith
    define k where "k = (if int L - ?pos mod ?bs < int n then nat (int L - ?pos mod ?bs) else n)"
    have k: "0 < k" "k \<le> n" "?pos mod ?bs + int k \<le> int L" using avail False by (auto simp: k_def)
    obtain cache b where g: "getBlock ReadBlock c i = Some (c\<lparr>cr_cache := cache\<rparr>, Inr b)"
      "reader_ok (c\<lparr>cr_cache := cache\<rparr>) img" "block_matches b img ?bs i"
      using getBlock_ok [OF less.prems(1) bp(1)] bp(2) f(1,2) by auto
    have arr: "nat ?bs \<le> length (blk_arr b)" "take L (blk_arr b) = image_block img ?bs i"
      using g(3) by (simp_all add: block_matches_def L_def)
    have "L \<le> nat ?bs" by (simp add: L_def image_block_def)
    then have "?pos mod ?bs + int k \<le> int (length (blk_arr b))" using k(3) arr(1) by linarith
    then have sl: "go_slice_int (blk_arr b) (?pos mod ?bs) (?pos mod ?bs + int k) =
        Some (take k (drop (nat ?pos) img))"
      using image_chunk [OF bs f(4), of k img "blk_arr b"] k(3) arr(2) \<open>0 \<le> ?pos mod ?bs\<close>
      by (simp add: go_slice_int_def go_slice_def i_def L_def nat_add_distrib nat_le_iff)
    let ?c = "c\<lparr>cr_cache := cache, cr_pos := ?pos + int k\<rparr>"
    have ok: "reader_ok ?c img" using g(2) k less.prems(2) by (simp add: reader_ok_def)
    have step: "Read_loop ReadBlock c n acc =
        Read_loop ReadBlock ?c (n - k) (acc @ take k (drop (nat ?pos) img))"
    proof -
      have q: "go_quot ?pos ?bs = i" "go_rem ?pos ?bs = ?pos mod ?bs"
        using bs f(4) by (simp_all add: go_quot_nonneg go_rem_nonneg i_def)
      show ?thesis
        using False pos(2) bs avail
        by (subst Read_loop.simps, unfold Let_def q last k_def [symmetric]) (simp add: g(1) sl)
    qed
    have "\<exists>c'. Read_loop ReadBlock ?c (n - k) (acc @ take k (drop (nat ?pos) img)) =
        Some (c', (acc @ take k (drop (nat ?pos) img)) @ take (n - k) (drop (nat (cr_pos ?c)) img), None) \<and>
        reader_ok c' img \<and> cr_pos c' = cr_pos ?c + int (n - k)"
      using k less.prems(2) by (intro less.IH ok) simp_all
    moreover have "take k (drop (nat ?pos) img) @ take (n - k) (drop (nat (?pos + int k)) img) =
        take n (drop (nat ?pos) img)"
      using k(2) f(4) by (simp add: nat_add_distrib take_drop_chunk)
    ultimately show ?thesis unfolding step using k(2) by (auto simp: of_nat_diff)
  qed
qed

lemma Read_ok:
  assumes "reader_ok c img" "cr_pos c < cr_size c"
  shows "\<exists>c'. CachedReader_Read ReadBlock c n = Some (c', take n (drop (nat (cr_pos c)) img), None) \<and>
    reader_ok c' img \<and> cr_pos c' = cr_pos c + int (min n (length img - nat (cr_pos c)))"
proof -
  let ?r = "cr_size c - cr_pos c"
  define k where "k = (if ?r < int n then nat ?r else n)"
  have sz: "cr_size c = int (length img)" "0 \<le> cr_pos c" using assms(1) by (simp_all add: reader_ok_def)
  have k: "k = min n (length img - nat (cr_pos c))" using assms(2) sz by (auto simp: k_def min_def)
  have "int k \<le> ?r" using assms(2) by (simp add: k_def)
  from Read_loop_ok [OF assms(1) this, of "[]"] show ?thesis
    using assms(2) unfolding CachedReader_Read_def Let_def k_def [symmetric]
    by (auto simp: k min_def split: if_splits)
qed

lemma Read_eof:
  assumes "reader_ok c img" "cr_pos c = cr_size c"
  shows "CachedReader_Read ReadBlock c n = Some (c, [], Some EOF)"
  using assms by (simp add: CachedReader_Read_def)

lemma Seek_ok:
  assumes "reader_ok c img"
  shows "reader_ok (fst (CachedReader_Seek c offset whence)) img"
  using assms by (auto simp: CachedReader_Seek_def reader_ok_def Let_def)

end

end
