(* ===== verification/ImageSpec.thy ===== *)
theory ImageSpec
  imports BlockReader
begin

text \<open>
  The three compressed formats as file formats, independent of the code that reads them: which
  files stand for which image. A block map entry holds a position and, in its top bit, whether the
  block is stored plain; the blocks of a CD image in CHD are sectors of which only the user data
  belong to the image. The readers of the following theories are proved against these.
\<close>

section \<open>Block maps\<close>

definition stored_plain :: "u32 \<Rightarrow> bool" where
  "stored_plain e \<longleftrightarrow> bit e 31"

definition entry_pos :: "u8 \<Rightarrow> u32 \<Rightarrow> nat" where
  "entry_pos align e = unat (take_bit 31 e) * 2 ^ unat align"

definition bytes_at :: "bytes \<Rightarrow> nat \<Rightarrow> nat \<Rightarrow> bytes" where
  "bytes_at file lo hi = take (hi - lo) (drop lo file)"

definition starts_with :: "bytes \<Rightarrow> bytes \<Rightarrow> bool" where
  "starts_with b start \<longleftrightarrow> take (length start) b = start"

section \<open>CSO\<close>

text \<open>
  24 bytes of header, then one entry per block and one for the end. A plain block takes a whole
  block size in the file; a compressed one ends where the next entry points and is a raw deflate
  stream or, if it is none, a zlib stream.
\<close>

definition cso_layout :: "u64 \<Rightarrow> u32 \<Rightarrow> u8 \<Rightarrow> bytes" where
  "cso_layout sz bs align = [0x43, 0x49, 0x53, 0x4F] @ le32 24 @ le64 sz @ le32 bs @ [1, align, 0, 0]"

definition inflated :: "codecs \<Rightarrow> bytes \<Rightarrow> bytes \<Rightarrow> bool" where
  "inflated K src out \<longleftrightarrow>
     inflate K src = Some out \<or> inflate K src = None \<and> zlib_inflate K src = Some out"

definition cso_block :: "codecs \<Rightarrow> bytes \<Rightarrow> u32 list \<Rightarrow> u8 \<Rightarrow> nat \<Rightarrow> nat \<Rightarrow> bytes \<Rightarrow> bool" where
  "cso_block K file entries align bs i ib =
     (let lo = entry_pos align (entries ! i); hi = entry_pos align (entries ! Suc i) in
      if stored_plain (entries ! i) then lo + bs \<le> length file \<and> starts_with (drop lo file) ib
      else lo \<le> hi \<and> hi \<le> length file \<and> (\<exists>out. inflated K (bytes_at file lo hi) out \<and> starts_with out ib))"

definition cso_image :: "codecs \<Rightarrow> bytes \<Rightarrow> bytes \<Rightarrow> bool" where
  "cso_image K file img \<longleftrightarrow> int (length file) < 2 ^ 63 \<and> int (length img) < 2 ^ 60 \<and>
     (\<exists>bs align entries payload.
       file = cso_layout (of_nat (length img)) bs align @ concat (map le32 entries) @ payload \<and> bs \<noteq> 0 \<and>
       int (length entries) = blocks_of (int (length img)) (uint bs) + 1 \<and>
       (\<forall>i < length entries - 1.
          cso_block K file entries align (unat bs) i (image_block img (uint bs) (int i))))"

section \<open>ZSO and ZISO\<close>

text \<open>
  The documented behaviour of \<^verbatim>\<open>UncompressBlock\<close> the code relies on: it keeps the length of the
  destination and writes no more than fits.
\<close>

definition lz4_ok :: "codecs \<Rightarrow> bool" where
  "lz4_ok K \<longleftrightarrow> (\<forall>src n dst k. lz4_block K src n = Some (dst, k) \<longrightarrow> length dst = n \<and> k \<le> n)"

text \<open>
  A compressed block may be followed by padding: the longest part of it that decompresses counts.
\<close>

definition lz4_padded :: "codecs \<Rightarrow> bytes \<Rightarrow> nat \<Rightarrow> bytes \<Rightarrow> bool" where
  "lz4_padded K stored bs out \<longleftrightarrow>
     (\<exists>packed pad n. stored = packed @ pad \<and> packed \<noteq> [] \<and> lz4_block K packed bs = Some (out, n) \<and>
       (\<forall>j. length packed < j \<and> j \<le> length stored \<longrightarrow> lz4_block K (take j stored) bs = None))"

text \<open>
  The header says where the block map is. A ZISO file has an entry more than blocks and aligned
  positions like CSO. A ZSO file has one entry per block, which is the position itself, so that a
  block cannot be marked as plain; the last block ends with the file.
\<close>

definition zso_layout :: "bool \<Rightarrow> u32 \<Rightarrow> u64 \<Rightarrow> u32 \<Rightarrow> u8 \<Rightarrow> bytes" where
  "zso_layout ziso headerSize sz bs align =
     (if ziso then [0x5A, 0x49, 0x53, 0x4F] else [0x5A, 0x53, 0x4F, 0]) @
     le32 headerSize @ le64 sz @ le32 bs @ [1, align, 0, 0]"

definition ziso_block :: "codecs \<Rightarrow> bytes \<Rightarrow> u32 list \<Rightarrow> u8 \<Rightarrow> nat \<Rightarrow> nat \<Rightarrow> bytes \<Rightarrow> bool" where
  "ziso_block K file entries align bs i ib =
     (let lo = entry_pos align (entries ! i); hi = entry_pos align (entries ! Suc i) in
      lo \<le> hi \<and> hi \<le> length file \<and>
      (if stored_plain (entries ! i) then starts_with (bytes_at file lo hi) ib
       else \<exists>out. lz4_padded K (bytes_at file lo hi) bs out \<and> starts_with out ib))"

definition zso_block :: "codecs \<Rightarrow> bytes \<Rightarrow> u32 list \<Rightarrow> nat \<Rightarrow> nat \<Rightarrow> bytes \<Rightarrow> bool" where
  "zso_block K file entries bs i ib =
     (let lo = unat (entries ! i);
          hi = (if Suc i < length entries then unat (entries ! Suc i) else length file) in
      \<not> stored_plain (entries ! i) \<and> lo \<le> hi \<and> hi \<le> length file \<and>
      (\<exists>out. lz4_padded K (bytes_at file lo hi) bs out \<and> starts_with out ib))"

definition zso_image :: "codecs \<Rightarrow> bytes \<Rightarrow> bytes \<Rightarrow> bool" where
  "zso_image K file img \<longleftrightarrow> lz4_ok K \<and> int (length file) < 2 ^ 63 \<and> int (length img) < 2 ^ 60 \<and>
     (\<exists>ziso hs bs align entries rest before payload.
       file = zso_layout ziso hs (of_nat (length img)) bs align @ rest \<and>
       file = before @ concat (map le32 entries) @ payload \<and> length before = unat hs \<and> bs \<noteq> 0 \<and>
       int (length entries) = blocks_of (int (length img)) (uint bs) + (if ziso then 1 else 0) \<and>
       (\<forall>i < nat (blocks_of (int (length img)) (uint bs)).
          if ziso then ziso_block K file entries align (unat bs) i (image_block img (uint bs) (int i))
          else zso_block K file entries (unat bs) i (image_block img (uint bs) (int i))))"

section \<open>CHD\<close>

definition be32 :: "u32 \<Rightarrow> bytes" where
  "be32 w = rev (le32 w)"

definition be64 :: "u64 \<Rightarrow> bytes" where
  "be64 w = rev (le64 w)"

lemma length_be [simp]: "length (be32 w) = 4" "length (be64 v) = 8"
  by (simp_all add: be32_def be64_def)

lemma Uint_be [simp]: "Uint32_BE (be32 w) = Some w" "Uint64_BE (be64 v) = Some v"
proof -
  have "Uint32_BE b = Uint32 (rev b)" if "length b = 4" for b
    using that by (auto simp: length_Suc_conv eval_nat_numeral)
  then show "Uint32_BE (be32 w) = Some w" by (simp add: be32_def)
  have "Uint64_BE b = Uint64 (rev b)" if "length b = 8" for b
    using that by (auto simp: length_Suc_conv eval_nat_numeral)
  then show "Uint64_BE (be64 v) = Some v" by (simp add: be64_def)
qed

text \<open>
  The 124 bytes of a version 5 header: magic, length, version, four compressors, the size of the
  contents, the positions of the map and of the metadata, the sizes of a hunk and of a unit, and
  three hashes of 20 bytes.
\<close>

definition chd_layout :: "u32 list \<Rightarrow> u64 \<Rightarrow> u64 \<Rightarrow> u64 \<Rightarrow> u32 \<Rightarrow> u32 \<Rightarrow> bytes \<Rightarrow> bytes" where
  "chd_layout compressors logical mapPos metaPos hunk unit hashes =
     [0x4D, 0x43, 0x6F, 0x6D, 0x70, 0x72, 0x48, 0x44] @ be32 124 @ be32 5 @
     concat (map be32 compressors) @ be64 logical @ be64 mapPos @ be64 metaPos @ be32 hunk @ be32 unit @ hashes"

text \<open>
  A sector of 2352 bytes and its 2048 bytes of user data. A sector with the sync pattern has a
  header of four bytes, the last of which is the mode, and in mode 2 another eight bytes of
  subheader; a sector without the pattern holds only the user data.
\<close>

definition sync_pattern :: bytes where
  "sync_pattern = 0 # replicate 10 0xFF @ [0]"

inductive sector_holds :: "bytes \<Rightarrow> bytes \<Rightarrow> bool" where
  mode1: "length addr = 3 \<Longrightarrow> mode \<noteq> 2 \<Longrightarrow> length user = 2048 \<Longrightarrow> length ecc = 288 \<Longrightarrow>
    sector_holds (sync_pattern @ addr @ [mode] @ user @ ecc) user"
| mode2: "length addr = 3 \<Longrightarrow> length sub = 8 \<Longrightarrow> length user = 2048 \<Longrightarrow> length ecc = 280 \<Longrightarrow>
    sector_holds (sync_pattern @ addr @ [2] @ sub @ user @ ecc) user"
| raw: "length user = 2048 \<Longrightarrow> length rest = 304 \<Longrightarrow> take 12 user \<noteq> sync_pattern \<Longrightarrow>
    sector_holds (user @ rest) user"

text \<open>
  An image is a CD image if the unit is a frame, a sector and its 96 bytes of subcode, or one of
  the compressors is a CD codec (\<^verbatim>\<open>cdlz\<close>, \<^verbatim>\<open>cdzl\<close>, \<^verbatim>\<open>cdfl\<close>), and a hunk is a whole number of frames.
\<close>

definition cd_image :: "u32 list \<Rightarrow> u32 \<Rightarrow> u32 \<Rightarrow> bool" where
  "cd_image compressors hunk unit \<longleftrightarrow>
     (unit = 2448 \<or> (\<exists>c \<in> set compressors. c \<in> {0x63646C7A, 0x63647A6C, 0x6364666C})) \<and> 2448 dvd unat hunk"

definition chd_image :: "codecs \<Rightarrow> string \<Rightarrow> bytes \<Rightarrow> bytes \<Rightarrow> bool" where
  "chd_image K path file img \<longleftrightarrow> chd_open K path = 0 \<and>
     (\<exists>compressors logical mapPos metaPos hunk unit hashes rest.
       file = chd_layout compressors logical mapPos metaPos hunk unit hashes @ rest \<and>
       length compressors = 4 \<and> length hashes = 60 \<and> hunk \<noteq> 0 \<and> uint logical < 2 ^ 40 \<and>
       blocks_of (uint logical) (uint hunk) \<le> 2 ^ 32 \<and>
       (let hunks = nat (blocks_of (uint logical) (uint hunk)); frames = unat hunk div 2448 in
        if cd_image compressors hunk unit
        then length img = hunks * (frames * 2048) \<and>
          (\<forall>i < hunks. \<exists>h. chd_read K path (int i) = Some h \<and> length h = unat hunk \<and>
             (\<forall>j < frames. sector_holds (take 2352 (drop (j * 2448) h))
                (take 2048 (drop ((i * frames + j) * 2048) img))))
        else length img = unat logical \<and>
          (\<forall>i < hunks. \<exists>h. chd_read K path (int i) = Some h \<and> length h = unat hunk \<and>
             starts_with h (image_block img (uint hunk) (int i)))))"

section \<open>An image by its name\<close>

definition image_file :: "codecs \<Rightarrow> string \<Rightarrow> os_file \<Rightarrow> bytes \<Rightarrow> bool" where
  "image_file K path f img \<longleftrightarrow>
     ToLower (Ext path) \<in> {''.zso'', ''.ziso''} \<and> zso_image K (f_data f) img \<or>
     ToLower (Ext path) \<in> {''.cso'', ''.ciso''} \<and> cso_image K (f_data f) img \<or>
     ToLower (Ext path) = ''.chd'' \<and> chd_Available K \<and> chd_image K path (f_data f) img"

section \<open>The readers' arithmetic\<close>

lemma plain_mask: "e AND 0x80000000 \<noteq> 0 \<longleftrightarrow> stored_plain (e :: u32)"
proof -
  have "(0x80000000 :: u32) = push_bit 31 1" by (simp add: push_bit_eq_mult)
  then have "e AND 0x80000000 = 0 \<longleftrightarrow> \<not> bit e 31"
    by (simp add: bit_iff_and_push_bit_not_eq_0)
  then show ?thesis by (simp add: stored_plain_def)
qed

lemma pos_mask: "(e :: u32) AND 0x7FFFFFFF = take_bit 31 e"
  by (simp add: take_bit_eq_mask mask_eq_exp_minus_1)

lemma shifted_entry_pos:
  assumes "int (entry_pos align e) < 2 ^ 63"
  shows "shifted_offset e align = int (entry_pos align e)"
proof -
  have "uint (e AND 0x7FFFFFFF) * 2 ^ unat align = int (entry_pos align e)"
    unfolding pos_mask entry_pos_def by (simp flip: uint_nat)
  then show ?thesis using assms by (simp add: shifted_offset_def int64_id)
qed

end
