(* ===== verification/CsoFormat.thy ===== *)
theory CsoFormat
  imports ImageSpec
begin

text \<open>
  CSO/CISO images (\<^verbatim>\<open>internal/fs/compression/cso/cso.go\<close>): parsing the header and the block map,
  reading one block, and the proof that a well-formed file is read as its image.
\<close>

section \<open>The format\<close>

definition csoMagic :: bytes where
  "csoMagic = [0x43, 0x49, 0x53, 0x4F]"

definition cso_Extensions :: "string list" where
  "cso_Extensions = [''.cso'', ''.ciso'']"

text \<open>The file is dropped by \<^verbatim>\<open>Close\<close>.\<close>

record CSO =
  cso_f :: "os_file option"
  cso_stat :: CompressedInfo
  cso_offsets :: "u32 list"
  cso_blockSize :: int
  cso_numBlocks :: int
  cso_size :: int
  cso_align :: u8

definition cso_parseHeader :: "os_file \<Rightarrow> (go_error + CSO) option" where
  "cso_parseHeader f =
     try_ok (read_full (f_data f) 0 24) (\<lambda>b. do {
       magic \<leftarrow> go_slice b 0 4;
       if magic \<noteq> csoMagic then Some (Inl FormatError)
       else do {
         s \<leftarrow> go_slice b 8 16; w \<leftarrow> Uint64 s;
         let sz = sint w;
         s \<leftarrow> go_slice b 16 20; w \<leftarrow> Uint32 s;
         let blockSize = uint w;
         s \<leftarrow> go_slice b 21 22;
         let align = hd s;
         if blockSize = 0 then Some (Inl FormatError)
         else do {
           let numBlocks = go_quot (int64 (sz + blockSize - 1)) blockSize;
           try_ok (read_full (f_data f) 24 (int64 ((numBlocks + 1) * 4))) (\<lambda>offsetBytes. do {
             offsets \<leftarrow> words32 (nat (numBlocks + 1)) offsetBytes;
             Some (Inr \<lparr>cso_f = Some f,
               cso_stat = NewCompressedInfo (Base (f_name f)) sz (modTime_of f),
               cso_offsets = offsets, cso_blockSize = blockSize, cso_numBlocks = numBlocks,
               cso_size = sz, cso_align = align\<rparr>)
           })
         }
       }
     })"

definition zero_pad :: "bytes \<Rightarrow> int \<Rightarrow> bytes" where
  "zero_pad out blockSize =
     (if int (length out) < blockSize then out @ replicate (nat (blockSize - int (length out))) 0 else out)"

definition decompressDeflate :: "codecs \<Rightarrow> bytes \<Rightarrow> int \<Rightarrow> go_error + bytes" where
  "decompressDeflate K compressed blockSize =
     (case inflate K compressed of None \<Rightarrow> Inl FormatError | Some out \<Rightarrow> Inr (zero_pad out blockSize))"

definition decompressZlib :: "codecs \<Rightarrow> bytes \<Rightarrow> int \<Rightarrow> go_error + bytes" where
  "decompressZlib K compressed blockSize =
     (case zlib_inflate K compressed of None \<Rightarrow> Inl FormatError | Some out \<Rightarrow> Inr (zero_pad out blockSize))"

definition cso_ReadBlock :: "codecs \<Rightarrow> CSO \<Rightarrow> int \<Rightarrow> (go_error + block) option" where
  "cso_ReadBlock K c blockIdx =
     (if blockIdx < 0 \<or> cso_numBlocks c \<le> blockIdx then Some (Inl FormatError)
      else if int (length (cso_offsets c)) \<le> blockIdx then None
      else
        let raw = cso_offsets c ! nat blockIdx;
            isPlain = (raw AND 0x80000000 \<noteq> 0);
            readOffset = shifted_offset raw (cso_align c)
        in if \<not> isPlain \<and> int (length (cso_offsets c)) \<le> blockIdx + 1 then None
        else
          let readSize = (if isPlain then cso_blockSize c
                else int64 (shifted_offset (cso_offsets c ! nat (blockIdx + 1)) (cso_align c) - readOffset))
          in case cso_f c of
               None \<Rightarrow> Some (Inl ErrInvalid)
             | Some f \<Rightarrow> try_ok (read_full (f_data f) readOffset readSize) (\<lambda>buf.
                 if isPlain then Some (Inr (Block buf (length buf)))
                 else case decompressDeflate K buf (cso_blockSize c) of
                   Inr out \<Rightarrow> Some (Inr (Block out (length out)))
                 | Inl _ \<Rightarrow>
                     (case decompressZlib K buf (cso_blockSize c) of
                        Inr out \<Rightarrow> Some (Inr (Block out (length out)))
                      | Inl e \<Rightarrow> Some (Inl e))))"

definition cso_Close :: "CSO \<Rightarrow> CSO" where
  "cso_Close c = c\<lparr>cso_f := None\<rparr>"

definition cso_GetStat :: "string \<Rightarrow> os_file option \<Rightarrow> CompressedInfo option" where
  "cso_GetStat path fo = do {
     f \<leftarrow> fo;
     b \<leftarrow> (case read_full (f_data f) 0 16 of Some (Inr b) \<Rightarrow> Some b | _ \<Rightarrow> None);
     magic \<leftarrow> go_slice b 0 4;
     if magic \<noteq> csoMagic then None
     else do {
       s \<leftarrow> go_slice b 8 16; w \<leftarrow> Uint64 s;
       Some (NewCompressedInfo (Base path) (sint w) (modTime_of f))
     }
   }"

section \<open>Readers that stand for an image\<close>

text \<open>What the parsed block map says of a block: where \<^verbatim>\<open>ReadBlock\<close> finds its bytes, and that they
  decompress to the block of the image.\<close>

definition cso_block_ok :: "codecs \<Rightarrow> bytes \<Rightarrow> u32 list \<Rightarrow> u8 \<Rightarrow> int \<Rightarrow> bytes \<Rightarrow> nat \<Rightarrow> bool" where
  "cso_block_ok K data offsets align bs img i =
     (let raw = offsets ! i; lo = shifted_offset raw align; ib = image_block img bs (int i) in
      if raw AND 0x80000000 \<noteq> 0
      then 0 \<le> lo \<and> lo + bs \<le> int (length data) \<and> take (length ib) (drop (nat lo) data) = ib
      else
        let hi = shifted_offset (offsets ! Suc i) align; buf = take (nat (hi - lo)) (drop (nat lo) data)
        in 0 \<le> lo \<and> lo \<le> hi \<and> hi \<le> int (length data) \<and>
           (case inflate K buf of
              Some out \<Rightarrow> take (length ib) out = ib
            | None \<Rightarrow> (case zlib_inflate K buf of Some out \<Rightarrow> take (length ib) out = ib | None \<Rightarrow> False)))"

definition cso_represents :: "codecs \<Rightarrow> CSO \<Rightarrow> bytes \<Rightarrow> bool" where
  "cso_represents K c img \<longleftrightarrow>
     (\<exists>f. cso_f c = Some f \<and> 0 < cso_blockSize c \<and> cso_size c = int (length img) \<and>
       cso_numBlocks c = blocks_of (int (length img)) (cso_blockSize c) \<and>
       int (length (cso_offsets c)) = cso_numBlocks c + 1 \<and>
       (\<forall>i < nat (cso_numBlocks c).
          cso_block_ok K (f_data f) (cso_offsets c) (cso_align c) (cso_blockSize c) img i))"

lemma zero_pad_length: "bs \<le> int (length (zero_pad out bs))" "length out \<le> length (zero_pad out bs)"
  by (simp_all add: zero_pad_def)

lemma zero_pad_prefix: "n \<le> length out \<Longrightarrow> take n (zero_pad out bs) = take n out"
  by (simp add: zero_pad_def)

lemma zero_pad_matches:
  assumes "take (length (image_block img bs i)) out = image_block img bs i"
  shows "block_matches (Block (zero_pad out bs) n) img bs i"
  using assms take_eq_length [OF assms] zero_pad_length
  by (simp add: block_matches_def zero_pad_prefix nat_le_iff)

lemma cso_ReadBlock_ok:
  assumes rep: "cso_represents K c img" and i: "0 \<le> i" "i < cso_numBlocks c"
  shows "\<exists>b. cso_ReadBlock K c i = Some (Inr b) \<and> block_matches b img (cso_blockSize c) i"
proof -
  obtain f where f: "cso_f c = Some f" and bs: "0 < cso_blockSize c"
    and len: "int (length (cso_offsets c)) = cso_numBlocks c + 1"
    and ok: "\<forall>i < nat (cso_numBlocks c).
          cso_block_ok K (f_data f) (cso_offsets c) (cso_align c) (cso_blockSize c) img i"
    using rep by (auto simp: cso_represents_def)
  define raw lo hi where "raw = cso_offsets c ! nat i" and "lo = shifted_offset raw (cso_align c)"
    and "hi = shifted_offset (cso_offsets c ! Suc (nat i)) (cso_align c)"
  let ?ib = "image_block img (cso_blockSize c) i"
  have blk: "cso_block_ok K (f_data f) (cso_offsets c) (cso_align c) (cso_blockSize c) img (nat i)"
    using ok i by simp
  have nx: "nat (i + 1) = Suc (nat i)" using i by simp
  show ?thesis
  proof (cases "raw AND 0x80000000 \<noteq> 0")
    case True
    then have b: "0 \<le> lo" "lo + cso_blockSize c \<le> int (length (f_data f))"
      "take (length ?ib) (drop (nat lo) (f_data f)) = ?ib"
      using blk i by (simp_all add: cso_block_ok_def Let_def flip: raw_def lo_def)
    let ?buf = "take (nat (cso_blockSize c)) (drop (nat lo) (f_data f))"
    have "read_full (f_data f) lo (cso_blockSize c) = Some (Inr ?buf)"
      using b bs by (simp add: read_full_Inr)
    moreover have "block_matches (Block ?buf (length ?buf)) img (cso_blockSize c) i"
      using b bs image_block_length [of img "cso_blockSize c" i]
      by (simp add: block_matches_def min_absorb1)
    ultimately show ?thesis
      using True i len f unfolding cso_ReadBlock_def Let_def raw_def [symmetric] lo_def [symmetric]
      by simp
  next
    case False
    then have b: "0 \<le> lo" "lo \<le> hi" "hi \<le> int (length (f_data f))"
      and codec: "case inflate K (take (nat (hi - lo)) (drop (nat lo) (f_data f))) of
              Some out \<Rightarrow> take (length ?ib) out = ?ib
            | None \<Rightarrow> (case zlib_inflate K (take (nat (hi - lo)) (drop (nat lo) (f_data f))) of
                Some out \<Rightarrow> take (length ?ib) out = ?ib | None \<Rightarrow> False)"
      using blk i by (simp_all add: cso_block_ok_def Let_def flip: raw_def lo_def hi_def)
    let ?buf = "take (nat (hi - lo)) (drop (nat lo) (f_data f))"
    have "int64 (hi - lo) = hi - lo"
      using b(1,2) shifted_offset_range(2) [of "cso_offsets c ! Suc (nat i)" "cso_align c"]
      unfolding hi_def [symmetric] by (intro int64_id) linarith+
    then have r: "read_full (f_data f) lo (int64 (hi - lo)) = Some (Inr ?buf)"
      using b by (simp add: read_full_Inr)
    show ?thesis
      using False i len f codec r
      unfolding cso_ReadBlock_def Let_def nx raw_def [symmetric] lo_def [symmetric] hi_def [symmetric]
      by (auto simp: decompressDeflate_def decompressZlib_def zero_pad_matches split: option.splits)
  qed
qed

interpretation cso: block_reader "cso_ReadBlock K" cso_blockSize cso_numBlocks cso_size "cso_represents K" for K
  by unfold_locales (auto simp: cso_ReadBlock_ok, auto simp: cso_represents_def)

section \<open>Opening a file\<close>

lemma cso_parseHeader_header:
  assumes "f_data f = cso_layout sz bs align @ rest"
  shows "cso_parseHeader f =
    (if bs = 0 then Some (Inl FormatError)
     else let numBlocks = go_quot (int64 (sint sz + uint bs - 1)) (uint bs) in
       try_ok (read_full (f_data f) 24 (int64 ((numBlocks + 1) * 4))) (\<lambda>offsetBytes. do {
         offsets \<leftarrow> words32 (nat (numBlocks + 1)) offsetBytes;
         Some (Inr \<lparr>cso_f = Some f,
           cso_stat = NewCompressedInfo (Base (f_name f)) (sint sz) (modTime_of f),
           cso_offsets = offsets, cso_blockSize = uint bs, cso_numBlocks = numBlocks,
           cso_size = sint sz, cso_align = align\<rparr>)
       }))"
proof -
  have b: "read_full (f_data f) 0 24 = Some (Inr (cso_layout sz bs align))"
    by (simp add: assms read_full_Inr cso_layout_def)
  have s: "go_slice (cso_layout sz bs align) 0 4 = Some csoMagic"
    "go_slice (cso_layout sz bs align) 8 16 = Some (le64 sz)"
    "go_slice (cso_layout sz bs align) 16 20 = Some (le32 bs)"
    "go_slice (cso_layout sz bs align) 21 22 = Some [align]"
    by (simp_all add: go_slice_def cso_layout_def csoMagic_def)
  have z: "uint bs = 0 \<longleftrightarrow> bs = 0" by (simp add: word_uint_eq_iff)
  show ?thesis unfolding cso_parseHeader_def b try_ok_simps s
    by (simp add: z Let_def)
qed

lemma length_cso_layout [simp]: "length (cso_layout sz bs align) = 24"
  by (simp add: cso_layout_def)

text \<open>The blocks of a well-formed file are where the reader looks for them.\<close>

lemma cso_block_found:
  assumes "cso_block K file entries align (unat bs) i (image_block img (uint bs) (int i))"
    "int (length file) < 2 ^ 63"
  shows "cso_block_ok K file entries align (uint bs) img i"
proof -
  let ?lo = "entry_pos align (entries ! i)" and ?hi = "entry_pos align (entries ! Suc i)"
  have lo: "?lo \<le> length file" and hi: "\<not> stored_plain (entries ! i) \<Longrightarrow> ?lo \<le> ?hi \<and> ?hi \<le> length file"
    using assms(1) by (auto simp: cso_block_def Let_def split: if_splits)
  have so: "shifted_offset (entries ! i) align = int ?lo"
    "\<not> stored_plain (entries ! i) \<Longrightarrow> shifted_offset (entries ! Suc i) align = int ?hi"
    using lo hi assms(2) by (intro shifted_entry_pos; force)+
  show ?thesis
  proof (cases "stored_plain (entries ! i)")
    case True
    then have "?lo + unat bs \<le> length file" using assms(1) by (simp add: cso_block_def Let_def)
    then have "int ?lo + uint bs \<le> int (length file)" by (metis of_nat_add of_nat_mono uint_nat)
    with True show ?thesis
      using assms(1) unfolding cso_block_ok_def cso_block_def plain_mask Let_def so(1)
      by (simp add: starts_with_def)
  next
    case False
    then show ?thesis
      using assms(1) hi unfolding cso_block_ok_def cso_block_def plain_mask Let_def so(1) so(2) [OF False]
      by (auto simp: starts_with_def bytes_at_def inflated_def simp flip: of_nat_diff split: option.split)
  qed
qed

lemma cso_open_ok:
  assumes "cso_image K (f_data f) img"
  shows "\<exists>c. cso_parseHeader f = Some (Inr c) \<and> cso_represents K c img \<and> cso_size c = int (length img)"
proof -
  obtain bs align offsets payload where
    d: "f_data f = cso_layout (of_nat (length img)) bs align @ concat (map le32 offsets) @ payload"
    and bs: "bs \<noteq> 0" and n: "int (length img) < 2 ^ 60"
    and off: "int (length offsets) = blocks_of (int (length img)) (uint bs) + 1"
    and spec: "\<forall>i < length offsets - 1.
      cso_block K (f_data f) offsets align (unat bs) i (image_block img (uint bs) (int i))"
    and flen: "int (length (f_data f)) < 2 ^ 63"
    using assms unfolding cso_image_def by blast
  have blk: "\<forall>i < length offsets - 1. cso_block_ok K (f_data f) offsets align (uint bs) img i"
    using spec cso_block_found [OF _ flen] by blast
  let ?n = "int (length img)"
  have "uint bs \<noteq> 0" using bs by (simp add: word_uint_eq_iff)
  then have bs': "0 < uint bs" "uint bs < 2 ^ 32"
    using uint_ge_0 [of bs] uint_lt2p [of bs] by (simp_all add: order_less_le)
  have sz: "sint (of_nat (length img) :: u64) = ?n"
    using n by (simp add: sint_of_nat64)
  have nb: "go_quot (int64 (?n + uint bs - 1)) (uint bs) = blocks_of ?n (uint bs)"
    using n bs' by (simp add: int64_id go_quot_nonneg blocks_of_def)
  have "blocks_of ?n (uint bs) \<le> ?n" "0 \<le> blocks_of ?n (uint bs)"
    using bs' blocks_of_le blocks_of_bounds(3) by simp_all
  then have i: "int64 ((blocks_of ?n (uint bs) + 1) * 4) = 4 * int (length offsets)"
    using n off by (subst int64_id) simp_all
  have r: "read_full (f_data f) 24 (4 * int (length offsets)) = Some (Inr (concat (map le32 offsets)))"
    by (simp add: d read_full_Inr nat_mult_distrib)
  have w: "words32 (nat (blocks_of ?n (uint bs) + 1)) (concat (map le32 offsets)) = Some offsets"
    using words32_le32 [of offsets "[]"] off by (simp flip: off)
  show ?thesis
    unfolding cso_parseHeader_header [OF d] Let_def sz nb i r try_ok_simps w
    using bs bs' off blk by (simp add: cso_represents_def)
qed

end
