(* ===== verification/ZsoFormat.thy ===== *)
theory ZsoFormat
  imports ImageSpec
begin

text \<open>
  ZSO/ZISO images (\<^verbatim>\<open>internal/fs/compression/zso/zso.go\<close>), laid out like CSO but compressed with LZ4.
  The two magics differ in the block map: \<^verbatim>\<open>ZISO\<close> has one entry more than blocks and an alignment,
  \<^verbatim>\<open>ZSO\<close> has one entry per block and ends its last block with the file.
\<close>

section \<open>The format\<close>

definition zsoMagic :: bytes where
  "zsoMagic = [0x5A, 0x53, 0x4F, 0]"

definition zisoMagic :: bytes where
  "zisoMagic = [0x5A, 0x49, 0x53, 0x4F]"

definition zso_Extensions :: "string list" where
  "zso_Extensions = [''.zso'', ''.ziso'']"

record ZSO =
  zso_f :: "os_file option"
  zso_stat :: CompressedInfo
  zso_offsets :: "u32 list"
  zso_blockSize :: int
  zso_numBlocks :: int
  zso_size :: int
  zso_align :: u8
  zso_ziso :: bool

definition zso_parseHeader :: "os_file \<Rightarrow> (go_error + ZSO) option" where
  "zso_parseHeader f =
     try_ok (read_full (f_data f) 0 24) (\<lambda>b. do {
       magic \<leftarrow> go_slice b 0 4;
       if magic \<noteq> zisoMagic \<and> magic \<noteq> zsoMagic then Some (Inl FormatError)
       else do {
         let ziso = (magic = zisoMagic);
         s \<leftarrow> go_slice b 4 8; headerSize \<leftarrow> Uint32 s;
         s \<leftarrow> go_slice b 8 16; w \<leftarrow> Uint64 s;
         let sz = sint w;
         s \<leftarrow> go_slice b 16 20; w \<leftarrow> Uint32 s;
         let blockSize = uint w;
         s \<leftarrow> go_slice b 21 22;
         let align = (if ziso then hd s else 0);
         if blockSize = 0 then Some (Inl FormatError)
         else do {
           let numBlocks = go_quot (int64 (sz + blockSize - 1)) blockSize;
           let numOffsetEntries = (if ziso then numBlocks + 1 else numBlocks);
           try_ok (read_full (f_data f) (uint headerSize) (int64 (numOffsetEntries * 4))) (\<lambda>offsetBytes. do {
             offsets \<leftarrow> words32 (nat numOffsetEntries) offsetBytes;
             Some (Inr \<lparr>zso_f = Some f,
               zso_stat = NewCompressedInfo (Base (f_name f)) sz (modTime_of f),
               zso_offsets = offsets, zso_blockSize = blockSize, zso_numBlocks = numBlocks,
               zso_size = sz, zso_align = align, zso_ziso = ziso\<rparr>)
           })
         }
       }
     })"

text \<open>
  The retry loop around \<^verbatim>\<open>lz4.UncompressBlock\<close> drops one trailing byte at a time until the rest
  decompresses; each attempt starts from a zeroed block.
\<close>

fun lz4_retry :: "nat \<Rightarrow> codecs \<Rightarrow> bytes \<Rightarrow> nat \<Rightarrow> (bytes \<times> nat) option" where
  "lz4_retry 0 K compressed blockSize = None"
| "lz4_retry (Suc k) K compressed blockSize =
     (if compressed = [] then None
      else case lz4_block K compressed blockSize of
        Some r \<Rightarrow> Some r
      | None \<Rightarrow> lz4_retry k K (butlast compressed) blockSize)"

definition zso_extent :: "ZSO \<Rightarrow> os_file \<Rightarrow> nat \<Rightarrow> int \<times> int" where
  "zso_extent z f i =
     (let rawOffset = zso_offsets z ! i in
      if zso_ziso z then
        let offset = shifted_offset rawOffset (zso_align z);
            nextOffset = shifted_offset (zso_offsets z ! Suc i) (zso_align z)
        in (offset, int64 (nextOffset - offset))
      else
        (uint rawOffset,
         if int i + 1 < zso_numBlocks z then uint (zso_offsets z ! Suc i - rawOffset)
         else int64 (int (length (f_data f)) - uint rawOffset)))"

definition zso_ReadBlock :: "codecs \<Rightarrow> ZSO \<Rightarrow> int \<Rightarrow> (go_error + block) option" where
  "zso_ReadBlock K z blockIdx =
     (if blockIdx < 0 \<or> zso_numBlocks z \<le> blockIdx then Some (Inl FormatError)
      else if int (length (zso_offsets z)) \<le> blockIdx then None
      else if (zso_ziso z \<or> blockIdx + 1 < zso_numBlocks z) \<and> int (length (zso_offsets z)) \<le> blockIdx + 1
      then None
      else case zso_f z of
        None \<Rightarrow> Some (Inl ErrInvalid)
      | Some f \<Rightarrow>
          let (offset, compressedSize) = zso_extent z f (nat blockIdx);
              uncompressed = (zso_offsets z ! nat blockIdx AND 0x80000000 \<noteq> 0)
          in try_ok (read_full (f_data f) offset compressedSize) (\<lambda>compressed.
               if uncompressed then
                 Some (Inr (Block (zero_copy (nat (zso_blockSize z)) compressed) (nat (zso_blockSize z))))
               else case lz4_retry (length compressed) K compressed (nat (zso_blockSize z)) of
                 None \<Rightarrow> Some (Inl FormatError)
               | Some (out, n) \<Rightarrow> if n \<le> length out then Some (Inr (Block out n)) else None))"

definition zso_Close :: "ZSO \<Rightarrow> ZSO" where
  "zso_Close z = z\<lparr>zso_f := None\<rparr>"

definition zso_GetStat :: "string \<Rightarrow> os_file option \<Rightarrow> CompressedInfo option" where
  "zso_GetStat path fo = do {
     f \<leftarrow> fo;
     b \<leftarrow> (case read_full (f_data f) 0 16 of Some (Inr b) \<Rightarrow> Some b | _ \<Rightarrow> None);
     magic \<leftarrow> go_slice b 0 4;
     if magic \<noteq> zisoMagic \<and> magic \<noteq> zsoMagic then None
     else do {
       s \<leftarrow> go_slice b 8 16; w \<leftarrow> Uint64 s;
       Some (NewCompressedInfo (Base path) (sint w) (modTime_of f))
     }
   }"

section \<open>Readers that stand for an image\<close>

definition zso_block_ok :: "codecs \<Rightarrow> ZSO \<Rightarrow> os_file \<Rightarrow> bytes \<Rightarrow> nat \<Rightarrow> bool" where
  "zso_block_ok K z f img i =
     (let (lo, n) = zso_extent z f i; ib = image_block img (zso_blockSize z) (int i);
          buf = take (nat n) (drop (nat lo) (f_data f)) in
      0 \<le> lo \<and> 0 \<le> n \<and> lo + n \<le> int (length (f_data f)) \<and>
      (if zso_offsets z ! i AND 0x80000000 \<noteq> 0 then take (length ib) buf = ib
       else case lz4_retry (length buf) K buf (nat (zso_blockSize z)) of
         Some (out, k) \<Rightarrow> take (length ib) out = ib
       | None \<Rightarrow> False))"

definition zso_represents :: "codecs \<Rightarrow> ZSO \<Rightarrow> bytes \<Rightarrow> bool" where
  "zso_represents K z img \<longleftrightarrow> lz4_ok K \<and>
     (\<exists>f. zso_f z = Some f \<and> 0 < zso_blockSize z \<and> zso_size z = int (length img) \<and>
       zso_numBlocks z = blocks_of (int (length img)) (zso_blockSize z) \<and>
       int (length (zso_offsets z)) = (if zso_ziso z then zso_numBlocks z + 1 else zso_numBlocks z) \<and>
       (\<forall>i < nat (zso_numBlocks z). zso_block_ok K z f img i))"

lemma lz4_retry_ok: "lz4_ok K \<Longrightarrow> lz4_retry m K src n = Some (dst, k) \<Longrightarrow> length dst = n \<and> k \<le> n"
  by (induction m arbitrary: src) (auto simp: lz4_ok_def split: if_splits option.splits)

lemma zso_ReadBlock_ok:
  assumes rep: "zso_represents K z img" and i: "0 \<le> i" "i < zso_numBlocks z"
  shows "\<exists>b. zso_ReadBlock K z i = Some (Inr b) \<and> block_matches b img (zso_blockSize z) i"
proof -
  obtain f where f: "zso_f z = Some f" and bs: "0 < zso_blockSize z"
    and len: "int (length (zso_offsets z)) = (if zso_ziso z then zso_numBlocks z + 1 else zso_numBlocks z)"
    and ok: "\<forall>i < nat (zso_numBlocks z). zso_block_ok K z f img i" and lz: "lz4_ok K"
    using rep by (auto simp: zso_represents_def)
  obtain lo n where ext: "zso_extent z f (nat i) = (lo, n)" by fastforce
  let ?buf = "take (nat n) (drop (nat lo) (f_data f))" and ?ib = "image_block img (zso_blockSize z) i"
  have c: "zso_block_ok K z f img (nat i)" and ii: "int (nat i) = i" using ok i by simp_all
  have blk: "0 \<le> lo" "0 \<le> n" "lo + n \<le> int (length (f_data f))"
    "if zso_offsets z ! nat i AND 0x80000000 \<noteq> 0 then take (length ?ib) ?buf = ?ib
     else case lz4_retry (length ?buf) K ?buf (nat (zso_blockSize z)) of
         Some (out, k) \<Rightarrow> take (length ?ib) out = ?ib | None \<Rightarrow> False"
    using c [unfolded zso_block_ok_def Let_def ext prod.case ii] by blast+
  have r: "read_full (f_data f) lo n = Some (Inr ?buf)" using blk(1-3) by (simp add: read_full_Inr)
  have pre: "\<not> (i < 0 \<or> zso_numBlocks z \<le> i)" "\<not> int (length (zso_offsets z)) \<le> i"
    "\<not> ((zso_ziso z \<or> i + 1 < zso_numBlocks z) \<and> int (length (zso_offsets z)) \<le> i + 1)"
    using i len by (auto split: if_splits)
  show ?thesis
  proof (cases "zso_offsets z ! nat i AND 0x80000000 \<noteq> 0")
    case True
    define out where "out = zero_copy (nat (zso_blockSize z)) ?buf"
    have R: "zso_ReadBlock K z i = Some (Inr (Block out (nat (zso_blockSize z))))"
      unfolding zso_ReadBlock_def
      by (simp only: pre if_False f option.case ext Let_def prod.case r try_ok_simps True if_True not_False_eq_True out_def)
    have b: "take (length ?ib) ?buf = ?ib" using blk(4) True by simp
    have l: "length ?ib \<le> nat (zso_blockSize z)" "length ?ib \<le> length ?buf"
      using image_block_length take_eq_length [OF b] by auto
    have "take (length ?ib) out = take (length ?ib) ?buf"
      unfolding out_def using l by (rule take_zero_copy)
    moreover have "nat (zso_blockSize z) \<le> length out" by (simp add: out_def)
    ultimately show ?thesis using R b by (simp add: block_matches_def)
  next
    case False
    then obtain out k where o: "lz4_retry (length ?buf) K ?buf (nat (zso_blockSize z)) = Some (out, k)"
      "take (length ?ib) out = ?ib" using blk(4) by (auto split: option.splits)
    note lo = lz4_retry_ok [OF lz o(1)]
    have "zso_ReadBlock K z i = Some (Inr (Block out k))"
      unfolding zso_ReadBlock_def
      by (simp only: pre if_False f option.case ext Let_def prod.case r try_ok_simps False o(1)) (use lo in simp)
    then show ?thesis using lo o(2) by (simp add: block_matches_def)
  qed
qed

interpretation zso: block_reader "zso_ReadBlock K" zso_blockSize zso_numBlocks zso_size "zso_represents K" for K
  by unfold_locales (auto simp: zso_ReadBlock_ok, auto simp: zso_represents_def)

section \<open>Opening a file\<close>

text \<open>The retry loop finds the longest part that decompresses.\<close>

lemma lz4_retry_longest:
  assumes "packed \<noteq> []" "lz4_block K packed n = Some r"
    "\<And>j. length packed < j \<Longrightarrow> j \<le> length (packed @ pad) \<Longrightarrow> lz4_block K (take j (packed @ pad)) n = None"
  shows "lz4_retry (length (packed @ pad)) K (packed @ pad) n = Some r"
  using assms(3)
proof (induction pad rule: rev_induct)
  case Nil
  obtain m where "length packed = Suc m" using assms(1) by (cases packed) auto
  then show ?case using assms(1,2) by simp
next
  case (snoc x pad)
  have "lz4_block K (take j (packed @ pad)) n = None" if "length packed < j" "j \<le> length (packed @ pad)" for j
    using snoc.prems [of j] that by simp
  then have "lz4_retry (length (packed @ pad)) K (packed @ pad) n = Some r" by (rule snoc.IH)
  moreover have "lz4_block K (packed @ pad @ [x]) n = None"
    using snoc.prems [of "length (packed @ pad @ [x])"] by simp
  ultimately show ?case by (simp add: butlast_append flip: append_assoc)
qed

lemma lz4_padded_retry:
  assumes "lz4_padded K stored bs out"
  shows "\<exists>n. lz4_retry (length stored) K stored bs = Some (out, n)"
proof -
  obtain packed pad n where s: "stored = packed @ pad" "packed \<noteq> []" "lz4_block K packed bs = Some (out, n)"
    "\<forall>j. length packed < j \<and> j \<le> length stored \<longrightarrow> lz4_block K (take j stored) bs = None"
    using assms by (auto simp: lz4_padded_def)
  then have "lz4_retry (length (packed @ pad)) K (packed @ pad) bs = Some (out, n)"
    by (intro lz4_retry_longest) blast+
  then show ?thesis using s(1) by blast
qed

lemma length_zso_layout [simp]: "length (zso_layout ziso hs sz bs align) = 24"
  by (simp add: zso_layout_def)

text \<open>The blocks of a well-formed file are where the reader looks for them.\<close>

lemma zso_block_okI:
  assumes "zso_extent z f i = (int lo, int n)" "lo + n \<le> length (f_data f)"
    and "if stored_plain (zso_offsets z ! i)
      then starts_with (take n (drop lo (f_data f))) (image_block img (zso_blockSize z) (int i))
      else \<exists>out. lz4_padded K (take n (drop lo (f_data f))) (nat (zso_blockSize z)) out \<and>
        starts_with out (image_block img (zso_blockSize z) (int i))"
  shows "zso_block_ok K z f img i"
proof -
  let ?buf = "take n (drop lo (f_data f))" and ?ib = "image_block img (zso_blockSize z) (int i)"
  have le: "int lo + int n \<le> int (length (f_data f))" using assms(2) by simp
  have "if stored_plain (zso_offsets z ! i) then take (length ?ib) ?buf = ?ib
     else case lz4_retry (length ?buf) K ?buf (nat (zso_blockSize z)) of
         Some (out, k) \<Rightarrow> take (length ?ib) out = ?ib | None \<Rightarrow> False"
    using assms(3) lz4_padded_retry [of K ?buf "nat (zso_blockSize z)"]
    by (fastforce simp: starts_with_def simp del: length_take length_drop split: if_splits)
  with le show ?thesis
    unfolding zso_block_ok_def assms(1) plain_mask Let_def prod.case nat_int by simp
qed

lemma ziso_block_found:
  assumes blk: "ziso_block K (f_data f) (zso_offsets z) (zso_align z) (nat (zso_blockSize z)) i
      (image_block img (zso_blockSize z) (int i))"
    and "int (length (f_data f)) < 2 ^ 63" "zso_ziso z"
  shows "zso_block_ok K z f img i"
proof -
  let ?lo = "entry_pos (zso_align z) (zso_offsets z ! i)" and ?hi = "entry_pos (zso_align z) (zso_offsets z ! Suc i)"
  have le: "?lo \<le> ?hi" "?hi \<le> length (f_data f)" using blk by (simp_all add: ziso_block_def Let_def)
  have so: "shifted_offset (zso_offsets z ! i) (zso_align z) = int ?lo"
    "shifted_offset (zso_offsets z ! Suc i) (zso_align z) = int ?hi"
    using le assms(2) by (intro shifted_entry_pos; linarith)+
  have "int64 (int ?hi - int ?lo) = int (?hi - ?lo)"
    using le assms(2) by (subst int64_id) (simp_all add: of_nat_diff)
  then have ext: "zso_extent z f i = (int ?lo, int (?hi - ?lo))"
    using assms(3) by (simp add: zso_extent_def Let_def so)
  show ?thesis
  proof (rule zso_block_okI [OF ext])
    show "?lo + (?hi - ?lo) \<le> length (f_data f)" using le by simp
  qed (use blk [unfolded ziso_block_def Let_def bytes_at_def] in blast)
qed

lemma zso_block_found:
  assumes blk: "zso_block K (f_data f) (zso_offsets z) (nat (zso_blockSize z)) i
      (image_block img (zso_blockSize z) (int i))"
    and "int (length (f_data f)) < 2 ^ 63" "\<not> zso_ziso z" "int (length (zso_offsets z)) = zso_numBlocks z"
  shows "zso_block_ok K z f img i"
proof -
  let ?e = "zso_offsets z ! i" and ?n = "zso_offsets z ! Suc i"
  define hi where "hi = (if Suc i < length (zso_offsets z) then unat ?n else length (f_data f))"
  have le: "unat ?e \<le> hi" "hi \<le> length (f_data f)" and plain: "\<not> stored_plain ?e"
    using blk by (simp_all add: zso_block_def Let_def hi_def)
  obtain out where out: "lz4_padded K (bytes_at (f_data f) (unat ?e) hi) (nat (zso_blockSize z)) out"
    "starts_with out (image_block img (zso_blockSize z) (int i))"
    using blk by (auto simp: zso_block_def Let_def hi_def)
  have sz: "(if int i + 1 < zso_numBlocks z then uint (?n - ?e)
      else int64 (int (length (f_data f)) - uint ?e)) = int (hi - unat ?e)"
  proof (cases "Suc i < length (zso_offsets z)")
    case True
    then have "?e \<le> ?n" using le(1) by (simp add: hi_def word_le_nat_alt)
    then have "unat (?n - ?e) = unat ?n - unat ?e" by (rule unat_sub)
    then have "uint (?n - ?e) = int (unat ?n - unat ?e)" by (metis uint_nat)
    then show ?thesis using True assms(4) by (simp add: hi_def)
  next
    case False
    then have "unat ?e \<le> length (f_data f)" using le by (simp add: hi_def)
    then have d: "int (length (f_data f)) - uint ?e = int (length (f_data f) - unat ?e)"
      by (metis of_nat_diff uint_nat)
    have "int64 (int (length (f_data f) - unat ?e)) = int (length (f_data f) - unat ?e)"
      using assms(2) by (intro int64_id) simp_all
    then show ?thesis using False assms(4) unfolding d by (simp add: hi_def)
  qed
  have ext: "zso_extent z f i = (int (unat ?e), int (hi - unat ?e))"
    unfolding zso_extent_def Let_def sz using assms(3) by simp
  show ?thesis
    using out plain le by (intro zso_block_okI [OF ext]) (auto simp: bytes_at_def)
qed

lemma zso_parseHeader_header:
  assumes "f_data f = zso_layout ziso hs sz bs align @ rest"
  shows "zso_parseHeader f =
    (if bs = 0 then Some (Inl FormatError)
     else let numBlocks = go_quot (int64 (sint sz + uint bs - 1)) (uint bs);
              entries = (if ziso then numBlocks + 1 else numBlocks) in
       try_ok (read_full (f_data f) (uint hs) (int64 (entries * 4))) (\<lambda>offsetBytes. do {
         offsets \<leftarrow> words32 (nat entries) offsetBytes;
         Some (Inr \<lparr>zso_f = Some f,
           zso_stat = NewCompressedInfo (Base (f_name f)) (sint sz) (modTime_of f),
           zso_offsets = offsets, zso_blockSize = uint bs, zso_numBlocks = numBlocks,
           zso_size = sint sz, zso_align = (if ziso then align else 0), zso_ziso = ziso\<rparr>)
       }))"
proof -
  let ?h = "zso_layout ziso hs sz bs align"
  have b: "read_full (f_data f) 0 24 = Some (Inr ?h)"
    by (simp add: assms read_full_Inr)
  have s: "go_slice ?h 0 4 = Some (if ziso then zisoMagic else zsoMagic)"
    "go_slice ?h 4 8 = Some (le32 hs)" "go_slice ?h 8 16 = Some (le64 sz)"
    "go_slice ?h 16 20 = Some (le32 bs)" "go_slice ?h 21 22 = Some [align]"
    by (simp_all add: go_slice_def zso_layout_def zsoMagic_def zisoMagic_def)
  have z: "uint bs = 0 \<longleftrightarrow> bs = 0" by (simp add: word_uint_eq_iff)
  have m: "zsoMagic \<noteq> zisoMagic" by (simp add: zsoMagic_def zisoMagic_def)
  show ?thesis unfolding zso_parseHeader_def b try_ok_simps s
    using m by (cases ziso) (simp_all add: z Let_def)
qed

lemma zso_open_ok:
  assumes "zso_image K (f_data f) img"
  shows "\<exists>z. zso_parseHeader f = Some (Inr z) \<and> zso_represents K z img"
proof -
  obtain ziso hs bs align offsets rest mid payload where
    d: "f_data f = zso_layout ziso hs (of_nat (length img)) bs align @ rest"
    and o: "f_data f = mid @ concat (map le32 offsets) @ payload" "length mid = unat hs"
    and bs: "bs \<noteq> 0" and n: "int (length img) < 2 ^ 60" and flen: "int (length (f_data f)) < 2 ^ 63"
    and off: "int (length offsets) = blocks_of (int (length img)) (uint bs) + (if ziso then 1 else 0)"
    and spec: "\<forall>i < nat (blocks_of (int (length img)) (uint bs)).
          if ziso then ziso_block K (f_data f) offsets align (unat bs) i (image_block img (uint bs) (int i))
          else zso_block K (f_data f) offsets (unat bs) i (image_block img (uint bs) (int i))"
    and lz: "lz4_ok K"
    using assms unfolding zso_image_def by blast
  let ?z = "\<lparr>zso_f = Some f,
      zso_stat = NewCompressedInfo (Base (f_name f)) (int (length img)) (modTime_of f),
      zso_offsets = offsets, zso_blockSize = uint bs,
      zso_numBlocks = blocks_of (int (length img)) (uint bs), zso_size = int (length img),
      zso_align = (if ziso then align else 0), zso_ziso = ziso\<rparr>"
  have blk: "\<forall>i < nat (blocks_of (int (length img)) (uint bs)). zso_block_ok K ?z f img i"
    using spec off ziso_block_found [of K f ?z _ img, OF _ flen] zso_block_found [of K f ?z _ img, OF _ flen]
    by (cases ziso) (simp_all add: nat_uint_eq)
  let ?n = "int (length img)"
  have "uint bs \<noteq> 0" using bs by (simp add: word_uint_eq_iff)
  then have bs': "0 < uint bs" "uint bs < 2 ^ 32"
    using uint_ge_0 [of bs] uint_lt2p [of bs] by (simp_all add: order_less_le)
  have sz: "sint (of_nat (length img) :: u64) = ?n" using n by (simp add: sint_of_nat64)
  have nb: "go_quot (int64 (?n + uint bs - 1)) (uint bs) = blocks_of ?n (uint bs)"
    using n bs' by (simp add: int64_id go_quot_nonneg blocks_of_def)
  define e where "e = (if ziso then blocks_of ?n (uint bs) + 1 else blocks_of ?n (uint bs))"
  have e: "e = int (length offsets)" using off by (simp add: e_def)
  have "blocks_of ?n (uint bs) \<le> ?n" using bs' blocks_of_le by simp
  then have i: "int64 (e * 4) = 4 * int (length offsets)"
    using n off e by (subst int64_id) (simp_all split: if_splits)
  have r: "read_full (f_data f) (uint hs) (4 * int (length offsets)) = Some (Inr (concat (map le32 offsets)))"
    using o by (simp add: read_full_Inr nat_mult_distrib nat_uint_eq)
  have w: "words32 (nat e) (concat (map le32 offsets)) = Some offsets"
    using words32_le32 [of offsets "[]"] by (simp add: e)
  show ?thesis
    unfolding zso_parseHeader_header [OF d] Let_def sz nb e_def [symmetric] i r try_ok_simps w
    using bs bs' off blk lz by (simp add: zso_represents_def)
qed

end
