(* ===== verification/ChdFormat.thy ===== *)
theory ChdFormat
  imports ImageSpec
begin

text \<open>
  CHD v5 images (\<^verbatim>\<open>internal/fs/compression/chd/chd.go\<close>): the header is parsed in Go, the hunks are
  read by libchdr. Of a CD image only the 2048 bytes of user data of every sector are served.
  The stub of \<^verbatim>\<open>chd_nocgo.go\<close> supports no extension and opens nothing.
\<close>

section \<open>The format\<close>

definition cdFrameSize :: nat where
  "cdFrameSize = 2448"

definition cdUserData :: nat where
  "cdUserData = 2048"

definition cdCodecs :: "u32 set" where
  "cdCodecs = {0x63646c7a, 0x63647a6c, 0x6364666c}"

definition cdSync :: bytes where
  "cdSync = [0, 0xff, 0xff, 0xff, 0xff, 0xff, 0xff, 0xff, 0xff, 0xff, 0xff, 0]"

definition chdMagic :: bytes where
  "chdMagic = [0x4D, 0x43, 0x6F, 0x6D, 0x70, 0x72, 0x48, 0x44]"

definition chd_Extensions :: "codecs \<Rightarrow> string list" where
  "chd_Extensions K = (if chd_Available K then [''.chd''] else [])"

definition extractUserData :: "bytes \<Rightarrow> bytes" where
  "extractUserData sector =
     (if length sector < cdUserData then zero_copy cdUserData sector
      else
        let offset = (if 16 \<le> length sector \<and> take 12 sector = cdSync
                      then if sector ! 15 = 2 then 24 else 16
                      else 0);
            end = offset + cdUserData
        in if length sector < end then zero_copy cdUserData (drop offset sector)
           else zero_copy cdUserData (take cdUserData (drop offset sector)))"

record CHD =
  chd_path :: string
  chd_chd :: bool
  chd_hunkSize :: int
  chd_blockSize :: int
  chd_numBlocks :: int
  chd_size :: int
  chd_isCDFormat :: bool
  chd_framesPerHunk :: int
  chd_stat :: CompressedInfo

text \<open>The fields of the header that both \<^verbatim>\<open>parseHeader\<close> and \<^verbatim>\<open>GetStat\<close> read.\<close>

record chd_header =
  ch_compressors :: "u32 list"
  ch_logicalBytes :: u64
  ch_hunkSize :: u32
  ch_unitSize :: u32

definition chd_read_header :: "bytes \<Rightarrow> (go_error + chd_header) option" where
  "chd_read_header data =
     try_ok (read_full data 0 124) (\<lambda>header. do {
       magic \<leftarrow> go_slice header 0 8;
       if magic \<noteq> chdMagic then Some (Inl FormatError)
       else do {
         s \<leftarrow> go_slice header 12 16; version \<leftarrow> Uint32_BE s;
         if version \<noteq> 5 then Some (Inl FormatError)
         else do {
           s \<leftarrow> go_slice header 16 20; c0 \<leftarrow> Uint32_BE s;
           s \<leftarrow> go_slice header 20 24; c1 \<leftarrow> Uint32_BE s;
           s \<leftarrow> go_slice header 24 28; c2 \<leftarrow> Uint32_BE s;
           s \<leftarrow> go_slice header 28 32; c3 \<leftarrow> Uint32_BE s;
           s \<leftarrow> go_slice header 32 40; logicalBytes \<leftarrow> Uint64_BE s;
           s \<leftarrow> go_slice header 56 60; hunkSize \<leftarrow> Uint32_BE s;
           s \<leftarrow> go_slice header 60 64; unitSize \<leftarrow> Uint32_BE s;
           if hunkSize = 0 then Some (Inl FormatError)
           else Some (Inr \<lparr>ch_compressors = [c0, c1, c2, c3], ch_logicalBytes = logicalBytes,
                  ch_hunkSize = hunkSize, ch_unitSize = unitSize\<rparr>)
         }
       }
     })"

definition chd_numBlocks_of :: "chd_header \<Rightarrow> int" where
  "chd_numBlocks_of h =
     int64 (uint ((ch_logicalBytes h + ucast (ch_hunkSize h) - 1) div ucast (ch_hunkSize h)))"

definition chd_isCD :: "chd_header \<Rightarrow> bool" where
  "chd_isCD h \<longleftrightarrow>
     (ch_unitSize h = of_nat cdFrameSize \<or> (\<exists>comp \<in> set (ch_compressors h). comp \<noteq> 0 \<and> comp \<in> cdCodecs)) \<and>
     ch_hunkSize h mod of_nat cdFrameSize = 0"

definition chd_frames_of :: "chd_header \<Rightarrow> int" where
  "chd_frames_of h = uint (ch_hunkSize h div of_nat cdFrameSize)"

definition chd_size_of :: "chd_header \<Rightarrow> int" where
  "chd_size_of h =
     (if chd_isCD h then int64 (int64 (chd_numBlocks_of h * chd_frames_of h) * int cdUserData)
      else sint (ch_logicalBytes h))"

definition chd_parseHeader :: "string \<Rightarrow> go_error + os_file \<Rightarrow> (go_error + CHD) option" where
  "chd_parseHeader path opened =
     (case opened of
        Inl e \<Rightarrow> Some (Inl e)
      | Inr f \<Rightarrow> try_ok (chd_read_header (f_data f)) (\<lambda>h.
          Some (Inr \<lparr>chd_path = path, chd_chd = True, chd_hunkSize = uint (ch_hunkSize h),
            chd_blockSize = (if chd_isCD h then chd_frames_of h * int cdUserData else uint (ch_hunkSize h)),
            chd_numBlocks = chd_numBlocks_of h, chd_size = chd_size_of h, chd_isCDFormat = chd_isCD h,
            chd_framesPerHunk = (if chd_isCD h then chd_frames_of h else 0),
            chd_stat = NewCompressedInfo (Base (f_name f)) (chd_size_of h) (modTime_of f)\<rparr>)))"

definition chd_Open :: "codecs \<Rightarrow> (string \<Rightarrow> go_error + os_file) \<Rightarrow> string \<Rightarrow> (go_error + CHD) option" where
  "chd_Open K os_Open path =
     (case os_Open path of
        Inl e \<Rightarrow> Some (Inl e)
      | Inr _ \<Rightarrow>
          if chd_open K path \<noteq> 0 then Some (Inl FormatError) else chd_parseHeader path (os_Open path))"

text \<open>
  libchdr overwrites the front of the hunk buffer; what a short write would leave there from an
  earlier call is not modelled, the rest of the buffer is zero.
\<close>

fun cd_frames :: "nat \<Rightarrow> bytes \<Rightarrow> nat \<Rightarrow> bytes option" where
  "cd_frames i hunkBuf 0 = Some []"
| "cd_frames i hunkBuf (Suc n) = do {
     sector \<leftarrow> go_slice hunkBuf (i * cdFrameSize) (i * cdFrameSize + 2352);
     rest \<leftarrow> cd_frames (Suc i) hunkBuf n;
     Some (extractUserData sector @ rest)
   }"

definition chd_ReadBlock :: "codecs \<Rightarrow> CHD \<Rightarrow> int \<Rightarrow> (go_error + block) option" where
  "chd_ReadBlock K c blockIdx =
     (if blockIdx < 0 \<or> chd_numBlocks c \<le> blockIdx then Some (Inl FormatError)
      else if chd_hunkSize c \<le> 0 then None
      else if \<not> chd_chd c then Some (Inl FormatError)
      else case chd_read K (chd_path c) (uint (word_of_int blockIdx :: u32)) of
        None \<Rightarrow> Some (Inl FormatError)
      | Some hunk \<Rightarrow>
          let hunkBuf = zero_copy (nat (chd_hunkSize c)) hunk in
          if \<not> chd_isCDFormat c then Some (Inr (Block hunkBuf (length hunkBuf)))
          else case cd_frames 0 hunkBuf (nat (chd_framesPerHunk c)) of
            None \<Rightarrow> None
          | Some out \<Rightarrow> Some (Inr (Block out (length out))))"

definition chd_Close :: "CHD \<Rightarrow> CHD" where
  "chd_Close c = c\<lparr>chd_chd := False\<rparr>"

definition chd_GetStat :: "string \<Rightarrow> os_file option \<Rightarrow> CompressedInfo option" where
  "chd_GetStat path fo = do {
     f \<leftarrow> fo;
     h \<leftarrow> (case chd_read_header (f_data f) of Some (Inr h) \<Rightarrow> Some h | _ \<Rightarrow> None);
     Some (NewCompressedInfo (Base path) (chd_size_of h) (modTime_of f))
   }"

section \<open>User data of a sector\<close>

lemma length_extractUserData [simp]: "length (extractUserData sector) = cdUserData"
  by (simp add: extractUserData_def Let_def)

lemma sync_pattern_eq: "sync_pattern = cdSync" "length sync_pattern = 12"
  by (simp_all add: sync_pattern_def cdSync_def eval_nat_numeral)

lemma extractUserData_sector: "sector_holds sector user \<Longrightarrow> extractUserData sector = user"
proof (induction rule: sector_holds.induct)
  case (mode1 addr mode user ecc)
  then show ?case
    by (simp add: extractUserData_def cdUserData_def Let_def zero_copy_id nth_append sync_pattern_eq
        flip: sync_pattern_eq(1))
next
  case (mode2 addr sub user ecc)
  then show ?case
    by (simp add: extractUserData_def cdUserData_def Let_def zero_copy_id nth_append sync_pattern_eq
        flip: sync_pattern_eq(1))
next
  case (raw user rest)
  then show ?case
    by (simp add: extractUserData_def cdUserData_def Let_def zero_copy_id flip: sync_pattern_eq(1))
qed

text \<open>The frames of a hunk, each 2448 bytes, of which 2352 are the sector.\<close>

definition hunk_data :: "bytes \<Rightarrow> nat \<Rightarrow> bytes" where
  "hunk_data hunk n = concat (map (\<lambda>i. extractUserData (take 2352 (drop (i * cdFrameSize) hunk))) [0..<n])"

lemma cd_frames_ok:
  assumes "(i + n) * cdFrameSize \<le> length hunk"
  shows "cd_frames i hunk n =
    Some (concat (map (\<lambda>j. extractUserData (take 2352 (drop (j * cdFrameSize) hunk))) [i..<i + n]))"
  using assms
proof (induction n arbitrary: i)
  case (Suc n)
  have "i * cdFrameSize + 2352 \<le> length hunk" using Suc.prems by (simp add: cdFrameSize_def)
  moreover have "cd_frames (Suc i) hunk n = Some (concat (map
      (\<lambda>j. extractUserData (take 2352 (drop (j * cdFrameSize) hunk))) [Suc i..<Suc i + n]))"
    using Suc.prems by (intro Suc.IH) simp
  moreover have "[i..<i + Suc n] = i # [Suc i..<Suc i + n]" by (subst upt_conv_Cons) simp_all
  ultimately show ?case by (simp add: go_slice_def del: upt_Suc)
qed simp

lemma length_hunk_data [simp]: "length (hunk_data hunk n) = n * cdUserData"
  by (induction n) (simp_all add: hunk_data_def)

section \<open>Readers that stand for an image\<close>

definition chd_block_ok :: "codecs \<Rightarrow> CHD \<Rightarrow> bytes \<Rightarrow> nat \<Rightarrow> bool" where
  "chd_block_ok K c img i =
     (let ib = image_block img (chd_blockSize c) (int i) in
      case chd_read K (chd_path c) (int i) of
        None \<Rightarrow> False
      | Some hunk \<Rightarrow> int (length hunk) = chd_hunkSize c \<and>
          (if chd_isCDFormat c then take (length ib) (hunk_data hunk (nat (chd_framesPerHunk c))) = ib
           else take (length ib) hunk = ib))"

definition chd_represents :: "codecs \<Rightarrow> CHD \<Rightarrow> bytes \<Rightarrow> bool" where
  "chd_represents K c img \<longleftrightarrow> chd_chd c \<and> 0 < chd_blockSize c \<and> 0 < chd_hunkSize c \<and>
     chd_size c = int (length img) \<and>
     chd_numBlocks c = blocks_of (int (length img)) (chd_blockSize c) \<and> chd_numBlocks c \<le> 2 ^ 32 \<and>
     (if chd_isCDFormat c
      then chd_hunkSize c = chd_framesPerHunk c * int cdFrameSize \<and>
           chd_blockSize c = chd_framesPerHunk c * int cdUserData
      else chd_blockSize c = chd_hunkSize c) \<and>
     (\<forall>i < nat (chd_numBlocks c). chd_block_ok K c img i)"

lemma chd_ReadBlock_ok:
  assumes rep: "chd_represents K c img" and i: "0 \<le> i" "i < chd_numBlocks c"
  shows "\<exists>b. chd_ReadBlock K c i = Some (Inr b) \<and> block_matches b img (chd_blockSize c) i"
proof -
  let ?ib = "image_block img (chd_blockSize c) i"
  have "chd_block_ok K c img (nat i)" using rep i by (simp add: chd_represents_def)
  then obtain hunk where hunk: "chd_read K (chd_path c) i = Some hunk" "int (length hunk) = chd_hunkSize c"
    and m: "if chd_isCDFormat c then take (length ?ib) (hunk_data hunk (nat (chd_framesPerHunk c))) = ?ib
           else take (length ?ib) hunk = ?ib"
    using i by (auto simp: chd_block_ok_def Let_def split: option.splits)
  have "uint (word_of_int i :: u32) = i"
    using i rep by (simp add: chd_represents_def uint_word_of_int)
  moreover have zc: "zero_copy (nat (chd_hunkSize c)) hunk = hunk"
    using hunk(2) by (intro zero_copy_id) simp
  ultimately have R: "chd_ReadBlock K c i =
      (if \<not> chd_isCDFormat c then Some (Inr (Block hunk (length hunk)))
       else case cd_frames 0 hunk (nat (chd_framesPerHunk c)) of
            None \<Rightarrow> None
          | Some out \<Rightarrow> Some (Inr (Block out (length out))))"
    using i rep hunk(1) by (simp add: chd_ReadBlock_def chd_represents_def Let_def)
  show ?thesis
  proof (cases "chd_isCDFormat c")
    case True
    have f: "int (length hunk) = chd_framesPerHunk c * int cdFrameSize"
      "chd_blockSize c = chd_framesPerHunk c * int cdUserData"
      using rep True hunk(2) by (simp_all add: chd_represents_def)
    have "0 \<le> chd_framesPerHunk c"
      using rep f(2) by (simp add: chd_represents_def cdUserData_def zero_less_mult_iff)
    then have "nat (chd_framesPerHunk c) * cdFrameSize = length hunk"
      using f(1) by (metis nat_int nat_mult_distrib)
    then have "cd_frames 0 hunk (nat (chd_framesPerHunk c)) = Some (hunk_data hunk (nat (chd_framesPerHunk c)))"
      using cd_frames_ok [of 0 "nat (chd_framesPerHunk c)" hunk] by (simp add: hunk_data_def)
    then show ?thesis using True m f(2) \<open>0 \<le> chd_framesPerHunk c\<close>
      unfolding R by (simp add: block_matches_def nat_mult_distrib)
  next
    case False
    then show ?thesis using rep m hunk(2)
      unfolding R by (simp add: block_matches_def chd_represents_def)
  qed
qed

interpretation chd: block_reader "chd_ReadBlock K" chd_blockSize chd_numBlocks chd_size "chd_represents K" for K
  by unfold_locales (auto simp: chd_ReadBlock_ok, auto simp: chd_represents_def)

section \<open>Opening a file\<close>

lemma chd_read_header_layout:
  assumes "length compressors = 4" "length hashes = 60" "hunk \<noteq> 0"
  shows "chd_read_header (chd_layout compressors logical mapPos metaPos hunk unit hashes @ rest) =
    Some (Inr \<lparr>ch_compressors = compressors, ch_logicalBytes = logical, ch_hunkSize = hunk, ch_unitSize = unit\<rparr>)"
proof -
  obtain c0 c1 c2 c3 where c: "compressors = [c0, c1, c2, c3]"
    using assms(1) by (auto simp: length_Suc_conv eval_nat_numeral)
  let ?h = "chd_layout compressors logical mapPos metaPos hunk unit hashes"
  have len: "length ?h = 124" using assms(2) by (simp add: chd_layout_def c)
  then have r: "read_full (?h @ rest) 0 124 = Some (Inr ?h)" by (simp add: read_full_Inr)
  have s: "go_slice ?h 0 8 = Some chdMagic" "go_slice ?h 12 16 = Some (be32 5)"
    "go_slice ?h 16 20 = Some (be32 c0)" "go_slice ?h 20 24 = Some (be32 c1)"
    "go_slice ?h 24 28 = Some (be32 c2)" "go_slice ?h 28 32 = Some (be32 c3)"
    "go_slice ?h 32 40 = Some (be64 logical)" "go_slice ?h 56 60 = Some (be32 hunk)"
    "go_slice ?h 60 64 = Some (be32 unit)"
    unfolding go_slice_def len by (simp_all add: chd_layout_def c chdMagic_def)
  show ?thesis
    unfolding chd_read_header_def r try_ok_simps s using assms(3) by (simp add: c)
qed

lemma chd_isCD_layout:
  "chd_isCD \<lparr>ch_compressors = compressors, ch_logicalBytes = logical, ch_hunkSize = hunk, ch_unitSize = unit\<rparr> \<longleftrightarrow>
     cd_image compressors hunk unit"
proof -
  have "hunk mod 2448 = 0 \<longleftrightarrow> 2448 dvd unat hunk"
    by (simp add: word_unat_eq_iff unat_mod mod_eq_0_iff_dvd)
  moreover have "(\<exists>c \<in> set compressors. c \<noteq> 0 \<and> c \<in> cdCodecs) \<longleftrightarrow>
      (\<exists>c \<in> set compressors. c \<in> {0x63646C7A, 0x63647A6C, 0x6364666C})"
    unfolding cdCodecs_def by (intro bex_cong refl) auto
  ultimately show ?thesis unfolding chd_isCD_def cd_image_def by (simp add: cdFrameSize_def)
qed

text \<open>The user data of a hunk of sectors is a block of the image.\<close>

lemma hunk_data_sectors:
  assumes "\<forall>j < frames. sector_holds (take 2352 (drop (j * 2448) h)) (take 2048 (drop ((i * frames + j) * 2048) img))"
    "(i + 1) * (frames * 2048) \<le> length img"
  shows "hunk_data h frames = image_block img (int (frames * 2048)) (int i)"
proof -
  have "concat (map (\<lambda>j. extractUserData (take 2352 (drop (j * cdFrameSize) h))) [0..<n]) =
      take (n * 2048) (drop (i * (frames * 2048)) img)" if "n \<le> frames" for n
    using that
  proof (induction n)
    case (Suc n)
    have u: "extractUserData (take 2352 (drop (n * cdFrameSize) h)) = take 2048 (drop ((i * frames + n) * 2048) img)"
      using assms(1) Suc.prems by (simp add: extractUserData_sector cdFrameSize_def)
    have e: "(i * frames + n) * 2048 = n * 2048 + i * (frames * 2048)" by simp
    have "take (n * 2048 + 2048) (drop (i * (frames * 2048)) img) =
        take (n * 2048) (drop (i * (frames * 2048)) img) @ take 2048 (drop ((i * frames + n) * 2048) img)"
      unfolding take_add drop_drop e ..
    with u show ?case using Suc by (simp add: add.commute [of 2048])
  qed simp
  then show ?thesis by (simp add: hunk_data_def image_block_def nat_mult_distrib)
qed

lemma chd_read_header_hunkSize: "chd_read_header data = Some (Inr h) \<Longrightarrow> ch_hunkSize h \<noteq> 0"
  by (auto simp: chd_read_header_def try_ok_Inr Let_def split: if_splits option.splits bind_splits)

lemma chd_numBlocks_of_eq:
  assumes "uint (ch_logicalBytes h) < 2 ^ 40" "ch_hunkSize h \<noteq> 0"
  shows "chd_numBlocks_of h = blocks_of (uint (ch_logicalBytes h)) (uint (ch_hunkSize h))"
proof -
  let ?L = "ch_logicalBytes h" and ?H = "ucast (ch_hunkSize h) :: u64"
  have H: "uint ?H = uint (ch_hunkSize h)" by (rule uint_up_ucast) (simp add: is_up)
  have "uint (ch_hunkSize h) \<noteq> 0" using assms(2) by (simp add: word_uint_eq_iff)
  then have h: "0 < uint (ch_hunkSize h)" "uint (ch_hunkSize h) < 2 ^ 32"
    using uint_ge_0 [of "ch_hunkSize h"] uint_lt2p [of "ch_hunkSize h"] by (simp_all add: order_less_le)
  have "uint (?L + ?H - 1) = uint ?L + uint (ch_hunkSize h) - 1"
  proof -
    have "uint (?L + ?H - 1) = (uint ?L + uint (ch_hunkSize h) - 1) mod 2 ^ 64"
      by (simp add: uint_word_ariths H mod_simps)
    also have "\<dots> = uint ?L + uint (ch_hunkSize h) - 1"
    proof (rule mod_pos_pos_trivial)
      have "(2::int) ^ 40 + 2 ^ 32 \<le> 2 ^ 64" by simp
      then show "uint ?L + uint (ch_hunkSize h) - 1 < 2 ^ 64" using assms(1) h by linarith
      show "0 \<le> uint ?L + uint (ch_hunkSize h) - 1" using h(1) uint_ge_0 [of ?L] by linarith
    qed
    finally show ?thesis .
  qed
  then have "uint ((?L + ?H - 1) div ?H) = blocks_of (uint ?L) (uint (ch_hunkSize h))"
    by (simp add: uint_div blocks_of_def H)
  moreover have "blocks_of (uint ?L) (uint (ch_hunkSize h)) \<le> uint ?L"
    using h by (simp add: blocks_of_le)
  moreover have "0 \<le> blocks_of (uint ?L) (uint (ch_hunkSize h))"
    using h by (simp add: blocks_of_bounds)
  ultimately show ?thesis using assms(1) by (simp add: chd_numBlocks_of_def int64_id)
qed

lemma chd_isCD_frames:
  assumes "chd_isCD h"
  shows "uint (ch_hunkSize h) = chd_frames_of h * int cdFrameSize" "chd_frames_of h = uint (ch_hunkSize h) div 2448"
proof -
  have "uint (ch_hunkSize h mod 2448) = 0" using assms by (simp add: chd_isCD_def cdFrameSize_def)
  then have "uint (ch_hunkSize h) mod 2448 = 0" by (simp add: uint_mod)
  then show "chd_frames_of h = uint (ch_hunkSize h) div 2448"
    "uint (ch_hunkSize h) = chd_frames_of h * int cdFrameSize"
    by (auto simp: chd_frames_of_def cdFrameSize_def uint_div)
qed

text \<open>The reader \<^verbatim>\<open>parseHeader\<close> makes of a header.\<close>

definition chd_of_header :: "string \<Rightarrow> os_file \<Rightarrow> chd_header \<Rightarrow> CHD" where
  "chd_of_header path f h = \<lparr>chd_path = path, chd_chd = True, chd_hunkSize = uint (ch_hunkSize h),
     chd_blockSize = (if chd_isCD h then chd_frames_of h * int cdUserData else uint (ch_hunkSize h)),
     chd_numBlocks = chd_numBlocks_of h, chd_size = chd_size_of h, chd_isCDFormat = chd_isCD h,
     chd_framesPerHunk = (if chd_isCD h then chd_frames_of h else 0),
     chd_stat = NewCompressedInfo (Base (f_name f)) (chd_size_of h) (modTime_of f)\<rparr>"

lemma chd_of_header_represents:
  assumes hz: "ch_hunkSize h \<noteq> 0" and L: "uint (ch_logicalBytes h) < 2 ^ 40"
    and B: "blocks_of (uint (ch_logicalBytes h)) (uint (ch_hunkSize h)) \<le> 2 ^ 32"
    and img: "int (length img) =
         (if chd_isCD h
          then blocks_of (uint (ch_logicalBytes h)) (uint (ch_hunkSize h)) * (uint (ch_hunkSize h) div 2448 * 2048)
          else uint (ch_logicalBytes h))"
    and blk: "\<forall>i < nat (blocks_of (uint (ch_logicalBytes h)) (uint (ch_hunkSize h))).
      chd_block_ok K (chd_of_header path f h) img i"
  shows "chd_represents K (chd_of_header path f h) img"
proof -
  note nb = chd_numBlocks_of_eq [OF L hz]
  have "uint (ch_hunkSize h) \<noteq> 0" using hz by (simp add: word_uint_eq_iff)
  then have hs: "0 < uint (ch_hunkSize h)" "uint (ch_hunkSize h) < 2 ^ 32"
    using uint_ge_0 [of "ch_hunkSize h"] uint_lt2p [of "ch_hunkSize h"] by (simp_all add: order_less_le)
  note blk' = blk [folded nb]
  show ?thesis
  proof (cases "chd_isCD h")
    case True
    note fr = chd_isCD_frames [OF True]
    have f0: "0 < chd_frames_of h" "chd_frames_of h < 2 ^ 21"
      using hs fr(1) by (simp_all add: cdFrameSize_def)
    have nb0: "0 \<le> chd_numBlocks_of h" "chd_numBlocks_of h \<le> 2 ^ 32"
      using B hs by (simp_all add: nb blocks_of_bounds)
    have "chd_numBlocks_of h * uint (ch_hunkSize h) < 2 ^ 41"
      unfolding nb using blocks_of_bounds(2) [OF hs(1), of "uint (ch_logicalBytes h)"] L hs(2) by simp
    then have P41: "chd_numBlocks_of h * chd_frames_of h < 2 ^ 41"
      using nb0 f0 by (simp add: fr(1) cdFrameSize_def mult.commute [of "chd_numBlocks_of h"])
    define P where "P = chd_numBlocks_of h * chd_frames_of h"
    have P: "0 \<le> P" "P < 2 ^ 41" using nb0 f0 P41 by (simp_all add: P_def)
    then have "chd_size_of h = P * 2048"
      using True by (simp add: chd_size_of_def int64_id cdUserData_def flip: P_def)
    then have sz: "chd_size_of h = int (length img)" using img True fr(2) nb by (simp add: P_def)
    have "int (length img) = chd_numBlocks_of h * (chd_frames_of h * int cdUserData)"
      using img True fr(2) nb by (simp add: cdUserData_def)
    then have "chd_numBlocks_of h = blocks_of (int (length img)) (chd_frames_of h * int cdUserData)"
      using f0 by (simp add: blocks_of_mult cdUserData_def)
    then show ?thesis
      using True f0 nb0 hs fr(1) sz blk' unfolding chd_represents_def
      by (simp add: chd_of_header_def cdUserData_def)
  next
    case False
    then have "chd_size_of h = int (length img)"
      using img L by (simp add: chd_size_of_def sint_uint int64_id flip: int64_signed)
    then show ?thesis
      using False img hs nb B blk' unfolding chd_represents_def by (simp add: chd_of_header_def)
  qed
qed

lemma chd_open_ok:
  assumes "chd_image K path (f_data f) img" and op: "os_Open path = Inr f"
  shows "\<exists>c. chd_Open K os_Open path = Some (Inr c) \<and> chd_represents K c img"
proof -
  obtain compressors logical mapPos metaPos hunk unit hashes rest where
    d: "f_data f = chd_layout compressors logical mapPos metaPos hunk unit hashes @ rest"
    and w: "length compressors = 4" "length hashes = 60" "hunk \<noteq> 0"
    and L': "uint logical < 2 ^ 40" and B': "blocks_of (uint logical) (uint hunk) \<le> 2 ^ 32"
    and spec: "let hunks = nat (blocks_of (uint logical) (uint hunk)); frames = unat hunk div 2448 in
        if cd_image compressors hunk unit
        then length img = hunks * (frames * 2048) \<and>
          (\<forall>i < hunks. \<exists>h. chd_read K path (int i) = Some h \<and> length h = unat hunk \<and>
             (\<forall>j < frames. sector_holds (take 2352 (drop (j * 2448) h))
                (take 2048 (drop ((i * frames + j) * 2048) img))))
        else length img = unat logical \<and>
          (\<forall>i < hunks. \<exists>h. chd_read K path (int i) = Some h \<and> length h = unat hunk \<and>
             starts_with h (image_block img (uint hunk) (int i)))"
    and lib: "chd_open K path = 0"
    using assms(1) unfolding chd_image_def by blast
  define h where "h = \<lparr>ch_compressors = compressors, ch_logicalBytes = logical, ch_hunkSize = hunk, ch_unitSize = unit\<rparr>"
  have h: "chd_read_header (f_data f) = Some (Inr h)"
    unfolding d h_def by (rule chd_read_header_layout [OF w])
  have hz: "ch_hunkSize h \<noteq> 0" using w(3) by (simp add: h_def)
  define bl where "bl = blocks_of (uint logical) (uint hunk)"
  have u: "int (unat hunk) = uint hunk" "int (unat logical) = uint logical" by simp_all
  have "0 < uint hunk" using w(3) by (metis order_less_le uint_0_iff uint_ge_0)
  then have bl: "0 \<le> bl" "uint logical \<le> bl * uint hunk"
    using blocks_of_bounds [of "uint hunk" "uint logical"] by (simp_all add: bl_def)
  have rep: "chd_represents K (chd_of_header path f h) img"
  proof (rule chd_of_header_represents [OF hz])
    show "uint (ch_logicalBytes h) < 2 ^ 40"
      "blocks_of (uint (ch_logicalBytes h)) (uint (ch_hunkSize h)) \<le> 2 ^ 32"
      using L' B' by (simp_all add: h_def)
    show "int (length img) =
         (if chd_isCD h
          then blocks_of (uint (ch_logicalBytes h)) (uint (ch_hunkSize h)) * (uint (ch_hunkSize h) div 2448 * 2048)
          else uint (ch_logicalBytes h))"
    proof (cases "cd_image compressors hunk unit")
      case True
      then have "length img = nat bl * (unat hunk div 2448 * 2048)" using spec by (simp add: bl_def Let_def)
      then have "int (length img) = bl * (uint hunk div 2448 * 2048)"
        using bl(1) by (simp add: zdiv_int)
      then show ?thesis using True by (simp add: h_def chd_isCD_layout bl_def)
    next
      case False
      then have "length img = unat logical" using spec by (simp add: Let_def)
      then show ?thesis using False by (simp add: h_def chd_isCD_layout)
    qed
    show "\<forall>i < nat (blocks_of (uint (ch_logicalBytes h)) (uint (ch_hunkSize h))).
        chd_block_ok K (chd_of_header path f h) img i"
    proof (intro allI impI)
      fix i assume "i < nat (blocks_of (uint (ch_logicalBytes h)) (uint (ch_hunkSize h)))"
      then have i: "i < nat bl" by (simp add: h_def bl_def)
      show "chd_block_ok K (chd_of_header path f h) img i"
      proof (cases "cd_image compressors hunk unit")
        case True
        define frames where "frames = unat hunk div 2448"
        have len: "length img = nat bl * (frames * 2048)" and
          hunks: "\<forall>i < nat bl. \<exists>h. chd_read K path (int i) = Some h \<and> length h = unat hunk \<and>
             (\<forall>j < frames. sector_holds (take 2352 (drop (j * 2448) h))
                (take 2048 (drop ((i * frames + j) * 2048) img)))"
          using spec True by (simp_all add: bl_def frames_def Let_def)
        then obtain b where b: "chd_read K path (int i) = Some b" "length b = unat hunk"
          "\<forall>j < frames. sector_holds (take 2352 (drop (j * 2448) b))
                (take 2048 (drop ((i * frames + j) * 2048) img))"
          using i by blast
        have "(i + 1) * (frames * 2048) \<le> length img" unfolding len using i by (intro mult_right_mono) simp_all
        from hunk_data_sectors [OF b(3) this] have "hunk_data b frames = image_block img (int (frames * 2048)) (int i)" .
        moreover have "chd_frames_of h = int frames"
          by (simp add: chd_frames_of_def h_def cdFrameSize_def frames_def uint_div zdiv_int u)
        ultimately show ?thesis
          using True b(1,2) u(1) by (simp add: chd_block_ok_def chd_of_header_def chd_isCD_layout h_def cdUserData_def Let_def)
      next
        case False
        then have "\<exists>b. chd_read K path (int i) = Some b \<and> length b = unat hunk \<and>
             starts_with b (image_block img (uint hunk) (int i))"
          using spec i by (simp add: bl_def Let_def)
        then show ?thesis
          using False u(1) by (auto simp: chd_block_ok_def chd_of_header_def chd_isCD_layout h_def starts_with_def Let_def)
      qed
    qed
  qed
  have "chd_parseHeader path (Inr f) = Some (Inr (chd_of_header path f h))"
    using h by (simp add: chd_parseHeader_def chd_of_header_def)
  with rep op lib show ?thesis by (simp add: chd_Open_def)
qed

end
