(* ===== verification/Compression.thy ===== *)
theory Compression
  imports CachedReader CsoFormat ZsoFormat ChdFormat
begin

text \<open>
  The compression package as its clients see it (\<^verbatim>\<open>internal/fs/compression/compression.go\<close>): the
  three formats behind the \<^verbatim>\<open>BlockReader\<close> interface, opening a file by its extension, and the
  proof that an opened image reads like the uncompressed file.
\<close>

section \<open>The formats behind one interface\<close>

datatype BlockReader = BrZSO ZSO | BrCSO CSO | BrCHD CHD

fun br_ReadBlock :: "codecs \<Rightarrow> BlockReader \<Rightarrow> int \<Rightarrow> (go_error + block) option" where
  "br_ReadBlock K (BrZSO z) i = zso_ReadBlock K z i"
| "br_ReadBlock K (BrCSO c) i = cso_ReadBlock K c i"
| "br_ReadBlock K (BrCHD c) i = chd_ReadBlock K c i"

fun br_BlockSize :: "BlockReader \<Rightarrow> int" where
  "br_BlockSize (BrZSO z) = zso_blockSize z"
| "br_BlockSize (BrCSO c) = cso_blockSize c"
| "br_BlockSize (BrCHD c) = chd_blockSize c"

fun br_NumBlocks :: "BlockReader \<Rightarrow> int" where
  "br_NumBlocks (BrZSO z) = zso_numBlocks z"
| "br_NumBlocks (BrCSO c) = cso_numBlocks c"
| "br_NumBlocks (BrCHD c) = chd_numBlocks c"

fun br_UncompressedSize :: "BlockReader \<Rightarrow> int" where
  "br_UncompressedSize (BrZSO z) = zso_size z"
| "br_UncompressedSize (BrCSO c) = cso_size c"
| "br_UncompressedSize (BrCHD c) = chd_size c"

fun br_Close :: "BlockReader \<Rightarrow> BlockReader" where
  "br_Close (BrZSO z) = BrZSO (zso_Close z)"
| "br_Close (BrCSO c) = BrCSO (cso_Close c)"
| "br_Close (BrCHD c) = BrCHD (chd_Close c)"

fun br_represents :: "codecs \<Rightarrow> BlockReader \<Rightarrow> bytes \<Rightarrow> bool" where
  "br_represents K (BrZSO z) img = zso_represents K z img"
| "br_represents K (BrCSO c) img = cso_represents K c img"
| "br_represents K (BrCHD c) img = chd_represents K c img"

interpretation br: block_reader "br_ReadBlock K" br_BlockSize br_NumBlocks br_UncompressedSize "br_represents K" for K
proof
  fix r img i
  assume r: "br_represents K r img"
  then show "0 < br_BlockSize r"
    by (cases r) (auto dest: zso.blockSize_pos cso.blockSize_pos chd.blockSize_pos)
  show "br_UncompressedSize r = int (length img)"
    using r by (cases r) (auto dest: zso.size_eq cso.size_eq chd.size_eq)
  show "br_NumBlocks r = blocks_of (int (length img)) (br_BlockSize r)"
    using r by (cases r) (auto dest: zso.numBlocks_eq cso.numBlocks_eq chd.numBlocks_eq)
  assume "0 \<le> i" "i < br_NumBlocks r"
  then show "\<exists>b. br_ReadBlock K r i = Some (Inr b) \<and> block_matches b img (br_BlockSize r) i"
    using r by (cases r) (auto intro: zso.read_block cso.read_block chd.read_block)
qed

type_synonym compressed_file = "BlockReader CachedReader"

definition zso_Open :: "(string \<Rightarrow> go_error + os_file) \<Rightarrow> string \<Rightarrow> (go_error + ZSO) option" where
  "zso_Open os_Open path = (case os_Open path of Inl e \<Rightarrow> Some (Inl e) | Inr f \<Rightarrow> zso_parseHeader f)"

definition cso_Open :: "(string \<Rightarrow> go_error + os_file) \<Rightarrow> string \<Rightarrow> (go_error + CSO) option" where
  "cso_Open os_Open path = (case os_Open path of Inl e \<Rightarrow> Some (Inl e) | Inr f \<Rightarrow> cso_parseHeader f)"

text \<open>The reader gets an empty \<^verbatim>\<open>CompressedInfo\<close>: no name, size 0, the zero time.\<close>

definition empty_info :: CompressedInfo where
  "empty_info = \<lparr>ci_modTime = zero_time, ci_name = [], ci_size = 0\<rparr>"

definition wrap_reader :: "('r \<Rightarrow> BlockReader) \<Rightarrow> int \<Rightarrow> (go_error + 'r) option \<Rightarrow> compressed_file option option" where
  "wrap_reader br cacheSize opened =
     (case opened of
        None \<Rightarrow> None
      | Some (Inl _) \<Rightarrow> Some None
      | Some (Inr r) \<Rightarrow>
          let cacheSize = (if cacheSize \<le> 0 then 32 else cacheSize)
          in Some (Some (NewCachedReader br_BlockSize br_NumBlocks br_UncompressedSize (br r) cacheSize
                           (CompressedInfo_FileInfo empty_info))))"

definition compression_Open :: "codecs \<Rightarrow> (string \<Rightarrow> go_error + os_file) \<Rightarrow> string \<Rightarrow> int \<Rightarrow>
    compressed_file option option" where
  "compression_Open K os_Open path cacheSize =
     (let ext = ToLower (Ext path) in
      if ext \<in> set zso_Extensions then wrap_reader BrZSO cacheSize (zso_Open os_Open path)
      else if ext \<in> set cso_Extensions then wrap_reader BrCSO cacheSize (cso_Open os_Open path)
      else if ext \<in> set (chd_Extensions K) then wrap_reader BrCHD cacheSize (chd_Open K os_Open path)
      else Some None)"

definition GetSupportedExtensions :: "codecs \<Rightarrow> string list" where
  "GetSupportedExtensions K =
     cso_Extensions @ zso_Extensions @ (if chd_Available K then chd_Extensions K else [])"

definition GetSupportedFormats :: "codecs \<Rightarrow> string list" where
  "GetSupportedFormats K = [''ZSO'', ''CSO''] @ (if chd_Available K then [''CHD''] else [])"

definition compression_GetStat :: "codecs \<Rightarrow> (string \<Rightarrow> go_error + os_file) \<Rightarrow> string \<Rightarrow> FileInfo option" where
  "compression_GetStat K os_Open path =
     (let ext = ToLower (Ext path);
          fo = (case os_Open path of Inl _ \<Rightarrow> None | Inr f \<Rightarrow> Some f);
          fstat = (if ext \<in> set zso_Extensions then zso_GetStat path fo
                   else if ext \<in> set cso_Extensions then cso_GetStat path fo
                   else if ext \<in> set (chd_Extensions K) then chd_GetStat path fo
                   else None)
      in map_option CompressedInfo_FileInfo fstat)"

section \<open>An opened image reads like the file it stands for\<close>

text \<open>What a client does with a file, and what it sees.\<close>

datatype file_op = OpRead nat | OpSeek int int
datatype file_result = ResRead bytes "go_error option" | ResSeek int "go_error option"

fun run_reader :: "codecs \<Rightarrow> compressed_file \<Rightarrow> file_op list \<Rightarrow> file_result list option" where
  "run_reader K c [] = Some []"
| "run_reader K c (OpRead n # ops) = do {
     (c, b, e) \<leftarrow> CachedReader_Read (br_ReadBlock K) c n;
     rs \<leftarrow> run_reader K c ops;
     Some (ResRead b e # rs)
   }"
| "run_reader K c (OpSeek offset whence # ops) = do {
     let (c, p, e) = CachedReader_Seek c offset whence;
     rs \<leftarrow> run_reader K c ops;
     Some (ResSeek p e # rs)
   }"

text \<open>
  The specification is a plain file: a seek may go past the end but not before the start, a read
  there finds the end of the file, and a failed seek leaves the position alone.
\<close>

definition seek_target :: "bytes \<Rightarrow> int \<Rightarrow> int \<Rightarrow> int \<Rightarrow> int" where
  "seek_target img pos offset whence =
     offset + (if whence = 0 then 0 else if whence = 1 then pos else int (length img))"

fun run_plain :: "bytes \<Rightarrow> int \<Rightarrow> file_op list \<Rightarrow> file_result list" where
  "run_plain img pos [] = []"
| "run_plain img pos (OpRead n # ops) =
     (if n = 0 then ResRead [] None # run_plain img pos ops
      else if pos < int (length img)
      then let b = take n (drop (nat pos) img)
           in ResRead b None # run_plain img (pos + int (length b)) ops
      else ResRead [] (Some EOF) # run_plain img pos ops)"
| "run_plain img pos (OpSeek offset whence # ops) =
     (if whence \<in> {0, 1, 2} \<and> 0 \<le> seek_target img pos offset whence
      then ResSeek (seek_target img pos offset whence) None #
           run_plain img (seek_target img pos offset whence) ops
      else ResSeek pos (Some ErrInvalid) # run_plain img pos ops)"

text \<open>
  Clients that read at least one byte at a time and seek inside the file, its end included. Other
  seeks of an image are clamped to the nearest end, which a plain file does not do.
\<close>

fun stays_inside :: "bytes \<Rightarrow> int \<Rightarrow> file_op list \<Rightarrow> bool" where
  "stays_inside img pos [] = True"
| "stays_inside img pos (OpRead n # ops) \<longleftrightarrow>
     0 < n \<and> stays_inside img (pos + int (min n (length img - nat pos))) ops"
| "stays_inside img pos (OpSeek offset whence # ops) \<longleftrightarrow>
     whence \<in> {0, 1, 2} \<and> 0 \<le> seek_target img pos offset whence \<and>
     seek_target img pos offset whence \<le> int (length img) \<and>
     stays_inside img (seek_target img pos offset whence) ops"

definition clamp :: "int \<Rightarrow> int \<Rightarrow> int" where
  "clamp sz p = (if p < 0 then 0 else if sz < p then sz else p)"

lemma Seek_clamps:
  assumes "br.reader_ok K c img" "int (length img) < 2 ^ 62" "\<bar>offset\<bar> \<le> 2 ^ 62" "whence \<in> {0, 1, 2}"
  shows "\<exists>c'. CachedReader_Seek c offset whence = (c', cr_pos c', None) \<and> br.reader_ok K c' img \<and>
    cr_pos c' = clamp (int (length img)) (seek_target img (cr_pos c) offset whence)"
proof -
  have pos: "0 \<le> cr_pos c" "cr_pos c \<le> int (length img)" "cr_size c = int (length img)"
    using assms(1) by (simp_all add: br.reader_ok_def)
  define p where "p = seek_target img (cr_pos c) offset whence"
  have p64: "(if whence = 0 then offset else if whence = 1 then int64 (cr_pos c + offset)
              else int64 (cr_size c + offset)) = p"
    using assms(2,3) pos by (simp add: p_def seek_target_def int64_id)
  let ?c = "c\<lparr>cr_pos := clamp (int (length img)) p\<rparr>"
  have "CachedReader_Seek c offset whence = (?c, cr_pos ?c, None)"
    using assms(4) pos(3) unfolding CachedReader_Seek_def p64 Let_def by (auto simp: clamp_def)
  moreover have "br.reader_ok K ?c img"
    using assms(1) pos by (simp add: br.reader_ok_def clamp_def)
  ultimately show ?thesis unfolding p_def [symmetric] by (intro exI [of _ ?c]) simp
qed

lemma Seek_inside:
  assumes ok: "br.reader_ok K c img" and img: "int (length img) < 2 ^ 62" and w: "whence \<in> {0, 1, 2}"
    and t: "0 \<le> seek_target img (cr_pos c) offset whence" "seek_target img (cr_pos c) offset whence \<le> int (length img)"
  shows "\<exists>c'. CachedReader_Seek c offset whence = (c', cr_pos c', None) \<and> br.reader_ok K c' img \<and>
    cr_pos c' = seek_target img (cr_pos c) offset whence"
proof -
  have "0 \<le> cr_pos c" "cr_pos c \<le> int (length img)" using ok by (simp_all add: br.reader_ok_def)
  then have "\<bar>offset\<bar> \<le> 2 ^ 62" using t img by (auto simp: seek_target_def split: if_splits)
  from Seek_clamps [OF ok img this w] show ?thesis using t by (simp add: clamp_def)
qed

lemma run_reader_plain:
  assumes "br.reader_ok K c img" "int (length img) < 2 ^ 62" "stays_inside img (cr_pos c) ops"
  shows "run_reader K c ops = Some (run_plain img (cr_pos c) ops)"
  using assms
proof (induction ops arbitrary: c)
  case (Cons op ops)
  have pos: "0 \<le> cr_pos c" "cr_pos c \<le> cr_size c" "cr_size c = int (length img)"
    using Cons.prems(1) by (simp_all add: br.reader_ok_def)
  show ?case
  proof (cases op)
    case (OpRead n)
    let ?b = "take n (drop (nat (cr_pos c)) img)"
    have n: "0 < n" and inside: "stays_inside img (cr_pos c + int (length ?b)) ops"
      using Cons.prems(3) OpRead by (simp_all add: min.commute)
    show ?thesis
    proof (cases "cr_pos c < cr_size c")
      case True
      then obtain c' where c': "CachedReader_Read (br_ReadBlock K) c n = Some (c', ?b, None)"
        "br.reader_ok K c' img" "cr_pos c' = cr_pos c + int (length ?b)"
        using br.Read_ok [OF Cons.prems(1), of n] by (auto simp: min.commute)
      from Cons.IH [OF c'(2) Cons.prems(2)] inside
      have "run_reader K c' ops = Some (run_plain img (cr_pos c + int (length ?b)) ops)"
        unfolding c'(3) by blast
      then show ?thesis using True n OpRead c'(1) pos(3) by (simp add: Let_def)
    next
      case False
      then have "cr_pos c = int (length img)" using pos by simp
      then show ?thesis
        using n OpRead Cons.IH [OF Cons.prems(1,2)] inside br.Read_eof [OF Cons.prems(1), of n] pos(3) by simp
    qed
  next
    case (OpSeek offset whence)
    then have w: "whence \<in> {0, 1, 2}" and t: "0 \<le> seek_target img (cr_pos c) offset whence"
      "seek_target img (cr_pos c) offset whence \<le> int (length img)"
      and inside: "stays_inside img (seek_target img (cr_pos c) offset whence) ops"
      using Cons.prems(3) by simp_all
    obtain c' where c': "CachedReader_Seek c offset whence = (c', cr_pos c', None)" "br.reader_ok K c' img"
      "cr_pos c' = seek_target img (cr_pos c) offset whence"
      using Seek_inside [OF Cons.prems(1,2) w t] by blast
    from Cons.IH [OF c'(2) Cons.prems(2)] inside
    have "run_reader K c' ops = Some (run_plain img (cr_pos c') ops)" unfolding c'(3) by blast
    then show ?thesis using OpSeek c'(1,3) w t(1) by simp
  qed
qed simp

lemma wrap_reader_ok:
  assumes "br_represents K (br r) img"
  shows "\<exists>c. wrap_reader br cacheSize (Some (Inr r)) = Some (Some c) \<and> br.reader_ok K c img \<and> cr_pos c = 0"
  using br.reader_ok_new [OF assms] by (simp add: wrap_reader_def NewCachedReader_def Let_def)

lemma compression_Open_ok:
  assumes "image_file K path f img" "os_Open path = Inr f"
  shows "\<exists>c. compression_Open K os_Open path cacheSize = Some (Some c) \<and> br.reader_ok K c img \<and> cr_pos c = 0"
proof -
  let ?ext = "ToLower (Ext path)"
  consider (zso) "?ext \<in> set zso_Extensions" "zso_image K (f_data f) img"
    | (cso) "?ext \<notin> set zso_Extensions" "?ext \<in> set cso_Extensions" "cso_image K (f_data f) img"
    | (chd) "?ext \<notin> set zso_Extensions" "?ext \<notin> set cso_Extensions" "?ext \<in> set (chd_Extensions K)"
        "chd_image K path (f_data f) img"
    using assms(1) unfolding image_file_def
    by (auto simp: zso_Extensions_def cso_Extensions_def chd_Extensions_def)
  then show ?thesis
  proof cases
    case zso
    then show ?thesis
      using zso_open_ok [OF zso(2)] assms(2) wrap_reader_ok [of K BrZSO _ img cacheSize]
      by (auto simp: compression_Open_def zso_Open_def Let_def)
  next
    case cso
    then show ?thesis
      using cso_open_ok [OF cso(3)] assms(2) wrap_reader_ok [of K BrCSO _ img cacheSize]
      by (auto simp: compression_Open_def cso_Open_def Let_def)
  next
    case chd
    then show ?thesis
      using chd_open_ok [OF chd(4), of os_Open, OF assms(2)] wrap_reader_ok [of K BrCHD _ img cacheSize]
      by (auto simp: compression_Open_def Let_def)
  qed
qed

text \<open>C7: Opening a well-formed compressed image succeeds, and a client that reads at least a byte at a
  time and seeks inside the image sees what it would see of the uncompressed file: the same bytes,
  positions and ends of file, whatever the block size and the size of the cache. Well-formed is what
  \<open>image_file\<close> says of the bytes of a CSO, ZISO, ZSO or CHD file; a ZSO file has no block marked as
  plain, and a CHD file is read through libchdr.\<close>

theorem compressed_image_reads_plain:
  assumes "image_file K path f img" "os_Open path = Inr f"
    "int (length img) < 2 ^ 62" "stays_inside img 0 ops"
  shows "\<exists>c. compression_Open K os_Open path cacheSize = Some (Some c) \<and>
    run_reader K c ops = Some (run_plain img 0 ops)"
  using compression_Open_ok [OF assms(1), of os_Open cacheSize, OF assms(2)] run_reader_plain [OF _ assms(3)] assms(4)
  by metis

text \<open>
  Examples. The codecs expand a count and a byte; zlib has a trailing byte. The CSO file has a plain,
  a deflated and a zlib block, the ZISO file a plain block and two compressed ones, of which the
  first is padded to the alignment, and the CHD file two hunks of one CD sector each, in mode 1 and
  in mode 2.
\<close>

definition example_img :: bytes where
  "example_img = [1, 2, 3, 4, 7, 7, 7, 7, 9]"

definition example_cso :: os_file where
  "example_cso = \<lparr>f_data = cso_layout 9 4 0 @ concat (map le32 [0x80000028, 44, 46, 49]) @
      [1, 2, 3, 4] @ [4, 7] @ [1, 9, 0],
    f_name = ''/g/game.cso'', f_modTime = None\<rparr>"

definition example_ziso :: os_file where
  "example_ziso = \<lparr>f_data = zso_layout True 24 9 4 1 @ concat (map le32 [0x80000014, 22, 24, 25]) @
      [1, 2, 3, 4] @ [4, 7, 0, 0] @ [1, 9],
    f_name = ''/g/game.zso'', f_modTime = None\<rparr>"

definition example_cd :: bytes where
  "example_cd = replicate 2048 5 @ replicate 2048 6"

definition example_hunk :: "int \<Rightarrow> bytes option" where
  "example_hunk i =
     (if i = 0 then Some (sync_pattern @ [0, 2, 0] @ [1] @ replicate 2048 5 @ replicate 288 1 @ replicate 96 2)
      else if i = 1 then Some (sync_pattern @ [0, 2, 1] @ [2] @ replicate 8 3 @ replicate 2048 6 @ replicate 280 1 @ replicate 96 2)
      else None)"

definition example_chd :: os_file where
  "example_chd = \<lparr>f_data = chd_layout [0x63646C7A, 0, 0, 0] 4896 124 0 2448 2448 (replicate 60 0),
    f_name = ''/g/game.chd'', f_modTime = None\<rparr>"

definition example_codecs :: codecs where
  "example_codecs = \<lparr>
     inflate = (\<lambda>src. case src of [n, b] \<Rightarrow> Some (replicate (unat n) b) | _ \<Rightarrow> None),
     zlib_inflate = (\<lambda>src. case src of [n, b, _] \<Rightarrow> Some (replicate (unat n) b) | _ \<Rightarrow> None),
     lz4_block = (\<lambda>src n. case src of
        [k, b] \<Rightarrow> if unat k \<le> n then Some (replicate (unat k) b @ replicate (n - unat k) 0, unat k) else None
      | _ \<Rightarrow> None),
     chd_Available = True, chd_open = (\<lambda>_. 0), chd_read = (\<lambda>_. example_hunk)\<rparr>"

definition no_codecs :: codecs where
  "no_codecs = \<lparr>inflate = (\<lambda>_. None), zlib_inflate = (\<lambda>_. None), lz4_block = (\<lambda>_ _. None),
     chd_Available = False, chd_open = (\<lambda>_. 1), chd_read = (\<lambda>_ _. None)\<rparr>"

lemma example_entries:
  "entry_pos 0 0x80000028 = 40" "entry_pos 0 44 = 44" "entry_pos 0 46 = 46" "entry_pos 0 49 = 49"
  "entry_pos 1 0x80000014 = 40" "entry_pos 1 22 = 44" "entry_pos 1 24 = 48" "entry_pos 1 25 = 50"
  "stored_plain 0x80000028" "stored_plain 0x80000014"
  "\<not> stored_plain 44" "\<not> stored_plain 46" "\<not> stored_plain 22" "\<not> stored_plain 24"
  by code_simp+

lemma example_blocks:
  "length example_img = 9" "image_block example_img 4 0 = [1, 2, 3, 4]"
  "image_block example_img 4 1 = [7, 7, 7, 7]" "image_block example_img 4 2 = [9]"
  by (simp_all add: example_img_def image_block_def)

lemma example_codec:
  "inflate example_codecs [4, 7] = Some [7, 7, 7, 7]" "inflate example_codecs [1, 9, 0] = None"
  "zlib_inflate example_codecs [1, 9, 0] = Some [9]"
  "lz4_block example_codecs [4, 7] 4 = Some ([7, 7, 7, 7], 4)" "lz4_block example_codecs [4, 7, 0] 4 = None"
  "lz4_block example_codecs [4, 7, 0, 0] 4 = None" "lz4_block example_codecs [1, 9] 4 = Some ([9, 0, 0, 0], 1)"
  by code_simp+

lemma all_less_3: "(\<forall>i < (3 :: nat). P i) \<longleftrightarrow> P 0 \<and> P 1 \<and> P 2"
  by (simp add: eval_nat_numeral less_Suc_eq all_conj_distrib imp_disjL)

lemma example_cso_ok: "image_file example_codecs ''/g/game.cso'' example_cso example_img"
proof -
  let ?e = "[0x80000028, 44, 46, 49] :: u32 list" and ?f = "f_data example_cso"
  have ext: "ToLower (Ext ''/g/game.cso'') = ''.cso''" by code_simp
  have len: "length ?f = 49" by (simp add: example_cso_def cso_layout_def)
  have b: "drop 40 ?f = [1, 2, 3, 4, 4, 7, 1, 9, 0]" by (simp add: example_cso_def cso_layout_def)
  have "drop 44 ?f = drop 4 (drop 40 ?f)" "drop 46 ?f = drop 6 (drop 40 ?f)" by simp_all
  then have b': "drop 44 ?f = [4, 7, 1, 9, 0]" "drop 46 ?f = [1, 9, 0]" unfolding b by simp_all
  have "cso_image example_codecs ?f example_img"
    unfolding cso_image_def
  proof (intro conjI exI)
    show "?f = cso_layout (of_nat (length example_img)) 4 0 @ concat (map le32 ?e) @ [1, 2, 3, 4, 4, 7, 1, 9, 0]"
      by (simp add: example_cso_def example_img_def)
    have "cso_block example_codecs ?f ?e 0 4 0 [1, 2, 3, 4]"
      by (simp add: cso_block_def example_entries starts_with_def len b)
    moreover have "cso_block example_codecs ?f ?e 0 4 1 [7, 7, 7, 7]"
      by (simp add: cso_block_def example_entries starts_with_def bytes_at_def inflated_def example_codec len b')
    moreover have "cso_block example_codecs ?f ?e 0 4 2 [9]"
      by (simp add: cso_block_def example_entries starts_with_def bytes_at_def inflated_def example_codec len b')
    ultimately show "\<forall>i < length ?e - 1.
        cso_block example_codecs ?f ?e 0 (unat (4 :: u32)) i (image_block example_img (uint (4 :: u32)) (int i))"
      by (simp add: all_less_3 [unfolded numeral_3_eq_3] example_blocks)
  qed (simp_all add: example_img_def blocks_of_def len)
  with ext show ?thesis by (simp add: image_file_def)
qed

lemma example_lz4_ok: "lz4_ok example_codecs"
  by (auto simp: lz4_ok_def example_codecs_def split: list.splits if_splits)

lemma example_padded:
  "lz4_padded example_codecs [4, 7, 0, 0] 4 [7, 7, 7, 7]" "lz4_padded example_codecs [1, 9] 4 [9, 0, 0, 0]"
proof -
  have "lz4_block example_codecs (take j [4, 7, 0, 0]) 4 = None" if "2 < j" "j \<le> 4" for j
  proof -
    have "j = 3 \<or> j = 4" using that by auto
    then show ?thesis using example_codec(5,6) by (auto simp: eval_nat_numeral)
  qed
  then show "lz4_padded example_codecs [4, 7, 0, 0] 4 [7, 7, 7, 7]"
    unfolding lz4_padded_def using example_codec(4) by (intro exI [of _ "[4, 7]"] exI [of _ "[0, 0]"]) simp
  show "lz4_padded example_codecs [1, 9] 4 [9, 0, 0, 0]"
    unfolding lz4_padded_def using example_codec(7) by (intro exI [of _ "[1, 9]"] exI [of _ "[]"]) simp
qed

lemma example_ziso_ok: "image_file example_codecs ''/g/game.zso'' example_ziso example_img"
proof -
  let ?e = "[0x80000014, 22, 24, 25] :: u32 list" and ?f = "f_data example_ziso"
  have ext: "ToLower (Ext ''/g/game.zso'') = ''.zso''" by code_simp
  have len: "length ?f = 50" by (simp add: example_ziso_def zso_layout_def)
  have b: "drop 40 ?f = [1, 2, 3, 4, 4, 7, 0, 0, 1, 9]" by (simp add: example_ziso_def zso_layout_def)
  have "drop 44 ?f = drop 4 (drop 40 ?f)" "drop 48 ?f = drop 8 (drop 40 ?f)" by simp_all
  then have b': "drop 44 ?f = [4, 7, 0, 0, 1, 9]" "drop 48 ?f = [1, 9]" unfolding b by simp_all
  have "zso_image example_codecs ?f example_img"
    unfolding zso_image_def
  proof (intro conjI exI)
    show "?f = zso_layout True 24 (of_nat (length example_img)) 4 1 @
        concat (map le32 ?e) @ [1, 2, 3, 4, 4, 7, 0, 0, 1, 9]"
      by (simp add: example_ziso_def example_img_def)
    show "?f = zso_layout True 24 9 4 1 @ concat (map le32 ?e) @ [1, 2, 3, 4, 4, 7, 0, 0, 1, 9]"
      by (simp add: example_ziso_def)
    have "ziso_block example_codecs ?f ?e 1 4 0 [1, 2, 3, 4]"
      by (simp add: ziso_block_def example_entries starts_with_def bytes_at_def len b)
    moreover have "ziso_block example_codecs ?f ?e 1 4 1 [7, 7, 7, 7]"
      using example_padded(1) by (auto simp: ziso_block_def example_entries starts_with_def bytes_at_def len b')
    moreover have "ziso_block example_codecs ?f ?e 1 4 2 [9]"
      using example_padded(2) by (auto simp: ziso_block_def example_entries starts_with_def bytes_at_def len b')
    ultimately show "\<forall>i < nat (blocks_of (int (length example_img)) (uint (4 :: u32))).
        if True then ziso_block example_codecs ?f ?e 1 (unat (4 :: u32)) i (image_block example_img (uint (4 :: u32)) (int i))
        else zso_block example_codecs ?f ?e (unat (4 :: u32)) i (image_block example_img (uint (4 :: u32)) (int i))"
      by (simp add: all_less_3 example_blocks blocks_of_def)
  qed (simp_all add: example_img_def blocks_of_def len example_lz4_ok)
  with ext show ?thesis by (simp add: image_file_def)
qed

lemma example_chd_ok: "image_file example_codecs ''/g/game.chd'' example_chd example_cd"
proof -
  have ext: "ToLower (Ext ''/g/game.chd'') = ''.chd''" by code_simp
  have sector: "sector_holds (take 2352 (the (example_hunk 0))) (take 2048 example_cd)"
    "sector_holds (take 2352 (the (example_hunk 1))) (take 2048 (drop 2048 example_cd))"
  proof -
    have "take 2352 (the (example_hunk 0)) = sync_pattern @ [0, 2, 0] @ [1] @ replicate 2048 5 @ replicate 288 1"
      "take 2352 (the (example_hunk 1)) =
        sync_pattern @ [0, 2, 1] @ [2] @ replicate 8 3 @ replicate 2048 6 @ replicate 280 1"
      by (simp_all add: example_hunk_def sync_pattern_eq(2))
    moreover have "take 2048 example_cd = replicate 2048 5" "take 2048 (drop 2048 example_cd) = replicate 2048 6"
      by (simp_all add: example_cd_def)
    ultimately show "sector_holds (take 2352 (the (example_hunk 0))) (take 2048 example_cd)"
      "sector_holds (take 2352 (the (example_hunk 1))) (take 2048 (drop 2048 example_cd))"
      using sector_holds.mode1 [of "[0, 2, 0]" 1 "replicate 2048 5" "replicate 288 1"]
        sector_holds.mode2 [of "[0, 2, 1]" "replicate 8 3" "replicate 2048 6" "replicate 280 1"] by simp_all
  qed
  have hunk: "example_hunk 0 = Some (the (example_hunk 0))" "length (the (example_hunk 0)) = 2448"
    "example_hunk 1 = Some (the (example_hunk 1))" "length (the (example_hunk 1)) = 2448"
    by (simp_all add: example_hunk_def sync_pattern_eq(2))
  have cd: "cd_image [0x63646C7A, 0, 0, 0] 2448 2448" by (simp add: cd_image_def)
  have n: "nat (blocks_of (uint (4896 :: u64)) (uint (2448 :: u32))) = 2" by (simp add: blocks_of_def)
  have two: "(\<forall>i < (2 :: nat). P i) \<longleftrightarrow> P 0 \<and> P 1" for P by (auto simp: less_2_cases_iff)
  have "chd_image example_codecs ''/g/game.chd'' (f_data example_chd) example_cd"
    unfolding chd_image_def
  proof (intro conjI exI)
    show "f_data example_chd = chd_layout [0x63646C7A, 0, 0, 0] 4896 124 0 2448 2448 (replicate 60 0) @ []"
      by (simp add: example_chd_def)
    show "let hunks = nat (blocks_of (uint (4896 :: u64)) (uint (2448 :: u32))); frames = unat (2448 :: u32) div 2448 in
        if cd_image [0x63646C7A, 0, 0, 0] 2448 2448
        then length example_cd = hunks * (frames * 2048) \<and>
          (\<forall>i < hunks. \<exists>h. chd_read example_codecs ''/g/game.chd'' (int i) = Some h \<and> length h = unat (2448 :: u32) \<and>
             (\<forall>j < frames. sector_holds (take 2352 (drop (j * 2448) h))
                (take 2048 (drop ((i * frames + j) * 2048) example_cd))))
        else length example_cd = unat (4896 :: u64) \<and>
          (\<forall>i < hunks. \<exists>h. chd_read example_codecs ''/g/game.chd'' (int i) = Some h \<and> length h = unat (2448 :: u32) \<and>
             starts_with h (image_block example_cd (uint (2448 :: u32)) (int i)))"
    proof -
      have "chd_read example_codecs ''/g/game.chd'' = example_hunk" by (simp add: example_codecs_def)
      moreover have "length example_cd = 4096" by (simp add: example_cd_def)
      ultimately show ?thesis
        unfolding Let_def n two using cd hunk sector
        by (simp del: length_replicate) (intro conjI exI [of _ "the (example_hunk 0)"] exI [of _ "the (example_hunk 1)"]; simp)
    qed
  qed (simp_all add: example_codecs_def blocks_of_def)
  with ext show ?thesis by (simp add: image_file_def example_codecs_def)
qed

theorem compressed_image_reads_plain_witness:
  "(\<exists>c. compression_Open example_codecs (\<lambda>_. Inr example_cso) ''/g/game.cso'' 2 = Some (Some c) \<and>
     run_reader example_codecs c [OpRead 6, OpSeek 3 0, OpRead 100, OpRead 1] =
       Some [ResRead [1, 2, 3, 4, 7, 7] None, ResSeek 3 None, ResRead [4, 7, 7, 7, 7, 9] None,
             ResRead [] (Some EOF)]) \<and>
   (\<exists>c. compression_Open example_codecs (\<lambda>_. Inr example_ziso) ''/g/game.zso'' 1 = Some (Some c) \<and>
     run_reader example_codecs c [OpSeek (- 2) 2, OpRead 6, OpSeek (- 7) 1, OpRead 3] =
       Some [ResSeek 7 None, ResRead [7, 9] None, ResSeek 2 None, ResRead [3, 4, 7] None]) \<and>
   (\<exists>c. compression_Open example_codecs (\<lambda>_. Inr example_chd) ''/g/game.chd'' 0 = Some (Some c) \<and>
     run_reader example_codecs c [OpSeek 2046 0, OpRead 4, OpSeek (- 1) 2, OpRead 5] =
       Some [ResSeek 2046 None, ResRead [5, 5, 6, 6] None, ResSeek 4095 None, ResRead [6] None])"
proof (intro conjI)
  have cso: "run_plain example_img 0 [OpRead 6, OpSeek 3 0, OpRead 100, OpRead 1] =
      [ResRead [1, 2, 3, 4, 7, 7] None, ResSeek 3 None, ResRead [4, 7, 7, 7, 7, 9] None, ResRead [] (Some EOF)]"
    by (simp add: example_img_def seek_target_def)
  show "\<exists>c. compression_Open example_codecs (\<lambda>_. Inr example_cso) ''/g/game.cso'' 2 = Some (Some c) \<and>
     run_reader example_codecs c [OpRead 6, OpSeek 3 0, OpRead 100, OpRead 1] =
       Some [ResRead [1, 2, 3, 4, 7, 7] None, ResSeek 3 None, ResRead [4, 7, 7, 7, 7, 9] None,
             ResRead [] (Some EOF)]"
    unfolding cso [symmetric]
    by (rule compressed_image_reads_plain [OF example_cso_ok]) (simp_all add: example_img_def seek_target_def)
  have zso: "run_plain example_img 0 [OpSeek (- 2) 2, OpRead 6, OpSeek (- 7) 1, OpRead 3] =
      [ResSeek 7 None, ResRead [7, 9] None, ResSeek 2 None, ResRead [3, 4, 7] None]"
    by (simp add: example_img_def seek_target_def)
  show "\<exists>c. compression_Open example_codecs (\<lambda>_. Inr example_ziso) ''/g/game.zso'' 1 = Some (Some c) \<and>
     run_reader example_codecs c [OpSeek (- 2) 2, OpRead 6, OpSeek (- 7) 1, OpRead 3] =
       Some [ResSeek 7 None, ResRead [7, 9] None, ResSeek 2 None, ResRead [3, 4, 7] None]"
    unfolding zso [symmetric]
    by (rule compressed_image_reads_plain [OF example_ziso_ok]) (simp_all add: example_img_def seek_target_def)
  have chd: "run_plain example_cd 0 [OpSeek 2046 0, OpRead 4, OpSeek (- 1) 2, OpRead 5] =
      [ResSeek 2046 None, ResRead [5, 5, 6, 6] None, ResSeek 4095 None, ResRead [6] None]"
    by (simp add: example_cd_def seek_target_def eval_nat_numeral)
  show "\<exists>c. compression_Open example_codecs (\<lambda>_. Inr example_chd) ''/g/game.chd'' 0 = Some (Some c) \<and>
     run_reader example_codecs c [OpSeek 2046 0, OpRead 4, OpSeek (- 1) 2, OpRead 5] =
       Some [ResSeek 2046 None, ResRead [5, 5, 6, 6] None, ResSeek 4095 None, ResRead [6] None]"
    unfolding chd [symmetric]
    by (rule compressed_image_reads_plain [OF example_chd_ok]) (simp_all add: example_cd_def seek_target_def)
qed

section \<open>What an opened image says of itself\<close>

lemma compression_Open_info:
  "compression_Open K os_Open path cacheSize = Some (Some c) \<Longrightarrow> cr_info c = CompressedInfo_FileInfo empty_info"
  by (auto simp: compression_Open_def wrap_reader_def NewCachedReader_def Let_def
      split: if_splits option.splits sum.splits)

text \<open>
  Whatever the file, a compressed image that opens reports an empty name and size 0, because
  \<^verbatim>\<open>Open\<close> hands the reader an empty information record.
\<close>

lemma compressed_Stat_empty:
  assumes "compression_Open K os_Open path cacheSize = Some (Some c)"
  shows "CachedReader_Name c = []" "fi_size (CachedReader_Stat c) = 0"
  using compression_Open_info [OF assms]
  by (simp_all add: CachedReader_Name_def CachedReader_Stat_def CompressedInfo_FileInfo_def empty_info_def)

section \<open>Negative sizes\<close>

text \<open>
  The length of the block map that \<^verbatim>\<open>parseHeader\<close> allocates, for \<open>k\<close> entries more than blocks: Go
  truncates the quotient towards zero, so that it is negative only for sizes well below zero.
\<close>

lemma map_length_negative:
  assumes b: "0 < b" "b < 2 ^ 32" and x: "\<bar>x\<bar> \<le> 2 ^ 60" and k: "k \<in> {0, 1 :: int}"
  shows "int64 ((go_quot (int64 (x + b - 1)) b + k) * 4) = 4 * (go_quot (int64 (x + b - 1)) b + k)"
    "go_quot (int64 (x + b - 1)) b + k < 0 \<longleftrightarrow> x \<le> 1 - (k + 2) * b"
proof -
  define y where "y = x + b - 1"
  have y64: "int64 (x + b - 1) = y" unfolding y_def using b x by (intro int64_id) simp_all
  define q where "q = \<bar>y\<bar> div b"
  have y: "\<bar>y\<bar> \<le> 2 ^ 60 + 2 ^ 32" using b x by (simp add: y_def)
  have "q \<le> \<bar>y\<bar> div 1" unfolding q_def using b by (intro zdiv_mono2) simp_all
  then have q: "0 \<le> q" "q \<le> 2 ^ 60 + 2 ^ 32" using y b by (simp_all add: q_def pos_imp_zdiv_nonneg_iff)
  have quot: "go_quot y b = (if y < 0 then - q else q)" using b by (auto simp: go_quot_def q_def sgn_if)
  show "int64 ((go_quot (int64 (x + b - 1)) b + k) * 4) = 4 * (go_quot (int64 (x + b - 1)) b + k)"
    unfolding y64 quot using q k by (subst int64_id) auto
  have "k + 1 \<le> q \<longleftrightarrow> (k + 1) * b \<le> \<bar>y\<bar>"
  proof
    assume "k + 1 \<le> q"
    then have "(k + 1) * b \<le> q * b" using b by (intro mult_right_mono) simp_all
    also have "\<dots> \<le> \<bar>y\<bar>" using pos_mod_sign [OF b(1), of "\<bar>y\<bar>"] div_mult_mod_eq [of "\<bar>y\<bar>" b]
      unfolding q_def by linarith
    finally show "(k + 1) * b \<le> \<bar>y\<bar>" .
  next
    assume "(k + 1) * b \<le> \<bar>y\<bar>"
    then have "(k + 1) * b div b \<le> q" unfolding q_def using b by (intro zdiv_mono1) simp_all
    then show "k + 1 \<le> q" using b by simp
  qed
  then have "go_quot y b + k < 0 \<longleftrightarrow> y < 0 \<and> (k + 1) * b \<le> - y"
    unfolding quot using q k by auto
  also have "\<dots> \<longleftrightarrow> (k + 1) * b \<le> - y" using b k by auto
  also have "\<dots> \<longleftrightarrow> x \<le> 1 - (k + 2) * b" by (simp add: y_def algebra_simps)
  finally show "go_quot (int64 (x + b - 1)) b + k < 0 \<longleftrightarrow> x \<le> 1 - (k + 2) * b" unfolding y64 .
qed

lemma block_map_None:
  assumes "0 \<le> off" "m = 4 * n"
  shows "try_ok (read_full f off m) (\<lambda>b. do { ws \<leftarrow> words32 (nat n) b; Some (Inr (g ws)) }) = None \<longleftrightarrow> n < 0"
proof (cases "read_full f off m")
  case None
  then have "n < 0" using assms by (simp add: read_full_None)
  then show ?thesis unfolding None by simp
next
  case (Some r)
  then have n: "0 \<le> n" using assms read_full_None [of f off m] by auto
  have "words32 (nat n) b \<noteq> None" if "r = Inr b" for b
  proof -
    have "int (length b) = 4 * n" using Some that assms(2) by (metis read_full_length)
    then have "4 * nat n \<le> length b" using n by linarith
    from words32_some [OF this] show ?thesis by auto
  qed
  then show ?thesis using n Some by (cases r) (auto split: bind_splits)
qed

lemma uint_pos: "bs \<noteq> 0 \<Longrightarrow> 0 < uint (bs :: u32)" "uint (bs :: u32) < 2 ^ 32"
  using uint_ge_0 [of bs] uint_lt2p [of bs] by (simp_all add: order_less_le word_uint_eq_iff)

lemma zso_negative_size_panics:
  assumes "f_data f = zso_layout ziso hs sz bs align @ rest" "bs \<noteq> 0" "\<bar>sint sz\<bar> \<le> 2 ^ 60"
  shows "zso_parseHeader f = None \<longleftrightarrow> sint sz \<le> 1 - (if ziso then 3 else 2) * uint bs"
proof (cases ziso)
  case True
  note m = map_length_negative [OF uint_pos(1) [OF assms(2)] uint_pos(2) assms(3) insertI2 [OF singletonI]]
  show ?thesis
    unfolding zso_parseHeader_header [OF assms(1)] Let_def using True assms(2) m(2)
    by (simp only: if_True if_False block_map_None [OF uint_ge_0 m(1)]) simp
next
  case False
  note m = map_length_negative [OF uint_pos(1) [OF assms(2)] uint_pos(2) assms(3) insertI1]
  show ?thesis
    unfolding zso_parseHeader_header [OF assms(1)] Let_def using False assms(2) m(2)
    by (simp only: if_True if_False add_0_right block_map_None [OF uint_ge_0 m(1) [unfolded add_0_right]]) simp
qed

text \<open>C39: Which sizes in a CSO header crash the server when the file is opened. For a size of at most
  2^60 in absolute value, \<^verbatim>\<open>parseHeader\<close> panics exactly if the size is at most 1 minus three block
  sizes, because the length of the block map then comes out negative and \<^verbatim>\<open>make\<close> panics; every other
  size gives an error or a reader.\<close>

theorem cso_negative_size_panics:
  assumes "f_data f = cso_layout sz bs align @ rest" "bs \<noteq> 0" "\<bar>sint sz\<bar> \<le> 2 ^ 60"
  shows "cso_parseHeader f = None \<longleftrightarrow> sint sz \<le> 1 - 3 * uint bs"
proof -
  note m = map_length_negative [OF uint_pos(1) [OF assms(2)] uint_pos(2) assms(3) insertI2 [OF singletonI]]
  show ?thesis
    unfolding cso_parseHeader_header [OF assms(1)] Let_def using assms(2) m(2)
    by (simp only: if_False block_map_None [OF zero_le_numeral m(1)]) simp
qed

theorem cso_negative_size_panics_witness:
  "cso_parseHeader \<lparr>f_data = cso_layout (- 6143) 2048 0, f_name = ''x.cso'', f_modTime = None\<rparr> = None \<and>
   cso_parseHeader \<lparr>f_data = cso_layout (- 6142) 2048 0, f_name = ''x.cso'', f_modTime = None\<rparr> \<noteq> None"
  using cso_negative_size_panics [of "\<lparr>f_data = cso_layout (- 6143) 2048 0, f_name = ''x.cso'', f_modTime = None\<rparr>" "- 6143" 2048 0 "[]"]
    cso_negative_size_panics [of "\<lparr>f_data = cso_layout (- 6142) 2048 0, f_name = ''x.cso'', f_modTime = None\<rparr>" "- 6142" 2048 0 "[]"]
  by simp

end
