(* ===== verification/UdpfsWire.thy ===== *)
theory UdpfsWire
  imports GoRuntime
begin

text \<open>
  The UDPFS wire format: message types (\<^verbatim>\<open>udpfs/protocol.go\<close>), error numbers and open flags
  (\<^verbatim>\<open>udpfs/fs.go\<close>) and the replies (\<^verbatim>\<open>udpfs/utils.go\<close>). An \<^verbatim>\<open>int32\<close> or \<^verbatim>\<open>int64\<close> is an \<^typ>\<open>int\<close>; it is
  reduced to its width where it is written to a packet.
\<close>

section \<open>Message types and error numbers\<close>

type_synonym MsgType = u8

definition MsgOpenReq :: MsgType where [simp]: "MsgOpenReq = 0x10"
definition MsgOpenReply :: MsgType where [simp]: "MsgOpenReply = 0x11"
definition MsgCloseReq :: MsgType where [simp]: "MsgCloseReq = 0x12"
definition MsgCloseReply :: MsgType where [simp]: "MsgCloseReply = 0x13"
definition MsgReadReq :: MsgType where [simp]: "MsgReadReq = 0x14"
definition MsgWriteReq :: MsgType where [simp]: "MsgWriteReq = 0x16"
definition MsgWriteData :: MsgType where [simp]: "MsgWriteData = 0x17"
definition MsgWriteDone :: MsgType where [simp]: "MsgWriteDone = 0x18"
definition MsgLseekReq :: MsgType where [simp]: "MsgLseekReq = 0x1A"
definition MsgLseekReply :: MsgType where [simp]: "MsgLseekReply = 0x1B"
definition MsgDreadReq :: MsgType where [simp]: "MsgDreadReq = 0x1C"
definition MsgDreadReply :: MsgType where [simp]: "MsgDreadReply = 0x1D"
definition MsgGetstatReq :: MsgType where [simp]: "MsgGetstatReq = 0x1E"
definition MsgGetstatReply :: MsgType where [simp]: "MsgGetstatReply = 0x1F"
definition MsgMkdirReq :: MsgType where [simp]: "MsgMkdirReq = 0x20"
definition MsgRemoveReq :: MsgType where [simp]: "MsgRemoveReq = 0x22"
definition MsgRmdirReq :: MsgType where [simp]: "MsgRmdirReq = 0x24"
definition MsgResultReply :: MsgType where [simp]: "MsgResultReply = 0x26"
definition MsgBreadReq :: MsgType where [simp]: "MsgBreadReq = 0x28"
definition MsgBwriteReq :: MsgType where [simp]: "MsgBwriteReq = 0x2A"

definition hex_digit :: "nat \<Rightarrow> char" where
  "hex_digit n = (if n < 10 then char_of (48 + n) else char_of (87 + n))"

definition MsgType_String :: "MsgType \<Rightarrow> string" where
  "MsgType_String m =
     (if m = MsgOpenReq then ''Open'' else if m = MsgCloseReq then ''Close''
      else if m = MsgReadReq then ''Read'' else if m = MsgWriteReq then ''Write''
      else if m = MsgWriteData then ''WriteData'' else if m = MsgLseekReq then ''Lseek''
      else if m = MsgDreadReq then ''Dread'' else if m = MsgGetstatReq then ''Getstat''
      else if m = MsgMkdirReq then ''Mkdir'' else if m = MsgRemoveReq then ''Remove''
      else if m = MsgRmdirReq then ''Rmdir'' else if m = MsgBreadReq then ''Bread''
      else if m = MsgBwriteReq then ''Bwrite''
      else ''Unknown (0x'' @ [hex_digit (unat m div 16), hex_digit (unat m mod 16)] @ '')'')"

definition EOK :: int where [simp]: "EOK = 0"
definition ENOENT :: int where [simp]: "ENOENT = 2"
definition EIO :: int where [simp]: "EIO = 5"
definition EBADF :: int where [simp]: "EBADF = 9"
definition EACCES :: int where [simp]: "EACCES = 13"
definition EEXIST :: int where [simp]: "EEXIST = 17"
definition EINVAL :: int where [simp]: "EINVAL = 22"
definition EMFILE :: int where [simp]: "EMFILE = 24"

text \<open>A wrapped system error satisfies \<^verbatim>\<open>os.IsNotExist\<close> and its kin as the error it wraps does.\<close>

fun errToErrno :: "go_error option \<Rightarrow> int" where
  "errToErrno None = EOK"
| "errToErrno (Some ErrNotExist) = ENOENT"
| "errToErrno (Some ErrExist) = EEXIST"
| "errToErrno (Some ErrPermission) = EACCES"
| "errToErrno (Some (Errno e)) = (if e < 0 then - e else EIO)"
| "errToErrno (Some _) = EIO"

text \<open>The open flags of Linux, and the translation from the flags of the protocol.\<close>

definition O_RDONLY :: int where [simp]: "O_RDONLY = 0"
definition O_WRONLY :: int where [simp]: "O_WRONLY = 1"
definition O_RDWR :: int where [simp]: "O_RDWR = 2"
definition O_CREATE :: int where [simp]: "O_CREATE = 0x40"
definition O_TRUNC :: int where [simp]: "O_TRUNC = 0x200"
definition O_APPEND :: int where [simp]: "O_APPEND = 0x400"

definition Flag_ReadOnly :: u16 where [simp]: "Flag_ReadOnly = 0x01"
definition Flag_WriteOnly :: u16 where [simp]: "Flag_WriteOnly = 0x02"
definition Flag_ReadWrite :: u16 where [simp]: "Flag_ReadWrite = 0x03"
definition Flag_Append :: u16 where [simp]: "Flag_Append = 0x0100"
definition Flag_Create :: u16 where [simp]: "Flag_Create = 0x0200"
definition Flag_Truncate :: u16 where [simp]: "Flag_Truncate = 0x0400"

definition parseMode :: "u16 \<Rightarrow> int" where
  "parseMode flags =
     (let f = 0;
          f = (if 0 < flags AND Flag_Append then f OR O_APPEND else f);
          f = (if 0 < flags AND Flag_Create then f OR O_CREATE else f);
          f = (if 0 < flags AND Flag_Truncate then f OR O_TRUNC else f)
      in f)"

definition udpfsFlagsToOSFlags :: "u16 \<Rightarrow> int" where
  "udpfsFlagsToOSFlags flags =
     (let m = flags AND 0x03 in
      if m = Flag_ReadOnly then O_RDONLY
      else if m = Flag_WriteOnly then O_WRONLY OR parseMode flags
      else if m = Flag_ReadWrite then O_RDWR OR parseMode flags
      else O_RDONLY)"

text \<open>A flag set is a request to write exactly when one of the two write bits is set.\<close>

definition wants_write :: "int \<Rightarrow> bool" where
  "wants_write flag \<longleftrightarrow> flag AND (O_WRONLY OR O_RDWR) \<noteq> 0"

section \<open>File information\<close>

definition FIO_S_IFREG :: u32 where [simp]: "FIO_S_IFREG = 0x2000"
definition FIO_S_IFDIR :: u32 where [simp]: "FIO_S_IFDIR = 0x1000"
definition BlockDeviceHandle :: int where [simp]: "BlockDeviceHandle = 0"

record StatInfo =
  si_Mode :: u32
  si_Attr :: u32
  si_Size :: u32
  si_Hisize :: u32
  si_Ctime :: bytes
  si_Atime :: bytes
  si_Mtime :: bytes

definition zero_stat :: StatInfo where
  "zero_stat = \<lparr>si_Mode = 0, si_Attr = 0, si_Size = 0, si_Hisize = 0,
     si_Ctime = replicate 8 0, si_Atime = replicate 8 0, si_Mtime = replicate 8 0\<rparr>"

text \<open>The three times are arrays of eight bytes.\<close>

definition stat_ok :: "StatInfo \<Rightarrow> bool" where
  "stat_ok st \<longleftrightarrow> length (si_Ctime st) = 8 \<and> length (si_Atime st) = 8 \<and> length (si_Mtime st) = 8"

definition EncodeTime :: "go_time \<Rightarrow> bytes" where
  "EncodeTime t =
     [0, word_of_int (t_Second t), word_of_int (t_Minute t), word_of_int (t_Hour t),
      word_of_int (t_Day t), word_of_int (t_Month t),
      word_of_int (t_Year t AND 0xFF), word_of_int (drop_bit 8 (t_Year t))]"

definition StatInfoFromFile :: "FileInfo \<Rightarrow> StatInfo" where
  "StatInfoFromFile fi =
     (let w = word_of_int (fi_size fi) :: u64 in
      \<lparr>si_Mode = (case fi_mode fi of ModeRegular \<Rightarrow> FIO_S_IFREG | ModeDir \<Rightarrow> FIO_S_IFDIR | ModeOther \<Rightarrow> 0),
       si_Attr = 0, si_Size = ucast (w AND 0xFFFFFFFF), si_Hisize = ucast (drop_bit 32 w),
       si_Ctime = EncodeTime (fi_modTime fi), si_Atime = EncodeTime (fi_modTime fi),
       si_Mtime = EncodeTime (fi_modTime fi)\<rparr>)"

definition PackWithHeader :: "StatInfo \<Rightarrow> bytes" where
  "PackWithHeader s = si_Ctime s @ si_Atime s @ si_Mtime s"

section \<open>Replies\<close>

text \<open>\<^verbatim>\<open>uint32(x)\<close> of a signed integer, little-endian.\<close>

definition put32 :: "int \<Rightarrow> bytes" where
  "put32 x = le32 (word_of_int x)"

text \<open>An OPEN reply has 44 bytes, of which the last eight are never written.\<close>

definition PackOpenReply :: "int \<Rightarrow> StatInfo \<Rightarrow> bytes" where
  "PackOpenReply handle st =
     [MsgOpenReply, 0, 0, 0] @ put32 handle @ le32 (si_Mode st) @ le32 (si_Size st) @ le32 (si_Hisize st) @
     si_Ctime st @ si_Mtime st @ replicate 8 0"

definition PackCloseReply :: "int \<Rightarrow> bytes" where
  "PackCloseReply result = [MsgCloseReply, 0, 0, 0] @ put32 result"

definition PackResultReply :: "int \<Rightarrow> bytes" where
  "PackResultReply result = [MsgResultReply, 0, 0, 0] @ put32 result"

definition PackWriteDone :: "int \<Rightarrow> bytes" where
  "PackWriteDone result = [MsgWriteDone, 0, 0, 0] @ put32 result"

definition PackLseekReply :: "int \<Rightarrow> bytes" where
  "PackLseekReply position =
     [MsgLseekReply, 0, 0, 0] @
     (if position < 0 then put32 position @ le32 0xFFFFFFFF
      else put32 (position AND 0xFFFFFFFF) @ put32 (drop_bit 32 position))"

text \<open>A Go string is a sequence of bytes.\<close>

definition byte_char :: "u8 \<Rightarrow> char" where
  "byte_char b = char_of (unat b)"

definition char_byte :: "char \<Rightarrow> u8" where
  "char_byte c = of_nat (of_char c)"

definition string_bytes :: "string \<Rightarrow> bytes" where
  "string_bytes s = map char_byte s"

definition bytes_string :: "bytes \<Rightarrow> string" where
  "bytes_string b = map byte_char b"

definition PackDreadReply :: "int \<Rightarrow> string \<Rightarrow> StatInfo \<Rightarrow> bytes" where
  "PackDreadReply result name st =
     (let nameBytes = string_bytes name;
          nameBytes = (if 0 < length nameBytes then nameBytes @ [0] else nameBytes);
          nameLen = length nameBytes;
          nameLen = (if 0 < nameLen then nameLen - 1 else nameLen);
          paddedNameLen = (length nameBytes + 3) div 4 * 4;
          nameBytes = nameBytes @ replicate (paddedNameLen - length nameBytes) 0;
          b = [MsgDreadReply, 0] @ le16 (of_nat nameLen) @ put32 result @ le32 (si_Mode st) @
              le32 (si_Attr st) @ le32 (si_Size st) @ le32 (si_Hisize st) @
              si_Ctime st @ si_Atime st @ si_Mtime st
      in if 0 < result then b @ nameBytes else b)"

definition PackGetstatReply :: "int \<Rightarrow> StatInfo \<Rightarrow> bytes" where
  "PackGetstatReply result st =
     [MsgGetstatReply, 0, 0, 0] @ put32 result @ le32 (si_Mode st) @ le32 (si_Attr st) @
     le32 (si_Size st) @ le32 (si_Hisize st) @ si_Ctime st @ si_Atime st @ si_Mtime st"

section \<open>Facts\<close>

lemma char_byte_char [simp]: "byte_char (char_byte c) = c"
  by (simp add: byte_char_def char_byte_def unat_of_nat)

lemma byte_char_byte [simp]: "char_byte (byte_char b) = b"
proof -
  have "unat b < 256" using unsigned_less [of b] by simp
  then show ?thesis by (simp add: byte_char_def char_byte_def)
qed

lemma bytes_string_bytes [simp]: "bytes_string (string_bytes s) = s"
  and string_bytes_string [simp]: "string_bytes (bytes_string b) = b"
  and length_string_bytes [simp]: "length (string_bytes s) = length s"
  and length_bytes_string [simp]: "length (bytes_string b) = length b"
  and string_bytes_Nil [simp]: "string_bytes s = [] \<longleftrightarrow> s = []"
  by (simp_all add: string_bytes_def bytes_string_def comp_def)

lemma length_put32 [simp]: "length (put32 x) = 4"
  by (simp add: put32_def)

lemma stat_ok_zero [simp]: "stat_ok zero_stat"
  and stat_ok_FromFile [simp]: "stat_ok (StatInfoFromFile fi)"
  by (simp_all add: stat_ok_def zero_stat_def StatInfoFromFile_def EncodeTime_def Let_def)

lemma reply_lengths [simp]:
  "stat_ok st \<Longrightarrow> length (PackOpenReply h st) = 44"
  "length (PackCloseReply r) = 8" "length (PackResultReply r) = 8" "length (PackWriteDone r) = 8"
  "length (PackLseekReply p) = 12"
  "stat_ok st \<Longrightarrow> length (PackGetstatReply r st) = 48"
  by (simp_all add: PackOpenReply_def PackCloseReply_def PackResultReply_def PackWriteDone_def
      PackLseekReply_def PackGetstatReply_def stat_ok_def)

lemma length_PackDreadReply:
  "stat_ok st \<Longrightarrow> length (PackDreadReply r name st) =
     48 + (if 0 < r \<and> name \<noteq> [] then (length name + 4) div 4 * 4 else 0)"
  by (simp add: PackDreadReply_def Let_def stat_ok_def add.commute)

lemma errToErrno_nonneg: "0 \<le> errToErrno e"
  by (cases e rule: errToErrno.cases) simp_all

lemma errToErrno_pos: "0 < errToErrno (Some e)"
  by (cases "Some e" rule: errToErrno.cases) simp_all

text \<open>Creating, truncating and appending go with a request to write.\<close>

lemma parseMode_cases:
  obtains a c t where "parseMode flags = (if a then O_APPEND else 0) OR (if c then O_CREATE else 0) OR (if t then O_TRUNC else 0)"
proof (rule that)
  show "parseMode flags = (if 0 < flags AND Flag_Append then O_APPEND else 0) OR
      (if 0 < flags AND Flag_Create then O_CREATE else 0) OR (if 0 < flags AND Flag_Truncate then O_TRUNC else 0)"
    unfolding parseMode_def Let_def by simp
qed

lemma flags_write:
  assumes "udpfsFlagsToOSFlags flags AND (O_CREATE OR O_TRUNC OR O_APPEND) \<noteq> 0"
  shows "wants_write (udpfsFlagsToOSFlags flags)"
proof -
  obtain a c t where p: "parseMode flags = (if a then O_APPEND else 0) OR (if c then O_CREATE else 0) OR (if t then O_TRUNC else 0)"
    by (rule parseMode_cases)
  have w: "wants_write (O_WRONLY OR parseMode flags)" "wants_write (O_RDWR OR parseMode flags)"
    unfolding p by (cases a; cases c; cases t; simp add: wants_write_def)+
  have r: "\<not> O_RDONLY AND (O_CREATE OR O_TRUNC OR O_APPEND) \<noteq> 0" by simp
  show ?thesis
    using assms w r unfolding udpfsFlagsToOSFlags_def Let_def by (auto simp only: split: if_splits)
qed

section \<open>Replies can be read back\<close>

text \<open>A 64-bit number, split into two words.\<close>

lemma low_word: "(ucast (word_of_int x :: u64) :: u32) = word_of_int x"
  and high_word: "(ucast (drop_bit 32 (word_of_int x :: u64)) :: u32) = word_of_int (drop_bit 32 x)"
  by ((rule bit_word_eqI), (auto simp: bit_simps)[1])+

lemma le64_of_int: "le64 (word_of_int x) = put32 x @ put32 (drop_bit 32 x)"
  by (simp add: le64_def put32_def low_word high_word)

lemma mask32: "(x :: int) AND 0xFFFFFFFF = take_bit 32 x" "(w :: u64) AND 0xFFFFFFFF = take_bit 32 w"
  by (simp_all add: take_bit_eq_mask mask_eq_exp_minus_1)

lemma put32_mask: "put32 (x AND 0xFFFFFFFF) = put32 x"
  unfolding mask32 put32_def by (intro arg_cong [where f = le32] bit_word_eqI) (auto simp: bit_simps)

lemma stat_size_words:
  "si_Size (StatInfoFromFile fi) = word_of_int (fi_size fi)"
  "si_Hisize (StatInfoFromFile fi) = word_of_int (drop_bit 32 (fi_size fi))"
proof -
  show "si_Hisize (StatInfoFromFile fi) = word_of_int (drop_bit 32 (fi_size fi))"
    by (simp add: StatInfoFromFile_def Let_def high_word)
  show "si_Size (StatInfoFromFile fi) = word_of_int (fi_size fi)"
    unfolding StatInfoFromFile_def Let_def mask32 StatInfo.select_convs
    by (rule bit_word_eqI) (auto simp: bit_simps)
qed

lemma le32_minus_one: "le32 0xFFFFFFFF = le32 (- 1)"
  by (rule arg_cong [where f = le32]) (simp add: word_eq_iff_unsigned flip: mask_eq_exp_minus_1)

text \<open>The data of an LSEEK reply is the position as one 64-bit word.\<close>

lemma PackLseekReply_le64:
  assumes "- (2 ^ 32) \<le> p"
  shows "PackLseekReply p = [MsgLseekReply, 0, 0, 0] @ le64 (word_of_int p)"
proof (cases "p < 0")
  case True
  have "(p + 2 ^ 32) div 2 ^ 32 = 0" using assms True by (intro div_pos_pos_trivial) simp_all
  then have "p div 2 ^ 32 = - 1" by simp
  then have "drop_bit 32 p = - 1" by (simp add: drop_bit_eq_div)
  then show ?thesis using True by (simp add: PackLseekReply_def le64_of_int put32_def le32_minus_one)
qed (simp add: PackLseekReply_def le64_of_int put32_mask)

text \<open>C34: A client that reads the two words of an LSEEK reply as one 64-bit number gets the position the
  server sent, and all ones for the error position \<open>-1\<close>.\<close>

theorem lseek_reply_readable:
  assumes "- (2 ^ 32) \<le> p" "p < 2 ^ 63"
  shows "map_option sint (Uint64 (drop 4 (PackLseekReply p))) = Some p"
  using assms by (simp add: PackLseekReply_le64 sint_int64 int64_id)

theorem lseek_reply_readable_witness:
  "map_option sint (Uint64 (drop 4 (PackLseekReply (- 1)))) = Some (- 1) \<and>
   map_option sint (Uint64 (drop 4 (PackLseekReply 0x123456789A))) = Some 0x123456789A"
  using lseek_reply_readable [of "- 1"] lseek_reply_readable [of "0x123456789A"] by simp

text \<open>
  The client's view of the file information in a DREAD or GETSTAT reply: four words from byte 8 on,
  then the three times of eight bytes each.
\<close>

definition read_stat :: "bytes \<Rightarrow> StatInfo option" where
  "read_stat b = do {
     mode \<leftarrow> Uint32 (drop 8 b); attr \<leftarrow> Uint32 (drop 12 b);
     lo \<leftarrow> Uint32 (drop 16 b); hi \<leftarrow> Uint32 (drop 20 b);
     Some \<lparr>si_Mode = mode, si_Attr = attr, si_Size = lo, si_Hisize = hi,
       si_Ctime = take 8 (drop 24 b), si_Atime = take 8 (drop 32 b), si_Mtime = take 8 (drop 40 b)\<rparr>
   }"

lemma read_stat_fixed:
  assumes "stat_ok st" "length front = 8"
  shows "read_stat (front @ le32 (si_Mode st) @ le32 (si_Attr st) @ le32 (si_Size st) @ le32 (si_Hisize st) @
      si_Ctime st @ si_Atime st @ si_Mtime st @ rest) = Some st"
  using assms by (simp add: read_stat_def stat_ok_def)

lemma read_stat_Getstat: "stat_ok st \<Longrightarrow> read_stat (PackGetstatReply r st) = Some st"
  using read_stat_fixed [of st "[MsgGetstatReply, 0, 0, 0] @ put32 r" "[]"] by (simp add: PackGetstatReply_def)

definition example_info :: FileInfo where
  "example_info = \<lparr>fi_name = ''GAME.ISO'', fi_size = 4700000000, fi_mode = ModeRegular,
     fi_modTime = \<lparr>t_Year = 2024, t_Month = 2, t_Day = 29, t_Hour = 23, t_Minute = 59, t_Second = 58\<rparr>\<rparr>"

text \<open>C32: A client can read a directory entry back from its DREAD reply: the result, the length of the
  name and all the fields of the file information are where the protocol puts them, the name follows
  the 48 bytes of the fixed part and ends with a NUL byte, and the reply is a whole number of 32-bit
  words. The result is positive, as it is for an entry, and the name is not empty and shorter than
  65536 bytes.\<close>

theorem dread_reply_readable:
  assumes "stat_ok st" "0 < result" "name \<noteq> []" "length name < 65536"
  shows "let b = PackDreadReply result name st in
     hd b = MsgDreadReply \<and>
     map_option unat (Uint16 (drop 2 b)) = Some (length name) \<and>
     Uint32 (drop 4 b) = Some (word_of_int result) \<and> read_stat b = Some st \<and>
     bytes_string (take (length name) (drop 48 b)) = name \<and>
     b ! (48 + length name) = 0 \<and> 4 dvd length b"
proof -
  let ?pad = "replicate ((length name + 4) div 4 * 4 - Suc (length name)) 0 :: bytes"
  let ?f = "le32 (si_Mode st) @ le32 (si_Attr st) @ le32 (si_Size st) @ le32 (si_Hisize st) @
     si_Ctime st @ si_Atime st @ si_Mtime st"
  define fixed where "fixed = [MsgDreadReply, 0] @ le16 (of_nat (length name)) @ put32 result @ ?f"
  have b: "PackDreadReply result name st = fixed @ string_bytes name @ [0] @ ?pad"
    using assms(2,3) by (simp add: PackDreadReply_def Let_def fixed_def add.commute)
  have l: "length fixed = 48" using assms(1) by (simp add: fixed_def stat_ok_def)
  have "Uint16 (drop 2 (PackDreadReply result name st)) = Some (of_nat (length name))"
    by (simp add: b fixed_def)
  moreover have "Uint32 (drop 4 (PackDreadReply result name st)) = Some (word_of_int result)"
    by (simp add: b fixed_def put32_def le16_def)
  moreover have "read_stat (PackDreadReply result name st) = Some st"
    using read_stat_fixed [OF assms(1), of "[MsgDreadReply, 0] @ le16 (of_nat (length name)) @ put32 result"]
    by (simp add: b fixed_def)
  moreover have "unat (of_nat (length name) :: u16) = length name"
    using assms(4) by (simp add: unat_of_nat)
  moreover have "4 dvd length (PackDreadReply result name st)"
    using assms by (simp add: length_PackDreadReply)
  moreover have "hd (PackDreadReply result name st) = MsgDreadReply"
    by (simp add: b fixed_def)
  moreover have "bytes_string (take (length name) (drop 48 (PackDreadReply result name st))) = name"
    by (simp add: b l)
  moreover have "PackDreadReply result name st ! (48 + length name) = 0"
    by (simp add: b l nth_append)
  ultimately show ?thesis unfolding Let_def by simp
qed

theorem dread_reply_readable_witness:
  "let b = PackDreadReply 1 ''SYSTEM.CNF'' (StatInfoFromFile example_info) in
     hd b = MsgDreadReply \<and> map_option unat (Uint16 (drop 2 b)) = Some 10 \<and>
     Uint32 (drop 4 b) = Some (word_of_int 1) \<and> read_stat b = Some (StatInfoFromFile example_info) \<and>
     bytes_string (take 10 (drop 48 b)) = ''SYSTEM.CNF'' \<and> b ! (48 + 10) = 0 \<and> 4 dvd length b"
proof -
  have l: "length ''SYSTEM.CNF'' = 10" by simp
  show ?thesis by (rule dread_reply_readable [of "StatInfoFromFile example_info" 1 "''SYSTEM.CNF''", unfolded l]) simp_all
qed

text \<open>C33: The size, the kind and the date of a file survive the way to the client. The GETSTAT reply gives
  back the whole information record; from its fields a client computes the 64-bit size and whether
  it is a regular file or a directory, and the eight bytes of each of the three times give back the
  year, month, day, hour, minute and second of the modification time. The size is nonnegative, the
  year fits 16 bits and the other parts of the time fit a byte.\<close>

theorem stat_info_readable:
  assumes "0 \<le> fi_size fi" "fi_size fi < 2 ^ 63" "0 \<le> t_Year (fi_modTime fi)" "t_Year (fi_modTime fi) < 65536"
    "\<forall>x \<in> {t_Month (fi_modTime fi), t_Day (fi_modTime fi), t_Hour (fi_modTime fi),
        t_Minute (fi_modTime fi), t_Second (fi_modTime fi)}. 0 \<le> x \<and> x < 256"
  shows "let st = StatInfoFromFile fi; m = map uint (si_Mtime st) in
     read_stat (PackGetstatReply result st) = Some st \<and> si_Ctime st = si_Mtime st \<and> si_Atime st = si_Mtime st \<and>
     uint (si_Hisize st) * 2 ^ 32 + uint (si_Size st) = fi_size fi \<and>
     (si_Mode st = FIO_S_IFREG \<longleftrightarrow> fi_mode fi = ModeRegular) \<and>
     (si_Mode st = FIO_S_IFDIR \<longleftrightarrow> fi_mode fi = ModeDir) \<and>
     m ! 7 * 256 + m ! 6 = t_Year (fi_modTime fi) \<and> m ! 5 = t_Month (fi_modTime fi) \<and>
     m ! 4 = t_Day (fi_modTime fi) \<and> m ! 3 = t_Hour (fi_modTime fi) \<and>
     m ! 2 = t_Minute (fi_modTime fi) \<and> m ! 1 = t_Second (fi_modTime fi)"
proof -
  let ?st = "StatInfoFromFile fi" and ?t = "fi_modTime fi"
  have "uint (si_Hisize ?st) * 2 ^ 32 + uint (si_Size ?st) = fi_size fi"
  proof -
    have "uint (si_Size ?st) = fi_size fi mod 2 ^ 32" "uint (si_Hisize ?st) = fi_size fi div 2 ^ 32"
      using assms(1,2) unfolding stat_size_words by (simp_all add: uint_word_of_int drop_bit_eq_div)
    then show ?thesis by simp
  qed
  moreover have "read_stat (PackGetstatReply result ?st) = Some ?st" by (simp add: read_stat_Getstat)
  moreover have "si_Ctime ?st = si_Mtime ?st" "si_Atime ?st = si_Mtime ?st"
    by (simp_all add: StatInfoFromFile_def Let_def)
  moreover have "(si_Mode ?st = FIO_S_IFREG \<longleftrightarrow> fi_mode fi = ModeRegular)"
    "(si_Mode ?st = FIO_S_IFDIR \<longleftrightarrow> fi_mode fi = ModeDir)"
    by (simp_all add: StatInfoFromFile_def Let_def split: file_mode.split)
  moreover have "map uint (si_Mtime ?st) ! 7 * 256 + map uint (si_Mtime ?st) ! 6 = t_Year ?t"
  proof -
    have "t_Year ?t AND 0xFF = t_Year ?t mod 256"
      using take_bit_eq_mask [of 8 "t_Year ?t"] by (simp add: mask_eq_exp_minus_1 take_bit_eq_mod)
    then have "uint (word_of_int (drop_bit 8 (t_Year ?t)) :: u8) * 256 + uint (word_of_int (t_Year ?t AND 0xFF) :: u8) = t_Year ?t"
      using assms(3,4) by (simp add: uint_word_of_int drop_bit_eq_div)
    then show ?thesis by (simp add: StatInfoFromFile_def EncodeTime_def Let_def)
  qed
  moreover have "map uint (si_Mtime ?st) ! 5 = t_Month ?t" "map uint (si_Mtime ?st) ! 4 = t_Day ?t"
    "map uint (si_Mtime ?st) ! 3 = t_Hour ?t" "map uint (si_Mtime ?st) ! 2 = t_Minute ?t"
    "map uint (si_Mtime ?st) ! 1 = t_Second ?t"
    using assms(5) by (simp_all add: StatInfoFromFile_def EncodeTime_def Let_def uint_word_of_int)
  ultimately show ?thesis unfolding Let_def by simp
qed

theorem stat_info_readable_witness:
  "let st = StatInfoFromFile example_info; m = map uint (si_Mtime st) in
     read_stat (PackGetstatReply 0 st) = Some st \<and> si_Ctime st = si_Mtime st \<and> si_Atime st = si_Mtime st \<and>
     uint (si_Hisize st) * 2 ^ 32 + uint (si_Size st) = 4700000000 \<and>
     (si_Mode st = FIO_S_IFREG \<longleftrightarrow> True) \<and> (si_Mode st = FIO_S_IFDIR \<longleftrightarrow> False) \<and>
     m ! 7 * 256 + m ! 6 = 2024 \<and> m ! 5 = 2 \<and> m ! 4 = 29 \<and> m ! 3 = 23 \<and> m ! 2 = 59 \<and> m ! 1 = 58"
proof -
  have f: "fi_size example_info = 4700000000" "fi_mode example_info = ModeRegular"
    "t_Year (fi_modTime example_info) = 2024" "t_Month (fi_modTime example_info) = 2"
    "t_Day (fi_modTime example_info) = 29" "t_Hour (fi_modTime example_info) = 23"
    "t_Minute (fi_modTime example_info) = 59" "t_Second (fi_modTime example_info) = 58"
    by (simp_all add: example_info_def)
  have m: "(ModeRegular = ModeRegular) = True" "(ModeRegular = ModeDir) = False" by simp_all
  show ?thesis by (rule stat_info_readable [of example_info, unfolded f m]) simp_all
qed

end
