(* ===== verification/UdpfsConn.thy ===== *)
theory UdpfsConn
  imports RdmaDelivery UdpfsWire
begin

text \<open>
  A UDPFS connection (\<^verbatim>\<open>udpfs/connection.go\<close>, \<^verbatim>\<open>udpfs/metrics.go\<close>): a UDPRDMA session, the handles the
  peer has open, and the counters. The filesystem it talks to is a parameter, the interface \<^verbatim>\<open>FS\<close> of
  \<^verbatim>\<open>udpfs/fs.go\<close> as a record of methods on a state of any type; \<^term>\<open>None\<close> is a panic of the method.
\<close>

section \<open>The filesystem interface\<close>

record 'f FS =
  fs_Open :: "string \<Rightarrow> int \<Rightarrow> bool \<Rightarrow> 'f \<Rightarrow> ('f \<times> int \<times> StatInfo \<times> go_error option) option"
  fs_Close :: "int \<Rightarrow> 'f \<Rightarrow> ('f \<times> go_error option) option"
  fs_Read :: "int \<Rightarrow> u32 \<Rightarrow> 'f \<Rightarrow> ('f \<times> (go_error + int \<times> bytes)) option"
  fs_WriteStart :: "int \<Rightarrow> 'f \<Rightarrow> ('f \<times> go_error option) option"
  fs_WriteChunk :: "int \<Rightarrow> u16 \<Rightarrow> u16 \<Rightarrow> u16 \<Rightarrow> bytes \<Rightarrow> 'f \<Rightarrow> ('f \<times> (go_error + bool)) option"
  fs_CompleteWrite :: "int \<Rightarrow> 'f \<Rightarrow> ('f \<times> (go_error + int)) option"
  fs_Lseek :: "int \<Rightarrow> int \<Rightarrow> int \<Rightarrow> 'f \<Rightarrow> ('f \<times> int \<times> go_error option) option"
  fs_Dread :: "int \<Rightarrow> 'f \<Rightarrow> ('f \<times> bool \<times> string \<times> StatInfo \<times> go_error option) option"
  fs_Getstat :: "string \<Rightarrow> 'f \<Rightarrow> ('f \<times> StatInfo \<times> go_error option) option"
  fs_Mkdir :: "string \<Rightarrow> 'f \<Rightarrow> ('f \<times> go_error option) option"
  fs_Remove :: "string \<Rightarrow> 'f \<Rightarrow> ('f \<times> go_error option) option"
  fs_Rmdir :: "string \<Rightarrow> 'f \<Rightarrow> ('f \<times> go_error option) option"
  fs_Bread :: "int \<Rightarrow> int \<Rightarrow> u16 \<Rightarrow> 'f \<Rightarrow> ('f \<times> (go_error + bytes)) option"
  fs_BwriteStart :: "int \<Rightarrow> int \<Rightarrow> u16 \<Rightarrow> 'f \<Rightarrow> ('f \<times> go_error option) option"

record cachedHandle =
  ch_path :: string
  ch_flag :: int
  ch_reset :: bool
  ch_isDir :: bool

text \<open>
  What an operation of a connection runs in: the filesystem, the time in nanoseconds, and the order
  in which Go happens to iterate over the handle map.
\<close>

record 'f Env = "'f FS" +
  env_now :: int
  env_iter :: "(int, cachedHandle) go_map \<Rightarrow> (int, cachedHandle) go_map"

section \<open>Metrics\<close>

text \<open>The floating-point averages are not modelled; nothing but the statistics printout reads them.\<close>

record metricCollector =
  mc_commandCounts :: "(MsgType, int) go_map"
  mc_errorCounts :: "(MsgType, int) go_map"
  mc_bytesTx :: int
  mc_bytesRx :: int
  mc_lastCheckTimeSecond :: int
  mc_totalSecondsObserved :: u64
  mc_currentSecondBytesRx :: u64
  mc_currentSecondBytesTx :: u64

definition newMetricCollector :: metricCollector where
  "newMetricCollector = \<lparr>mc_commandCounts = [], mc_errorCounts = [], mc_bytesTx = 0, mc_bytesRx = 0,
     mc_lastCheckTimeSecond = 0, mc_totalSecondsObserved = 0, mc_currentSecondBytesRx = 0,
     mc_currentSecondBytesTx = 0\<rparr>"

text \<open>\<^verbatim>\<open>m[k]++\<close> on a map of counters.\<close>

definition count_of :: "(MsgType, int) go_map \<Rightarrow> MsgType \<Rightarrow> int" where
  "count_of m k = (case map_of m k of None \<Rightarrow> 0 | Some n \<Rightarrow> n)"

definition bump :: "MsgType \<Rightarrow> (MsgType, int) go_map \<Rightarrow> (MsgType, int) go_map" where
  "bump k m = AList.update k (int64 (count_of m k + 1)) m"

definition updateThroughput :: "int \<Rightarrow> int \<Rightarrow> bool \<Rightarrow> metricCollector \<Rightarrow> metricCollector" where
  "updateThroughput t byteCount isWrite c =
     (let curSecond = t div 1000000000;
          c = (if mc_lastCheckTimeSecond c < curSecond
               then c\<lparr>mc_totalSecondsObserved := mc_totalSecondsObserved c + 1, mc_currentSecondBytesTx := 0,
                      mc_currentSecondBytesRx := 0, mc_lastCheckTimeSecond := curSecond\<rparr>
               else c)
      in if \<not> isWrite
         then c\<lparr>mc_bytesTx := int64 (mc_bytesTx c + byteCount),
                mc_currentSecondBytesTx := mc_currentSecondBytesTx c + word_of_int byteCount\<rparr>
         else c\<lparr>mc_bytesRx := int64 (mc_bytesRx c + byteCount),
                mc_currentSecondBytesRx := mc_currentSecondBytesRx c + word_of_int byteCount\<rparr>)"

definition logMetric :: "int \<Rightarrow> MsgType \<Rightarrow> int \<Rightarrow> metricCollector \<Rightarrow> metricCollector" where
  "logMetric t msg statusCode c =
     (let c = c\<lparr>mc_commandCounts := bump msg (mc_commandCounts c)\<rparr>;
          c = (if statusCode < 0 then c\<lparr>mc_errorCounts := bump msg (mc_errorCounts c)\<rparr> else c)
      in if 0 < statusCode
         then if msg \<in> {MsgReadReq, MsgBreadReq} then updateThroughput t statusCode False c
              else if msg \<in> {MsgWriteReq, MsgWriteData, MsgBwriteReq} then updateThroughput t statusCode True c
              else c
         else c)"

record ConnectionStats =
  CommandCounts :: "(MsgType, int) go_map"
  ErrorCounts :: "(MsgType, int) go_map"
  BytesTx :: int
  BytesRx :: int

definition Connection_GetMetrics :: "metricCollector \<Rightarrow> ConnectionStats" where
  "Connection_GetMetrics c = \<lparr>CommandCounts = mc_commandCounts c, ErrorCounts = mc_errorCounts c,
     BytesTx = mc_bytesTx c, BytesRx = mc_bytesRx c\<rparr>"

section \<open>State\<close>

record Connection =
  c_sess :: session
  c_metrics :: "metricCollector option"
  c_usedHandles :: "(int, cachedHandle) go_map"
  c_activeWriteHandle :: int

definition NewConnection :: "session \<Rightarrow> bool \<Rightarrow> Connection" where
  "NewConnection sess collectMetrics =
     \<lparr>c_sess = SetResetCallback sess,
      c_metrics = (if collectMetrics then Some newMetricCollector else None),
      c_usedHandles = [], c_activeWriteHandle = - 1\<rparr>"

section \<open>Sending\<close>

definition Conn_SendACK :: "bool \<Rightarrow> Connection \<Rightarrow> Connection option" where
  "Conn_SendACK ack c = map_option (\<lambda>s. c\<lparr>c_sess := s\<rparr>) (SendACK (c_sess c) ack)"

definition Conn_SendData :: "bytes \<Rightarrow> Connection \<Rightarrow> Connection option" where
  "Conn_SendData payload c = map_option (\<lambda>s. c\<lparr>c_sess := s\<rparr>) (SendData (c_sess c) (Some payload))"

definition SendOpenReply :: "int \<Rightarrow> StatInfo \<Rightarrow> Connection \<Rightarrow> Connection option" where
  "SendOpenReply handle st = Conn_SendData (PackOpenReply handle st)"

definition SendReadResult :: "int \<Rightarrow> bytes \<Rightarrow> Connection \<Rightarrow> Connection option" where
  "SendReadResult result data c =
     map_option (\<lambda>s. c\<lparr>c_sess := s\<rparr>) (SendRawDataWithHeader (c_sess c) (PackResultReply result) (Some data))"

definition clearWriteHandle :: "Connection \<Rightarrow> Connection" where
  "clearWriteHandle c = c\<lparr>c_activeWriteHandle := - 1\<rparr>"

definition setWriteHandle :: "int \<Rightarrow> Connection \<Rightarrow> Connection" where
  "setWriteHandle handle c = c\<lparr>c_activeWriteHandle := handle\<rparr>"

definition getWriteHandle :: "Connection \<Rightarrow> int" where
  "getWriteHandle c = c_activeWriteHandle c"

definition SendWriteDone :: "int \<Rightarrow> Connection \<Rightarrow> Connection option" where
  "SendWriteDone result c = Conn_SendData (PackWriteDone result) (clearWriteHandle c)"

definition SendLseekReply :: "int \<Rightarrow> Connection \<Rightarrow> Connection option" where
  "SendLseekReply position = Conn_SendData (PackLseekReply position)"

definition SendDreadReply :: "int \<Rightarrow> string \<Rightarrow> StatInfo \<Rightarrow> Connection \<Rightarrow> Connection option" where
  "SendDreadReply result name st = Conn_SendData (PackDreadReply result name st)"

definition SendGetstatReply :: "int \<Rightarrow> StatInfo \<Rightarrow> Connection \<Rightarrow> Connection option" where
  "SendGetstatReply result st = Conn_SendData (PackGetstatReply result st)"

definition SendCloseReply :: "int \<Rightarrow> Connection \<Rightarrow> Connection option" where
  "SendCloseReply result = Conn_SendData (PackCloseReply result)"

definition SendResultReplyOnly :: "int \<Rightarrow> Connection \<Rightarrow> Connection option" where
  "SendResultReplyOnly result = Conn_SendData (PackResultReply result)"

section \<open>The handles of the peer\<close>

definition lookupHandle :: "('f, 'e) Env_scheme \<Rightarrow> string \<Rightarrow> int \<Rightarrow> Connection \<Rightarrow> Connection \<times> int option" where
  "lookupHandle E path flag c =
     (case filter (\<lambda>(_, h). ch_reset h \<and> ch_path h = path \<and> ch_flag h = flag) (env_iter E (c_usedHandles c)) of
        [] \<Rightarrow> (c, None)
      | (fsHandle, h) # _ \<Rightarrow>
          (c\<lparr>c_usedHandles := AList.update fsHandle (h\<lparr>ch_reset := False\<rparr>) (c_usedHandles c)\<rparr>, Some fsHandle))"

definition addHandle :: "int \<Rightarrow> string \<Rightarrow> int \<Rightarrow> bool \<Rightarrow> Connection \<Rightarrow> Connection" where
  "addHandle handle path flag isDir c =
     c\<lparr>c_usedHandles := AList.update handle
        \<lparr>ch_path = path, ch_flag = flag, ch_reset = False, ch_isDir = isDir\<rparr> (c_usedHandles c)\<rparr>"

definition removeHandle :: "int \<Rightarrow> Connection \<Rightarrow> Connection" where
  "removeHandle handle c =
     (let c = c\<lparr>c_usedHandles := AList.delete handle (c_usedHandles c)\<rparr>
      in if c_activeWriteHandle c = handle then c\<lparr>c_activeWriteHandle := - 1\<rparr> else c)"

fun reset_loop :: "('f, 'e) Env_scheme \<Rightarrow> (int, cachedHandle) go_map \<Rightarrow> 'f \<times> Connection \<Rightarrow> ('f \<times> Connection) option" where
  "reset_loop E [] (fs, c) = Some (fs, c)"
| "reset_loop E ((fsHandle, h) # hs) (fs, c) =
     (case fs_Lseek E fsHandle 0 0 fs of
        None \<Rightarrow> None
      | Some (fs, _, _) \<Rightarrow>
          reset_loop E hs
            (fs, c\<lparr>c_usedHandles := AList.update fsHandle (h\<lparr>ch_reset := True\<rparr>) (c_usedHandles c)\<rparr>))"

definition ResetPeer :: "('f, 'e) Env_scheme \<Rightarrow> 'f \<times> Connection \<Rightarrow> ('f \<times> Connection) option" where
  "ResetPeer E = (\<lambda>(fs, c). reset_loop E (env_iter E (c_usedHandles c)) (fs, c))"

fun close_loop :: "('f, 'e) Env_scheme \<Rightarrow> (int, cachedHandle) go_map \<Rightarrow> 'f \<times> Connection \<Rightarrow> ('f \<times> Connection) option" where
  "close_loop E [] (fs, c) = Some (fs, c)"
| "close_loop E ((fsHandle, h) # hs) (fs, c) =
     (case fs_Close E fsHandle fs of
        None \<Rightarrow> None
      | Some (fs, _) \<Rightarrow>
          close_loop E hs (fs, c\<lparr>c_usedHandles := AList.delete fsHandle (c_usedHandles c)\<rparr>))"

definition Connection_Close :: "('f, 'e) Env_scheme \<Rightarrow> 'f \<times> Connection \<Rightarrow> ('f \<times> Connection) option" where
  "Connection_Close E = (\<lambda>(fs, c). do {
     (fs, c) \<leftarrow> close_loop E (env_iter E (c_usedHandles c)) (fs, c);
     Some (fs, c\<lparr>c_sess := Session_Close (c_sess c)\<rparr>)
   })"

end
