(* ===== verification/UdpfsHandlers.thy ===== *)
theory UdpfsHandlers
  imports UdpfsConn
begin

text \<open>
  The request handlers of a connection (\<^verbatim>\<open>udpfs/handlers.go\<close>). A handler gets the payload of a request
  and returns the status code that the metrics count; its replies go to the session's outbox.
\<close>

section \<open>Reading a request\<close>

text \<open>\<^verbatim>\<open>binary.LittleEndian.Uint16(p[i:i+2])\<close> and \<^verbatim>\<open>Uint32(p[i:i+4])\<close>\<close>

definition get16 :: "nat \<Rightarrow> bytes \<Rightarrow> u16 option" where
  "get16 i p = do { s \<leftarrow> go_slice p i (i + 2); Uint16 s }"

definition get32 :: "nat \<Rightarrow> bytes \<Rightarrow> u32 option" where
  "get32 i p = do { s \<leftarrow> go_slice p i (i + 4); Uint32 s }"

text \<open>\<^verbatim>\<open>int64(hi)<<32 | int64(lo)\<close>\<close>

definition join64 :: "u32 \<Rightarrow> u32 \<Rightarrow> int" where
  "join64 lo hi = sint ((ucast lo :: u64) OR push_bit 32 (ucast hi))"

text \<open>The path that starts at an offset: up to the first NUL byte, or to the end.\<close>

definition path_at :: "nat \<Rightarrow> bytes \<Rightarrow> string" where
  "path_at i payload = bytes_string (takeWhile (\<lambda>b. b \<noteq> 0) (drop i payload))"

type_synonym 'f conn_state = "'f \<times> Connection"
type_synonym 'f handled = "('f conn_state \<times> int) option"

text \<open>A reply, and the status code after it.\<close>

definition reply :: "'f \<Rightarrow> int \<Rightarrow> Connection option \<Rightarrow> 'f handled" where
  "reply fs status co = map_option (\<lambda>c. ((fs, c), status)) co"

section \<open>Files\<close>

definition handleOpen :: "('f, 'e) Env_scheme \<Rightarrow> bytes \<Rightarrow> 'f conn_state \<Rightarrow> 'f handled" where
  "handleOpen E payload = (\<lambda>(fs, c).
     if length payload < 8 then reply fs (- EINVAL) (SendOpenReply (- EINVAL) zero_stat c)
     else do {
       flags \<leftarrow> get16 2 payload;
       let path = path_at 8 payload;
       let isDir = (1 < length payload \<and> payload ! 1 \<noteq> 0);
       let flag = udpfsFlagsToOSFlags flags;
       let (c, cached) = (if isDir then (c, None) else lookupHandle E path flag c);
       case cached of
         Some h \<Rightarrow> reply fs 0 (SendOpenReply h zero_stat c)
       | None \<Rightarrow> do {
           (fs, handle, stat, err) \<leftarrow> fs_Open E path flag isDir fs;
           case err of
             Some e \<Rightarrow> reply fs (- errToErrno (Some e)) (SendOpenReply (- errToErrno (Some e)) stat c)
           | None \<Rightarrow>
               if handle < 0 then reply fs handle (SendOpenReply handle stat c)
               else reply fs 0 (SendOpenReply handle stat (addHandle handle path flag isDir c))
         }
     })"

definition handleClose :: "('f, 'e) Env_scheme \<Rightarrow> bytes \<Rightarrow> 'f conn_state \<Rightarrow> 'f handled" where
  "handleClose E payload = (\<lambda>(fs, c).
     if length payload < 8 then reply fs (- EINVAL) (SendCloseReply (- EINVAL) c)
     else do {
       h \<leftarrow> get32 4 payload;
       let handle = sint h;
       if handle = BlockDeviceHandle then reply fs handle (SendCloseReply handle c)
       else do {
         (fs, err) \<leftarrow> fs_Close E handle fs;
         case err of
           Some e \<Rightarrow> reply fs (- errToErrno (Some e)) (SendCloseReply (- errToErrno (Some e)) c)
         | None \<Rightarrow> reply fs 0 (SendCloseReply 0 (removeHandle handle c))
       }
     })"

definition handleRead :: "('f, 'e) Env_scheme \<Rightarrow> bytes \<Rightarrow> 'f conn_state \<Rightarrow> 'f handled" where
  "handleRead E payload = (\<lambda>(fs, c).
     if length payload < 12 then reply fs (- EINVAL) (SendReadResult (- EINVAL) [] c)
     else do {
       h \<leftarrow> get32 4 payload;
       sz \<leftarrow> get32 8 payload;
       (fs, r) \<leftarrow> fs_Read E (sint h) sz fs;
       case r of
         Inl e \<Rightarrow> reply fs (- errToErrno (Some e)) (SendReadResult (- errToErrno (Some e)) [] c)
       | Inr (n, data) \<Rightarrow> reply fs n (SendReadResult n data c)
     })"

section \<open>Writes\<close>

text \<open>
  The part the three write handlers share: parse a chunk, pass it on, and complete the write after
  the last one. \<open>n\<close> is the length of the whole request.
\<close>

definition handle_chunk :: "('f, 'e) Env_scheme \<Rightarrow> int \<Rightarrow> bytes \<Rightarrow> nat \<Rightarrow> 'f conn_state \<Rightarrow> 'f handled" where
  "handle_chunk E handle chunkPayload n = (\<lambda>(fs, c). do {
     chunkNr \<leftarrow> get16 2 chunkPayload;
     chunkSize \<leftarrow> get16 4 chunkPayload;
     totalChunks \<leftarrow> get16 6 chunkPayload;
     let chunkData = drop 8 chunkPayload;
     let chunkData = (if unat chunkSize < length chunkData then take (unat chunkSize) chunkData else chunkData);
     (fs, r) \<leftarrow> fs_WriteChunk E handle chunkNr chunkSize totalChunks chunkData fs;
     case r of
       Inl e \<Rightarrow> reply fs (- errToErrno (Some e)) (SendWriteDone (- errToErrno (Some e)) c)
     | Inr True \<Rightarrow> do {
         (fs, r) \<leftarrow> fs_CompleteWrite E handle fs;
         case r of
           Inl e \<Rightarrow> reply fs (- errToErrno (Some e)) (SendWriteDone (- errToErrno (Some e)) c)
         | Inr written \<Rightarrow> reply fs (int n) (SendWriteDone written c)
       }
     | Inr False \<Rightarrow> reply fs (int n) (Conn_SendACK True c)
   })"

definition handleWriteReq :: "('f, 'e) Env_scheme \<Rightarrow> bytes \<Rightarrow> 'f conn_state \<Rightarrow> 'f handled" where
  "handleWriteReq E payload = (\<lambda>(fs, c).
     if length payload < 12 then reply fs 0 (Conn_SendACK True c)
     else do {
       h \<leftarrow> get32 4 payload;
       let handle = sint h;
       (fs, err) \<leftarrow> fs_WriteStart E handle fs;
       case err of
         Some e \<Rightarrow> reply fs (- errToErrno (Some e)) (SendWriteDone (- errToErrno (Some e)) c)
       | None \<Rightarrow>
           let c = setWriteHandle handle c;
               chunkPayload = drop 12 payload
           in if length payload \<le> 12 \<or> length chunkPayload < 8 then reply fs 0 (Conn_SendACK True c)
              else handle_chunk E handle chunkPayload (length payload) (fs, c)
     })"

definition handleWriteData :: "('f, 'e) Env_scheme \<Rightarrow> bytes \<Rightarrow> 'f conn_state \<Rightarrow> 'f handled" where
  "handleWriteData E payload = (\<lambda>(fs, c).
     if length payload < 8 then reply fs 0 (Conn_SendACK True c)
     else
       let handle = getWriteHandle c
       in if handle = - 1 then reply fs EBADF (Conn_SendACK True c)
          else handle_chunk E handle payload (length payload) (fs, c))"

section \<open>Positions and directories\<close>

definition handleLseek :: "('f, 'e) Env_scheme \<Rightarrow> bytes \<Rightarrow> 'f conn_state \<Rightarrow> 'f handled" where
  "handleLseek E payload = (\<lambda>(fs, c).
     if length payload < 16 then reply fs (- 1) (SendLseekReply (- 1) c)
     else do {
       h \<leftarrow> get32 4 payload;
       offsetLo \<leftarrow> get32 8 payload;
       offsetHi \<leftarrow> get32 12 payload;
       let offset = join64 offsetLo offsetHi;
       let whence = uint (payload ! 1);
       (fs, pos, err) \<leftarrow> fs_Lseek E (sint h) offset whence fs;
       case err of
         Some e \<Rightarrow> reply fs (- 1) (SendLseekReply (- 1) c)
       | None \<Rightarrow> reply fs 0 (SendLseekReply pos c)
     })"

definition handleDread :: "('f, 'e) Env_scheme \<Rightarrow> bytes \<Rightarrow> 'f conn_state \<Rightarrow> 'f handled" where
  "handleDread E payload = (\<lambda>(fs, c).
     if length payload < 8 then reply fs (- EINVAL) (SendDreadReply (- EINVAL) [] zero_stat c)
     else do {
       h \<leftarrow> get32 4 payload;
       (fs, ok, name, stat, err) \<leftarrow> fs_Dread E (sint h) fs;
       case err of
         Some e \<Rightarrow> reply fs (- errToErrno (Some e)) (SendDreadReply (- errToErrno (Some e)) [] zero_stat c)
       | None \<Rightarrow>
           if \<not> ok then reply fs 0 (SendDreadReply 0 [] zero_stat c)
           else reply fs 0 (SendDreadReply 1 name stat c)
     })"

definition handleGetstat :: "('f, 'e) Env_scheme \<Rightarrow> bytes \<Rightarrow> 'f conn_state \<Rightarrow> 'f handled" where
  "handleGetstat E payload = (\<lambda>(fs, c).
     if length payload < 4 then reply fs (- EINVAL) (SendGetstatReply (- EINVAL) zero_stat c)
     else do {
       (fs, stat, err) \<leftarrow> fs_Getstat E (path_at 4 payload) fs;
       case err of
         Some e \<Rightarrow> reply fs (- errToErrno (Some e)) (SendGetstatReply (- errToErrno (Some e)) zero_stat c)
       | None \<Rightarrow> reply fs 0 (SendGetstatReply 0 stat c)
     })"

text \<open>MKDIR, REMOVE and RMDIR differ in the method they call.\<close>

definition path_request :: "(string \<Rightarrow> 'f \<Rightarrow> ('f \<times> go_error option) option) \<Rightarrow> bytes \<Rightarrow> 'f conn_state \<Rightarrow> 'f handled" where
  "path_request method payload = (\<lambda>(fs, c).
     if length payload < 4 then reply fs (- EINVAL) (SendResultReplyOnly (- EINVAL) c)
     else do {
       (fs, err) \<leftarrow> method (path_at 4 payload) fs;
       case err of
         Some e \<Rightarrow> reply fs (- errToErrno (Some e)) (SendResultReplyOnly (- errToErrno (Some e)) c)
       | None \<Rightarrow> reply fs 0 (SendResultReplyOnly 0 c)
     })"

definition handleMkdir :: "('f, 'e) Env_scheme \<Rightarrow> bytes \<Rightarrow> 'f conn_state \<Rightarrow> 'f handled" where
  "handleMkdir E = path_request (fs_Mkdir E)"

definition handleRemove :: "('f, 'e) Env_scheme \<Rightarrow> bytes \<Rightarrow> 'f conn_state \<Rightarrow> 'f handled" where
  "handleRemove E = path_request (fs_Remove E)"

definition handleRmdir :: "('f, 'e) Env_scheme \<Rightarrow> bytes \<Rightarrow> 'f conn_state \<Rightarrow> 'f handled" where
  "handleRmdir E = path_request (fs_Rmdir E)"

section \<open>Sectors\<close>

definition handleBread :: "('f, 'e) Env_scheme \<Rightarrow> bytes \<Rightarrow> 'f conn_state \<Rightarrow> 'f handled" where
  "handleBread E payload = (\<lambda>(fs, c).
     if length payload < 16 then reply fs (- EINVAL) (SendReadResult (- EINVAL) [] c)
     else do {
       sectorCount \<leftarrow> get16 2 payload;
       h \<leftarrow> get32 4 payload;
       sectorNrLo \<leftarrow> get32 8 payload;
       sectorNrHi \<leftarrow> get32 12 payload;
       (fs, r) \<leftarrow> fs_Bread E (sint h) (join64 sectorNrLo sectorNrHi) sectorCount fs;
       case r of
         Inl e \<Rightarrow> reply fs (- errToErrno (Some e)) (SendReadResult (- errToErrno (Some e)) [] c)
       | Inr data \<Rightarrow> reply fs (int (length data)) (SendReadResult (int32 (int (length data))) data c)
     })"

definition handleBwriteReq :: "('f, 'e) Env_scheme \<Rightarrow> bytes \<Rightarrow> 'f conn_state \<Rightarrow> 'f handled" where
  "handleBwriteReq E payload = (\<lambda>(fs, c).
     if length payload < 16 then reply fs 0 (Conn_SendACK True c)
     else do {
       sectorCount \<leftarrow> get16 2 payload;
       h \<leftarrow> get32 4 payload;
       let handle = sint h;
       sectorNrLo \<leftarrow> get32 8 payload;
       sectorNrHi \<leftarrow> get32 12 payload;
       (fs, err) \<leftarrow> fs_BwriteStart E handle (join64 sectorNrLo sectorNrHi) sectorCount fs;
       case err of
         Some e \<Rightarrow> reply fs (- errToErrno (Some e)) (SendWriteDone (- errToErrno (Some e)) c)
       | None \<Rightarrow>
           let c = setWriteHandle handle c;
               chunkPayload = drop 16 payload
           in if length payload \<le> 16 \<or> length chunkPayload < 8 then reply fs 0 (Conn_SendACK True c)
              else handle_chunk E handle chunkPayload (length payload) (fs, c)
     })"

section \<open>Dispatch\<close>

definition handler_of :: "('f, 'e) Env_scheme \<Rightarrow> MsgType \<Rightarrow> (bytes \<Rightarrow> 'f conn_state \<Rightarrow> 'f handled) option" where
  "handler_of E msgType =
     (if msgType = MsgOpenReq then Some (handleOpen E)
      else if msgType = MsgCloseReq then Some (handleClose E)
      else if msgType = MsgReadReq then Some (handleRead E)
      else if msgType = MsgWriteReq then Some (handleWriteReq E)
      else if msgType = MsgWriteData then Some (handleWriteData E)
      else if msgType = MsgLseekReq then Some (handleLseek E)
      else if msgType = MsgDreadReq then Some (handleDread E)
      else if msgType = MsgGetstatReq then Some (handleGetstat E)
      else if msgType = MsgMkdirReq then Some (handleMkdir E)
      else if msgType = MsgRemoveReq then Some (handleRemove E)
      else if msgType = MsgRmdirReq then Some (handleRmdir E)
      else if msgType = MsgBreadReq then Some (handleBread E)
      else if msgType = MsgBwriteReq then Some (handleBwriteReq E)
      else None)"

definition HandlePayload :: "('f, 'e) Env_scheme \<Rightarrow> bytes \<Rightarrow> 'f conn_state \<Rightarrow> 'f conn_state option" where
  "HandlePayload E payload = (\<lambda>(fs, c).
     if payload = [] then Some (fs, c)
     else
       let msgType = hd payload
       in case handler_of E msgType of
            None \<Rightarrow> map_option (Pair fs) (Conn_SendACK True c)
          | Some handler \<Rightarrow> do {
              ((fs, c), statusCode) \<leftarrow> handler payload (fs, c);
              Some (fs, c\<lparr>c_metrics := map_option (logMetric (env_now E) msgType statusCode) (c_metrics c)\<rparr>)
            })"

end
