(* ===== verification/UdpfsContract.thy ===== *)
theory UdpfsContract
  imports UdpfsHandlers
begin

text \<open>
  What the protocol layer relies on and what it keeps, whatever the filesystem behind it. The locale
  \<open>fs_contract\<close> is the contract of the \<^verbatim>\<open>FS\<close> interface for an invariant of the filesystem: every method
  keeps it when it is called the way the handlers call it. Inside the locale the handlers are shown to
  keep the invariant and to drive the session only in the ways its own theorems cover.
\<close>

section \<open>The contract of the filesystem\<close>

text \<open>
  \<open>P\<close> holds the environments an operation may run in. \<open>writable\<close> says on which handles a write can
  be started, \<open>valid\<close> which handles can be given out.
\<close>

locale fs_contract =
  fixes P :: "'f Env set"
    and inv :: "'f \<Rightarrow> bool"
    and writable :: "int \<Rightarrow> bool"
    and valid :: "int \<Rightarrow> bool"
  assumes iter_set: "E \<in> P \<Longrightarrow> set (env_iter E m) = set m"
    and open_inv: "E \<in> P \<Longrightarrow> inv f \<Longrightarrow> fs_Open E p (udpfsFlagsToOSFlags fl) d f = Some (f', h, st, e) \<Longrightarrow>
      inv f' \<and> stat_ok st \<and> (e = None \<and> 0 \<le> h \<longrightarrow> valid h)"
    and close_inv: "E \<in> P \<Longrightarrow> inv f \<Longrightarrow> fs_Close E h f = Some (f', e) \<Longrightarrow> inv f'"
    and read_inv: "E \<in> P \<Longrightarrow> inv f \<Longrightarrow> fs_Read E h sz f = Some (f', r) \<Longrightarrow> inv f'"
    and write_start_inv: "E \<in> P \<Longrightarrow> inv f \<Longrightarrow> fs_WriteStart E h f = Some (f', e) \<Longrightarrow>
      inv f' \<and> (e = None \<longrightarrow> writable h)"
    and write_chunk_inv: "E \<in> P \<Longrightarrow> inv f \<Longrightarrow> writable h \<Longrightarrow>
      fs_WriteChunk E h cnr csz tot b f = Some (f', r1) \<Longrightarrow> inv f'"
    and complete_inv: "E \<in> P \<Longrightarrow> inv f \<Longrightarrow> writable h \<Longrightarrow> fs_CompleteWrite E h f = Some (f', r2) \<Longrightarrow> inv f'"
    and lseek_inv: "E \<in> P \<Longrightarrow> inv f \<Longrightarrow> fs_Lseek E h off wh f = Some (f', pos, e) \<Longrightarrow> inv f'"
    and dread_inv: "E \<in> P \<Longrightarrow> inv f \<Longrightarrow> fs_Dread E h f = Some (f', ok, name, st, e) \<Longrightarrow>
      inv f' \<and> stat_ok st \<and> length name \<le> 1439"
    and getstat_inv: "E \<in> P \<Longrightarrow> inv f \<Longrightarrow> fs_Getstat E p f = Some (f', st, e) \<Longrightarrow> inv f' \<and> stat_ok st"
    and mkdir_inv: "E \<in> P \<Longrightarrow> inv f \<Longrightarrow> fs_Mkdir E p f = Some (f', e) \<Longrightarrow> inv f'"
    and remove_inv: "E \<in> P \<Longrightarrow> inv f \<Longrightarrow> fs_Remove E p f = Some (f', e) \<Longrightarrow> inv f'"
    and rmdir_inv: "E \<in> P \<Longrightarrow> inv f \<Longrightarrow> fs_Rmdir E p f = Some (f', e) \<Longrightarrow> inv f'"
    and bread_inv: "E \<in> P \<Longrightarrow> inv f \<Longrightarrow> fs_Bread E h nr n f = Some (f', r3) \<Longrightarrow> inv f'"
    and bwrite_start_inv: "E \<in> P \<Longrightarrow> inv f \<Longrightarrow> fs_BwriteStart E h nr n f = Some (f', e) \<Longrightarrow>
      inv f' \<and> (e = None \<longrightarrow> writable h)"

section \<open>Sending\<close>

lemma reachable_send:
  "reachable s \<Longrightarrow> wf_op op \<Longrightarrow> run_op op s = Some s' \<Longrightarrow> reachable s'"
  by (auto intro: reachable.next_state session_step.step)

lemma Conn_SendData_eq:
  assumes "Conn_SendData p c = Some c'" "length p \<le> 1492" "reachable (c_sess c)"
  shows "\<exists>s. c' = c\<lparr>c_sess := s\<rparr> \<and> reachable s"
  using assms reachable_send [of "c_sess c" "OpSendData (Some p)"] by (auto simp: Conn_SendData_def)

lemma Conn_SendACK_eq:
  assumes "Conn_SendACK ack c = Some c'" "reachable (c_sess c)"
  shows "\<exists>s. c' = c\<lparr>c_sess := s\<rparr> \<and> reachable s"
  using assms reachable_send [of "c_sess c" "OpSendACK ack"] by (auto simp: Conn_SendACK_def)

lemma SendReadResult_eq:
  assumes "SendReadResult r b c = Some c'" "reachable (c_sess c)"
  shows "\<exists>s. c' = c\<lparr>c_sess := s\<rparr> \<and> reachable s"
  using assms reachable_send [of "c_sess c" "OpSendRaw (PackResultReply r) (Some b)"]
  by (auto simp: SendReadResult_def)

lemmas send_defs = SendOpenReply_def SendCloseReply_def SendLseekReply_def SendDreadReply_def
  SendGetstatReply_def SendResultReplyOnly_def

section \<open>The handlers\<close>

context fs_contract
begin

definition conn_ok :: "Connection \<Rightarrow> bool" where
  "conn_ok c \<longleftrightarrow> reachable (c_sess c) \<and> (c_activeWriteHandle c = - 1 \<or> writable (c_activeWriteHandle c)) \<and>
     (\<forall>h \<in> fst ` set (c_usedHandles c). valid h)"

definition state_ok :: "'f conn_state \<Rightarrow> bool" where
  "state_ok st \<longleftrightarrow> inv (fst st) \<and> conn_ok (snd st)"

text \<open>What a reply, a handler and the dispatcher keep, if they return.\<close>

abbreviation sends :: "Connection option \<Rightarrow> bool" where
  "sends co \<equiv> post conn_ok co"

abbreviation handles :: "'f handled \<Rightarrow> bool" where
  "handles r \<equiv> post (\<lambda>(st, code). state_ok st) r"

lemma conn_ok_sess: "conn_ok c \<Longrightarrow> reachable s \<Longrightarrow> conn_ok (c\<lparr>c_sess := s\<rparr>)"
  by (simp add: conn_ok_def)

lemma conn_ok_clear: "conn_ok c \<Longrightarrow> conn_ok (clearWriteHandle c)"
  by (simp add: conn_ok_def clearWriteHandle_def)

lemma conn_ok_set: "conn_ok c \<Longrightarrow> writable h \<Longrightarrow> conn_ok (setWriteHandle h c)"
  unfolding conn_ok_def setWriteHandle_def by simp

lemma conn_ok_metrics: "conn_ok c \<Longrightarrow> conn_ok (c\<lparr>c_metrics := m\<rparr>)"
  by (simp add: conn_ok_def)

lemma conn_ok_update:
  "conn_ok c \<Longrightarrow> valid h \<Longrightarrow> conn_ok (c\<lparr>c_usedHandles := AList.update h x (c_usedHandles c)\<rparr>)"
  by (simp add: conn_ok_def dom_update)

lemma conn_ok_add: "conn_ok c \<Longrightarrow> valid h \<Longrightarrow> conn_ok (addHandle h p fl d c)"
  unfolding addHandle_def by (rule conn_ok_update)

lemma conn_ok_delete:
  assumes "conn_ok c"
  shows "conn_ok (c\<lparr>c_usedHandles := AList.delete h (c_usedHandles c)\<rparr>)"
proof -
  have "\<forall>k \<in> fst ` set (AList.delete h (c_usedHandles c)). valid k"
    unfolding keys_delete using assms unfolding conn_ok_def by blast
  then show ?thesis using assms unfolding conn_ok_def by simp
qed

lemma conn_ok_remove: "conn_ok c \<Longrightarrow> conn_ok (removeHandle h c)"
  using conn_ok_delete [of c h] unfolding removeHandle_def Let_def by (simp add: conn_ok_def)

text \<open>Every reply keeps the connection in order.\<close>

lemma dread_fits: "stat_ok st \<Longrightarrow> length name \<le> 1439 \<Longrightarrow> length (PackDreadReply r name st) \<le> 1492"
  unfolding length_PackDreadReply by (simp, presburger)

lemma sends_data: "conn_ok c \<Longrightarrow> length p \<le> 1492 \<Longrightarrow> sends (Conn_SendData p c)"
  unfolding post_def using Conn_SendData_eq conn_ok_sess conn_ok_def by blast

lemma sends_ACK: "conn_ok c \<Longrightarrow> sends (Conn_SendACK ack c)"
  unfolding post_def using Conn_SendACK_eq conn_ok_sess conn_ok_def by blast

lemma sends_read: "conn_ok c \<Longrightarrow> sends (SendReadResult r b c)"
  unfolding post_def using SendReadResult_eq conn_ok_sess conn_ok_def by blast

lemma sends_replies:
  assumes "conn_ok c"
  shows "sends (SendWriteDone r c)" "sends (SendCloseReply r c)" "sends (SendLseekReply pos c)"
    "sends (SendResultReplyOnly r c)" "stat_ok st \<Longrightarrow> sends (SendOpenReply h st c)"
    "stat_ok st \<Longrightarrow> sends (SendGetstatReply r st c)"
    "stat_ok st \<Longrightarrow> length name \<le> 1439 \<Longrightarrow> sends (SendDreadReply r name st c)"
  using assms
  by (simp_all add: send_defs SendWriteDone_def sends_data conn_ok_clear dread_fits)

lemmas sends_intros = sends_ACK sends_read sends_replies

text \<open>Rules that take a handler apart.\<close>

lemma handles_reply: "inv fs \<Longrightarrow> sends co \<Longrightarrow> handles (reply fs code co)"
  by (auto simp: post_def reply_def state_ok_def)

lemmas handles_rules = post_rules handles_reply

lemma lookupHandle_ok:
  assumes "E \<in> P" "conn_ok c" "lookupHandle E p fl c = (c', r)"
  shows "conn_ok c'"
proof (cases "filter (\<lambda>(_, h). ch_reset h \<and> ch_path h = p \<and> ch_flag h = fl) (env_iter E (c_usedHandles c))")
  case (Cons x xs)
  then have "x \<in> set (filter (\<lambda>(_, h). ch_reset h \<and> ch_path h = p \<and> ch_flag h = fl) (env_iter E (c_usedHandles c)))"
    by simp
  then have "x \<in> set (c_usedHandles c)" using iter_set [OF assms(1)] by simp
  then have "valid (fst x)" using assms(2) by (auto simp: conn_ok_def)
  then show ?thesis using conn_ok_update [OF assms(2)] assms(3) Cons
    by (cases x) (auto simp: lookupHandle_def)
qed (use assms in \<open>simp add: lookupHandle_def\<close>)

lemma lookup_if_ok:
  "E \<in> P \<Longrightarrow> conn_ok c \<Longrightarrow> (if b then (c, None) else lookupHandle E p fl c) = (c', r) \<Longrightarrow> conn_ok c'"
  using lookupHandle_ok by (cases b) auto

lemma handleOpen_ok: "E \<in> P \<Longrightarrow> inv fs \<Longrightarrow> conn_ok c \<Longrightarrow> handles (handleOpen E payload (fs, c))"
  unfolding handleOpen_def split
  by (intro handles_rules; (intro sends_intros)?;
      (blast intro: stat_ok_zero conn_ok_add dest: open_inv lookup_if_ok leI)?)

lemma handleClose_ok: "E \<in> P \<Longrightarrow> inv fs \<Longrightarrow> conn_ok c \<Longrightarrow> handles (handleClose E payload (fs, c))"
  unfolding handleClose_def split
  by (intro handles_rules; (intro sends_intros)?;
      (blast intro: conn_ok_remove dest: close_inv)?)

lemma handleRead_ok: "E \<in> P \<Longrightarrow> inv fs \<Longrightarrow> conn_ok c \<Longrightarrow> handles (handleRead E payload (fs, c))"
  unfolding handleRead_def split
  by (intro handles_rules; (intro sends_intros)?; (blast dest: read_inv)?)

lemma handle_chunk_ok:
  "E \<in> P \<Longrightarrow> inv fs \<Longrightarrow> conn_ok c \<Longrightarrow> writable h \<Longrightarrow> handles (handle_chunk E h p n (fs, c))"
  unfolding handle_chunk_def split
  by (intro handles_rules; (intro sends_intros)?; (blast dest: write_chunk_inv complete_inv)?)

lemma handleWriteReq_ok: "E \<in> P \<Longrightarrow> inv fs \<Longrightarrow> conn_ok c \<Longrightarrow> handles (handleWriteReq E payload (fs, c))"
  unfolding handleWriteReq_def split
  by (intro handles_rules handle_chunk_ok; (intro sends_intros)?;
      (blast intro: conn_ok_set dest: write_start_inv)?)

lemma handleWriteData_ok:
  assumes "E \<in> P" "inv fs" "conn_ok c"
  shows "handles (handleWriteData E payload (fs, c))"
proof -
  have "getWriteHandle c \<noteq> - 1 \<Longrightarrow> writable (getWriteHandle c)" using assms(3) by (simp add: conn_ok_def getWriteHandle_def)
  then show ?thesis
    unfolding handleWriteData_def split
    by (intro handles_rules handle_chunk_ok; (intro sends_intros)?; (blast intro: assms)?)
qed

lemma handleLseek_ok: "E \<in> P \<Longrightarrow> inv fs \<Longrightarrow> conn_ok c \<Longrightarrow> handles (handleLseek E payload (fs, c))"
  unfolding handleLseek_def split
  by (intro handles_rules; (intro sends_intros)?; (blast dest: lseek_inv)?)

lemma handleDread_ok: "E \<in> P \<Longrightarrow> inv fs \<Longrightarrow> conn_ok c \<Longrightarrow> handles (handleDread E payload (fs, c))"
  unfolding handleDread_def split
  by (intro handles_rules; (intro sends_intros)?; (simp; fail)?; (blast dest: dread_inv)?)

lemma handleGetstat_ok: "E \<in> P \<Longrightarrow> inv fs \<Longrightarrow> conn_ok c \<Longrightarrow> handles (handleGetstat E payload (fs, c))"
  unfolding handleGetstat_def split
  by (intro handles_rules; (intro sends_intros)?; (simp; fail)?; (blast dest: getstat_inv)?)

lemma path_request_ok:
  "(\<And>p f f' e. inv f \<Longrightarrow> method p f = Some (f', e) \<Longrightarrow> inv f') \<Longrightarrow> inv fs \<Longrightarrow> conn_ok c \<Longrightarrow>
   handles (path_request method payload (fs, c))"
  unfolding path_request_def split
  by (intro handles_rules; (intro sends_intros)?; (blast)?)

lemma handleBread_ok: "E \<in> P \<Longrightarrow> inv fs \<Longrightarrow> conn_ok c \<Longrightarrow> handles (handleBread E payload (fs, c))"
  unfolding handleBread_def split
  by (intro handles_rules; (intro sends_intros)?; (blast dest: bread_inv)?)

lemma handleBwriteReq_ok: "E \<in> P \<Longrightarrow> inv fs \<Longrightarrow> conn_ok c \<Longrightarrow> handles (handleBwriteReq E payload (fs, c))"
  unfolding handleBwriteReq_def split
  by (intro handles_rules handle_chunk_ok; (intro sends_intros)?;
      (blast intro: conn_ok_set dest: bwrite_start_inv)?)

lemma handler_of_ok:
  "E \<in> P \<Longrightarrow> inv fs \<Longrightarrow> conn_ok c \<Longrightarrow> handler_of E t = Some handler \<Longrightarrow> handles (handler payload (fs, c))"
  unfolding handler_of_def handleMkdir_def handleRemove_def handleRmdir_def
  by (auto intro: handleOpen_ok handleClose_ok handleRead_ok handleWriteReq_ok handleWriteData_ok
      handleLseek_ok handleDread_ok handleGetstat_ok handleBread_ok handleBwriteReq_ok
      path_request_ok [OF mkdir_inv] path_request_ok [OF remove_inv] path_request_ok [OF rmdir_inv]
      simp del: MsgOpenReq_def MsgCloseReq_def MsgReadReq_def MsgWriteReq_def MsgWriteData_def
      MsgLseekReq_def MsgDreadReq_def MsgGetstatReq_def MsgMkdirReq_def MsgRemoveReq_def
      MsgRmdirReq_def MsgBreadReq_def MsgBwriteReq_def split: if_splits)

text \<open>The dispatcher, a reset of the peer and the end of the connection.\<close>

lemma HandlePayload_ok:
  assumes "E \<in> P" "state_ok st" "HandlePayload E payload st = Some st'"
  shows "state_ok st'"
proof -
  obtain fs c where st: "st = (fs, c)" by fastforce
  have ok: "inv fs" "conn_ok c" using assms(2) by (simp_all add: st state_ok_def)
  show ?thesis
  proof (cases "handler_of E (hd payload)")
    case None
    then show ?thesis
      using assms(2,3) ok sends_ACK [OF ok(2), of True]
      by (auto simp: st HandlePayload_def Let_def state_ok_def post_def split: if_splits)
  next
    case (Some handler)
    then have "handles (handler payload (fs, c))" using handler_of_ok assms(1) ok by blast
    then show ?thesis
      using assms(2,3) Some
      by (auto simp: st HandlePayload_def Let_def state_ok_def post_def bind_eq_Some_conv
          conn_ok_metrics split: if_splits)
  qed
qed

lemma reset_loop_ok:
  assumes E: "E \<in> P"
  shows "reset_loop E hs (fs, c) = Some st' \<Longrightarrow> inv fs \<Longrightarrow> conn_ok c \<Longrightarrow> (\<forall>x \<in> set hs. valid (fst x)) \<Longrightarrow>
    state_ok st'"
proof (induction hs arbitrary: fs c)
  case (Cons x hs)
  obtain h ch where x: "x = (h, ch)" by fastforce
  then obtain fs' pos e where l: "fs_Lseek E h 0 0 fs = Some (fs', pos, e)"
    using Cons.prems(1) by (auto split: option.splits)
  then show ?case
    using Cons.prems Cons.IH [of fs'] lseek_inv [OF E Cons.prems(2) l] conn_ok_update [OF Cons.prems(3)]
    by (simp add: x)
qed (auto simp: state_ok_def)

lemma ResetPeer_ok:
  assumes "E \<in> P" "state_ok st" "ResetPeer E st = Some st'"
  shows "state_ok st'"
  using assms reset_loop_ok [OF assms(1)] iter_set [OF assms(1)]
  by (cases st) (auto simp: ResetPeer_def state_ok_def conn_ok_def)

lemma close_loop_ok:
  assumes E: "E \<in> P"
  shows "close_loop E hs (fs, c) = Some st' \<Longrightarrow> inv fs \<Longrightarrow> conn_ok c \<Longrightarrow> state_ok st'"
proof (induction hs arbitrary: fs c)
  case (Cons x hs)
  obtain h ch where x: "x = (h, ch)" by fastforce
  then obtain fs' e where l: "fs_Close E h fs = Some (fs', e)"
    using Cons.prems(1) by (auto split: option.splits)
  then show ?case
    using Cons.prems Cons.IH [of fs'] close_inv [OF E Cons.prems(2) l] conn_ok_delete [OF Cons.prems(3)]
    by (simp add: x)
qed (auto simp: state_ok_def)

lemma Connection_Close_ok:
  assumes "E \<in> P" "state_ok st" "Connection_Close E st = Some st'"
  shows "state_ok st'"
proof -
  obtain fs c where st: "st = (fs, c)" by fastforce
  obtain fs' c' where l: "close_loop E (env_iter E (c_usedHandles c)) (fs, c) = Some (fs', c')"
    "st' = (fs', c'\<lparr>c_sess := Session_Close (c_sess c')\<rparr>)"
    using assms(3) by (auto simp: st Connection_Close_def bind_eq_Some_conv)
  then have ok: "inv fs'" "conn_ok c'" using close_loop_ok [OF assms(1) l(1)] assms(2) by (simp_all add: st state_ok_def)
  moreover have "reachable (Session_Close (c_sess c'))"
    using ok(2) reachable_send [of "c_sess c'" OpClose] by (simp add: conn_ok_def)
  ultimately show ?thesis using l(2) by (simp add: state_ok_def conn_ok_sess)
qed

lemma NewConnection_ok: "conn_ok (NewConnection NewSession m)"
  using reachable_send [OF reachable.init, of OpSetReset] by (simp add: NewConnection_def conn_ok_def)

end

end
