(* ===== verification/UdpfsServer.thy ===== *)
theory UdpfsServer
  imports UdpfsContract
begin

text \<open>
  The server (\<^verbatim>\<open>internal/udpfsd\<close>): the peers it knows, what it does with a datagram on the data port and
  on the discovery port, the removal of idle peers, and the batch writer of Linux. The server is a
  transition system whose steps are datagrams, timers and the cleanup tick, in any order.

  The goroutines run these steps one at a time here. The data handler is one goroutine, so requests
  are indeed handled one after the other; the timers and the cleanup take locks of the connection and
  the session for the whole of their work.
\<close>

section \<open>State\<close>

text \<open>An IPv4 address and a port.\<close>

datatype AddrPort = AddrPort u32 u16

record peer =
  p_conn :: Connection
  p_lastSeen :: int

record 'f Server =
  sv_fs :: 'f
  sv_cMap :: "(AddrPort, peer) go_map"
  sv_peerTimeout :: int
  sv_port :: int
  sv_bindIP :: string
  sv_metricsLoggingPeriod :: int
  sv_verbose :: bool
  sv_logMetrics :: bool

definition defaultPeerTimeout :: int where [simp]: "defaultPeerTimeout = 3600000000000"
definition metricsLoggingPeriod :: int where [simp]: "metricsLoggingPeriod = 60000000000"
definition UDPFSPort :: int where [simp]: "UDPFSPort = 0xF5F6"

datatype 'f ServerOpt =
    WithDiscoveryPort int | WithDataIP string | WithVerbose | WithFS "'f option"
  | WithMetrics int | WithPeerTimeout int

text \<open>While the options are applied the filesystem may still be missing.\<close>

fun apply_server_opt :: "'f ServerOpt \<Rightarrow> 'f option Server \<Rightarrow> 'f option Server" where
  "apply_server_opt (WithDiscoveryPort port) s = (if port \<noteq> 0 then s\<lparr>sv_port := port\<rparr> else s)"
| "apply_server_opt (WithDataIP ip) s = (if ip \<noteq> [] then s\<lparr>sv_bindIP := ip\<rparr> else s)"
| "apply_server_opt WithVerbose s = s\<lparr>sv_verbose := True\<rparr>"
| "apply_server_opt (WithFS fs) s = (if fs \<noteq> None then s\<lparr>sv_fs := fs\<rparr> else s)"
| "apply_server_opt (WithMetrics d) s =
     (let s = (if 0 < d then s\<lparr>sv_metricsLoggingPeriod := d\<rparr> else s) in s\<lparr>sv_logMetrics := True\<rparr>)"
| "apply_server_opt (WithPeerTimeout d) s = (if 0 < d then s\<lparr>sv_peerTimeout := d\<rparr> else s)"

definition Server_New :: "'f ServerOpt list \<Rightarrow> go_error + 'f Server" where
  "Server_New opts =
     (let s = fold apply_server_opt opts
            \<lparr>sv_fs = None, sv_cMap = [], sv_peerTimeout = defaultPeerTimeout, sv_port = UDPFSPort,
             sv_bindIP = [], sv_metricsLoggingPeriod = metricsLoggingPeriod, sv_verbose = False,
             sv_logMetrics = False\<rparr>
      in case sv_fs s of
           None \<Rightarrow> Inl FormatError
         | Some fs \<Rightarrow> Inr \<lparr>sv_fs = fs, sv_cMap = sv_cMap s, sv_peerTimeout = sv_peerTimeout s,
             sv_port = sv_port s, sv_bindIP = sv_bindIP s,
             sv_metricsLoggingPeriod = sv_metricsLoggingPeriod s, sv_verbose = sv_verbose s,
             sv_logMetrics = sv_logMetrics s\<rparr>)"

section \<open>Datagrams\<close>

text \<open>
  \<open>ProcessDataPacket\<close> calls the reset callback while it works; the callback touches the handles and
  the filesystem only, so running it right after gives the same state.
\<close>

definition reset_calls :: "session \<Rightarrow> session \<Rightarrow> nat" where
  "reset_calls s s' = length (filter (\<lambda>e. e = CallReset) (drop (length (outbox s)) (outbox s')))"

fun run_resets :: "('f, 'e) Env_scheme \<Rightarrow> nat \<Rightarrow> 'f conn_state \<Rightarrow> 'f conn_state option" where
  "run_resets E 0 st = Some st"
| "run_resets E (Suc n) st = (case ResetPeer E st of None \<Rightarrow> None | Some st \<Rightarrow> run_resets E n st)"

definition process_packet :: "('f, 'e) Env_scheme \<Rightarrow> bytes \<Rightarrow> 'f conn_state \<Rightarrow> 'f conn_state option" where
  "process_packet E data = (\<lambda>(fs, c). do {
     (sess, r) \<leftarrow> ProcessDataPacket (c_sess c) data;
     st \<leftarrow> run_resets E (reset_calls (c_sess c) sess) (fs, c\<lparr>c_sess := sess\<rparr>);
     case r of
       Inr (Some payload) \<Rightarrow> HandlePayload E payload st
     | _ \<Rightarrow> Some st
   })"

definition get_peer :: "('f, 'e) Env_scheme \<Rightarrow> AddrPort \<Rightarrow> 'f Server \<Rightarrow> peer" where
  "get_peer E addr s =
     (case map_of (sv_cMap s) addr of
        None \<Rightarrow> \<lparr>p_conn = NewConnection NewSession (sv_logMetrics s), p_lastSeen = env_now E\<rparr>
      | Some p \<Rightarrow> p\<lparr>p_lastSeen := env_now E\<rparr>)"

definition handleData :: "('f, 'e) Env_scheme \<Rightarrow> bytes \<Rightarrow> AddrPort \<Rightarrow> 'f Server \<Rightarrow> 'f Server option" where
  "handleData E data addr s =
     (let p = get_peer E addr s
      in case process_packet E data (sv_fs s, p_conn p) of
           None \<Rightarrow> None
         | Some (fs, c) \<Rightarrow>
             Some (s\<lparr>sv_fs := fs, sv_cMap := AList.update addr (p\<lparr>p_conn := c\<rparr>) (sv_cMap s)\<rparr>))"

text \<open>One turn of the receive loop: the buffer has 2048 bytes, shorter packets than six are dropped.\<close>

definition dataHandler :: "('f, 'e) Env_scheme \<Rightarrow> bytes \<Rightarrow> AddrPort \<Rightarrow> 'f Server \<Rightarrow> 'f Server option" where
  "dataHandler E pkt addr s =
     (let data = take 2048 pkt
      in if length data < 6 then Some s else handleData E data addr s)"

definition discoveryHandler :: "bytes \<Rightarrow> bytes option option" where
  "discoveryHandler pkt =
     (let data = take 2048 pkt
      in if length data < 6 then Some None
         else case ProcessDiscoveryPacket data Service_UDPFS of
           None \<Rightarrow> None
         | Some (Inl _) \<Rightarrow> Some None
         | Some (Inr answer) \<Rightarrow> Some (Some answer))"

section \<open>Timers and cleanup\<close>

definition fire_timer :: "AddrPort \<Rightarrow> 'f Server \<Rightarrow> 'f Server" where
  "fire_timer addr s =
     (case map_of (sv_cMap s) addr of
        None \<Rightarrow> s
      | Some p \<Rightarrow>
          s\<lparr>sv_cMap := AList.update addr
             (p\<lparr>p_conn := (p_conn p)\<lparr>c_sess := ackTimerFunc (c_sess (p_conn p))\<rparr>\<rparr>) (sv_cMap s)\<rparr>)"

text \<open>One tick of the cleanup, over the peers in the order the map gives them.\<close>

fun cleanup_loop :: "('f, 'e) Env_scheme \<Rightarrow> (AddrPort, peer) go_map \<Rightarrow> 'f Server \<Rightarrow> 'f Server option" where
  "cleanup_loop E [] s = Some s"
| "cleanup_loop E ((pAddr, p) # ps) s =
     (if sv_peerTimeout s \<le> env_now E - p_lastSeen p
      then case Connection_Close E (sv_fs s, p_conn p) of
             None \<Rightarrow> None
           | Some (fs, _) \<Rightarrow>
               cleanup_loop E ps (s\<lparr>sv_fs := fs, sv_cMap := AList.delete pAddr (sv_cMap s)\<rparr>)
      else cleanup_loop E ps s)"

definition cleanup :: "('f, 'e) Env_scheme \<Rightarrow> ((AddrPort, peer) go_map \<Rightarrow> (AddrPort, peer) go_map) \<Rightarrow>
    'f Server \<Rightarrow> 'f Server option" where
  "cleanup E order s = cleanup_loop E (order (sv_cMap s)) s"

section \<open>Writing a batch\<close>

text \<open>
  The batch writer. The socket is a parameter: \<open>writeTo\<close> is one datagram written, with its error
  discarded, and \<open>writeBatch\<close> is \<^verbatim>\<open>sendmmsg\<close>, which reports a number of packets, negative if the call
  failed, and whether there was an error. \<^verbatim>\<open>packets[n:]\<close> panics outside the slice.
\<close>

definition slice_from :: "'a list \<Rightarrow> int \<Rightarrow> 'a list option" where
  "slice_from xs n = (if n < 0 \<or> int (length xs) < n then None else Some (drop (nat n) xs))"

definition batch_write :: "('w \<Rightarrow> bytes \<Rightarrow> 'w) \<Rightarrow> ('w \<Rightarrow> bytes list \<Rightarrow> 'w \<times> int \<times> bool) \<Rightarrow> 'w \<Rightarrow> bytes list \<Rightarrow>
    'w option" where
  "batch_write writeTo writeBatch w packets =
     (if length packets = 0 then Some w
      else if length packets = 1 then Some (writeTo w (packets ! 0))
      else
        let (w, n, err) = writeBatch w packets
        in if err \<or> n < int (length packets)
           then do {
             let n = (if n < 0 then 0 else n);
             rest \<leftarrow> slice_from packets n;
             Some (foldl writeTo w rest)
           }
           else Some w)"

section \<open>The transition system\<close>

inductive server_step :: "'f Env set \<Rightarrow> 'f Server \<Rightarrow> 'f Server \<Rightarrow> bool" for P where
  datagram: "E \<in> P \<Longrightarrow> dataHandler E data addr s = Some s' \<Longrightarrow> server_step P s s'"
| timer: "server_step P s (fire_timer addr s)"
| tick: "E \<in> P \<Longrightarrow> set (order (sv_cMap s)) \<subseteq> set (sv_cMap s) \<Longrightarrow> cleanup E order s = Some s' \<Longrightarrow> server_step P s s'"

inductive server_reachable :: "'f Env set \<Rightarrow> 'f Server \<Rightarrow> 'f Server \<Rightarrow> bool" for P s0 where
  start: "server_reachable P s0 s0"
| move: "server_reachable P s0 s \<Longrightarrow> server_step P s s' \<Longrightarrow> server_reachable P s0 s'"

inductive_cases server_stepE: "server_step P s s'"

lemma set_update_sub: "set (AList.update k v m) \<subseteq> insert (k, v) (set m)"
  by (induction m) auto

lemma set_delete_sub: "set (AList.delete k m) \<subseteq> set m"
  by (simp add: AList.delete_eq)

section \<open>What the server keeps\<close>

context fs_contract
begin

definition server_ok :: "'f Server \<Rightarrow> bool" where
  "server_ok s \<longleftrightarrow> inv (sv_fs s) \<and> (\<forall>(a, p) \<in> set (sv_cMap s). conn_ok (p_conn p))"

lemma server_okI:
  "inv (sv_fs s) \<Longrightarrow> (\<And>a p. (a, p) \<in> set (sv_cMap s) \<Longrightarrow> conn_ok (p_conn p)) \<Longrightarrow> server_ok s"
  by (auto simp: server_ok_def)

lemma server_ok_peer: "server_ok s \<Longrightarrow> (a, p) \<in> set (sv_cMap s) \<Longrightarrow> conn_ok (p_conn p)"
  by (auto simp: server_ok_def)

lemma server_ok_put:
  assumes "server_ok s" "inv fs" "conn_ok (p_conn p)"
  shows "server_ok (s\<lparr>sv_fs := fs, sv_cMap := AList.update a p (sv_cMap s)\<rparr>)"
  using assms set_update_sub [of a p "sv_cMap s"] by (fastforce intro!: server_okI dest: server_ok_peer)

lemma run_resets_ok: "E \<in> P \<Longrightarrow> state_ok st \<Longrightarrow> run_resets E n st = Some st' \<Longrightarrow> state_ok st'"
  by (induction n arbitrary: st) (auto dest: ResetPeer_ok split: option.splits)

lemma process_packet_ok:
  assumes E: "E \<in> P" and ok: "state_ok st" and p: "process_packet E data st = Some st'" and l: "6 \<le> length data"
  shows "state_ok st'"
proof -
  obtain fs c where st: "st = (fs, c)" by fastforce
  then obtain sess r st1 where s: "ProcessDataPacket (c_sess c) data = Some (sess, r)"
    "run_resets E (reset_calls (c_sess c) sess) (fs, c\<lparr>c_sess := sess\<rparr>) = Some st1"
    and r: "(case r of Inr (Some payload) \<Rightarrow> HandlePayload E payload st1 | _ \<Rightarrow> Some st1) = Some st'"
    using p by (auto simp: process_packet_def bind_eq_Some_conv)
  have "reachable sess"
    using reachable_send [of "c_sess c" "OpPacket data" sess] ok l s(1) by (simp add: st state_ok_def conn_ok_def)
  then have "state_ok (fs, c\<lparr>c_sess := sess\<rparr>)" using ok by (simp add: st state_ok_def conn_ok_sess)
  then have "state_ok st1" using run_resets_ok [OF E _ s(2)] by simp
  then show ?thesis using r HandlePayload_ok [OF E] by (auto split: sum.splits option.splits)
qed

lemma get_peer_ok: "server_ok s \<Longrightarrow> conn_ok (p_conn (get_peer E addr s))"
  by (auto simp: get_peer_def NewConnection_ok dest: map_of_SomeD server_ok_peer split: option.split)

lemma dataHandler_ok:
  assumes "E \<in> P" "server_ok s" "dataHandler E data addr s = Some s'"
  shows "server_ok s'"
proof (cases "length (take 2048 data) < 6")
  case False
  then obtain fs c where p: "process_packet E (take 2048 data) (sv_fs s, p_conn (get_peer E addr s)) = Some (fs, c)"
    "s' = s\<lparr>sv_fs := fs, sv_cMap := AList.update addr ((get_peer E addr s)\<lparr>p_conn := c\<rparr>) (sv_cMap s)\<rparr>"
    using assms(3) by (auto simp: dataHandler_def handleData_def Let_def split: option.splits)
  have "state_ok (sv_fs s, p_conn (get_peer E addr s))"
    using get_peer_ok [OF assms(2)] assms(2) by (simp add: state_ok_def server_ok_def)
  then have "state_ok (fs, c)" using process_packet_ok [OF assms(1) _ p(1)] False by simp
  then show ?thesis unfolding p(2) using server_ok_put [OF assms(2)] by (simp add: state_ok_def)
next
  case True
  then have "s' = s" using assms(3) by (simp only: dataHandler_def Let_def if_True option.inject)
  then show ?thesis using assms(2) by simp
qed

lemma fire_timer_ok:
  assumes "server_ok s"
  shows "server_ok (fire_timer addr s)"
proof (cases "map_of (sv_cMap s) addr")
  case (Some p)
  then have ok: "conn_ok (p_conn p)" using assms map_of_SomeD server_ok_peer by metis
  then have "conn_ok ((p_conn p)\<lparr>c_sess := ackTimerFunc (c_sess (p_conn p))\<rparr>)"
    using reachable_send [of "c_sess (p_conn p)" OpTimeout] by (intro conn_ok_sess) (simp_all add: conn_ok_def)
  then have "server_ok (s\<lparr>sv_fs := sv_fs s, sv_cMap := AList.update addr
      (p\<lparr>p_conn := (p_conn p)\<lparr>c_sess := ackTimerFunc (c_sess (p_conn p))\<rparr>\<rparr>) (sv_cMap s)\<rparr>)"
    using assms by (intro server_ok_put) (simp_all add: server_ok_def)
  then show ?thesis using Some by (simp add: fire_timer_def)
qed (use assms in \<open>simp add: fire_timer_def\<close>)

lemma cleanup_loop_ok:
  assumes E: "E \<in> P"
  shows "cleanup_loop E ps s = Some s' \<Longrightarrow> server_ok s \<Longrightarrow> (\<forall>x \<in> set ps. conn_ok (p_conn (snd x))) \<Longrightarrow>
    server_ok s'"
proof (induction ps arbitrary: s)
  case (Cons x ps)
  obtain a p where x: "x = (a, p)" by fastforce
  show ?case
  proof (cases "sv_peerTimeout s \<le> env_now E - p_lastSeen p")
    case True
    then obtain fs c where c: "Connection_Close E (sv_fs s, p_conn p) = Some (fs, c)"
      using Cons.prems(1) by (auto simp: x split: option.splits)
    have "conn_ok (p_conn p)" using Cons.prems(3) by (simp add: x)
    then have "state_ok (sv_fs s, p_conn p)" using Cons.prems(2) by (simp add: state_ok_def server_ok_def)
    then have "inv fs" using Connection_Close_ok [OF E _ c] by (simp add: state_ok_def)
    then have "server_ok (s\<lparr>sv_fs := fs, sv_cMap := AList.delete a (sv_cMap s)\<rparr>)"
      using set_delete_sub [of a "sv_cMap s"] Cons.prems(2) by (fastforce intro!: server_okI dest: server_ok_peer)
    then show ?thesis using Cons.IH Cons.prems True c by (simp add: x)
  next
    case False
    then show ?thesis using Cons by (simp add: x)
  qed
qed auto

lemma server_step_ok: "server_step P s s' \<Longrightarrow> server_ok s \<Longrightarrow> server_ok s'"
proof (induction rule: server_step.induct)
  case (datagram E data addr s s')
  then show ?case using dataHandler_ok by blast
next
  case (timer s addr)
  then show ?case by (rule fire_timer_ok)
next
  case (tick E order s s')
  then show ?case using cleanup_loop_ok [of E "order (sv_cMap s)" s s'] server_ok_peer
    by (fastforce simp: cleanup_def)
qed

lemma server_reachable_ok: "server_reachable P s0 s \<Longrightarrow> server_ok s0 \<Longrightarrow> server_ok s"
  by (induction rule: server_reachable.induct) (auto intro: server_step_ok)

lemma server_ok_start: "inv (sv_fs s) \<Longrightarrow> sv_cMap s = [] \<Longrightarrow> server_ok s"
  by (simp add: server_ok_def)

end

section \<open>Properties of the edges\<close>

lemma foldl_trace:
  assumes "\<And>w p. \<exists>ok. trace (writeTo w p) = trace w @ [(p, ok)]"
  shows "\<exists>es. trace (foldl writeTo w ps) = trace w @ es \<and> map fst es = ps"
proof (induction ps arbitrary: w)
  case (Cons p ps)
  obtain ok where "trace (writeTo w p) = trace w @ [(p, ok)]" using assms by blast
  moreover obtain es where "trace (foldl writeTo (writeTo w p) ps) = trace (writeTo w p) @ es" "map fst es = ps"
    using Cons.IH by blast
  ultimately show ?case by (intro exI [of _ "(p, ok) # es"]) simp
qed simp

text \<open>C40: The batch writer offers every packet to the network exactly once and in order, and does not
  panic, whatever \<^verbatim>\<open>sendmmsg\<close> reports. The trace of the network lists the packets offered to it and
  whether they went out; a single write offers its packet and may fail, and a batch write offers
  the first \<open>n\<close> packets if it reports \<open>n\<close>, at most all of them and none if \<open>n\<close> is negative, all of
  which went out.\<close>

theorem batch_write_all:
  assumes single: "\<And>w p. \<exists>ok. trace (writeTo w p) = trace w @ [(p, ok)]"
    and batch: "\<And>w ps w' n err. writeBatch w ps = (w', n, err) \<Longrightarrow>
      n \<le> int (length ps) \<and> trace w' = trace w @ map (\<lambda>p. (p, True)) (take (nat n) ps)"
  shows "\<exists>w' es. batch_write writeTo writeBatch w packets = Some w' \<and>
    trace w' = trace w @ es \<and> map fst es = packets"
proof (cases "length packets \<le> 1")
  case True
  then show ?thesis using single [of w "packets ! 0"]
    by (cases packets) (auto simp: batch_write_def)
next
  case False
  obtain w' n err where wb: "writeBatch w packets = (w', n, err)" by (cases "writeBatch w packets") auto
  note law = batch [OF wb]
  let ?m = "if n < 0 then 0 else n" and ?sent = "map (\<lambda>p. (p, True)) (take (nat n) packets)"
  show ?thesis
  proof (cases "err \<or> n < int (length packets)")
    case fallback: True
    obtain es where es: "trace (foldl writeTo w' (drop (nat ?m) packets)) = trace w' @ es"
      "map fst es = drop (nat ?m) packets" using foldl_trace [of trace writeTo, OF single] by blast
    have "slice_from packets ?m = Some (drop (nat ?m) packets)" using law by (simp add: slice_from_def)
    then have "batch_write writeTo writeBatch w packets = Some (foldl writeTo w' (drop (nat ?m) packets))"
      using False fallback by (auto simp: batch_write_def wb Let_def)
    moreover have "map fst (?sent @ es) = packets" using es(2) by (simp add: comp_def split: if_splits)
    ultimately show ?thesis using es(1) law by (intro exI conjI) (assumption, simp, assumption)
  next
    case all_out: False
    then have "batch_write writeTo writeBatch w packets = Some w'"
      using False by (auto simp: batch_write_def wb)
    moreover have "n = int (length packets)" using all_out law by linarith
    ultimately show ?thesis using law by (intro exI [of _ w'] exI [of _ ?sent]) (simp add: comp_def)
  qed
qed

text \<open>A network that loses every packet that starts with 2, and a \<^verbatim>\<open>sendmmsg\<close> that fails.\<close>

definition lossy_write :: "(bytes \<times> bool) list \<Rightarrow> bytes \<Rightarrow> (bytes \<times> bool) list" where
  "lossy_write w p = w @ [(p, hd p \<noteq> 2)]"

definition failing_batch :: "(bytes \<times> bool) list \<Rightarrow> bytes list \<Rightarrow> (bytes \<times> bool) list \<times> int \<times> bool" where
  "failing_batch w ps = (w, - 1, True)"

theorem batch_write_all_witness:
  "(\<exists>w' es. batch_write lossy_write failing_batch [] [[1], [2], [3]] = Some w' \<and>
     id w' = id [] @ es \<and> map fst es = [[1], [2], [3]]) \<and>
   batch_write lossy_write failing_batch [] [[1], [2], [3]] = Some [([1], True), ([2], False), ([3], True)]"
proof
  show "\<exists>w' es. batch_write lossy_write failing_batch [] [[1], [2], [3]] = Some w' \<and>
     id w' = id [] @ es \<and> map fst es = [[1], [2], [3]]"
    by (rule batch_write_all) (auto simp: lossy_write_def failing_batch_def)
  show "batch_write lossy_write failing_batch [] [[1], [2], [3]] = Some [([1], True), ([2], False), ([3], True)]"
    by (simp add: batch_write_def slice_from_def lossy_write_def failing_batch_def)
qed

end
