(* ===== verification/UdpfsTotal.thy ===== *)
theory UdpfsTotal
  imports UdpfsServer
begin

text \<open>
  Which requests can bring the server down. The locale \<open>fs_total\<close> adds to the contract of the \<^verbatim>\<open>FS\<close>
  interface when its methods are sure to return; inside it, every handler is shown to return and to
  have sent its reply, unless the request is one of the few that the filesystem may panic on.
\<close>

section \<open>Requests\<close>

text \<open>
  A request is safe if the handle it names can be looked up (\<open>usable\<close>; \<open>valid\<close> where the code indexes
  the table without a check of its own) and what it wants to read fits the connection's buffer of
  128 KiB. The handlers drop requests that are too short before they get that far.
\<close>

definition handle_field :: "bytes \<Rightarrow> int" where
  "handle_field p = (case get32 4 p of None \<Rightarrow> 0 | Some h \<Rightarrow> sint h)"

definition safe_request :: "(int \<Rightarrow> bool) \<Rightarrow> (int \<Rightarrow> bool) \<Rightarrow> (int \<Rightarrow> u16 \<Rightarrow> bool) \<Rightarrow> bytes \<Rightarrow> bool" where
  "safe_request usable valid fits p =
     (p = [] \<or>
      (let t = hd p; h = handle_field p in
       if t = MsgCloseReq then length p < 8 \<or> h = BlockDeviceHandle \<or> valid h
       else if t = MsgDreadReq then length p < 8 \<or> valid h
       else if t = MsgReadReq then
         length p < 12 \<or> usable h \<and> (case get32 8 p of None \<Rightarrow> True | Some n \<Rightarrow> unat n \<le> 131072)
       else if t = MsgBreadReq then
         length p < 16 \<or> usable h \<and> (case get16 2 p of None \<Rightarrow> True | Some n \<Rightarrow> fits h n)
       else if t = MsgWriteReq then length p < 12 \<or> usable h
       else if t = MsgLseekReq \<or> t = MsgBwriteReq then length p < 16 \<or> usable h
       else True))"

lemma get16_Some: "i + 2 \<le> length p \<Longrightarrow> returns (get16 i p)"
  using Uint16_Some [of "take 2 (drop i p)"] by (auto simp: get16_def go_slice_def returns_def)

lemma get32_Some: "i + 4 \<le> length p \<Longrightarrow> returns (get32 i p)"
  using Uint32_Some [of "take 4 (drop i p)"] by (auto simp: get32_def go_slice_def returns_def)

section \<open>The contract\<close>

locale fs_total = fs_contract P inv writable valid
  for P :: "'f Env set" and inv :: "'f \<Rightarrow> bool" and writable :: "int \<Rightarrow> bool" and valid :: "int \<Rightarrow> bool" +
  fixes usable :: "int \<Rightarrow> bool"
    and fits :: "int \<Rightarrow> u16 \<Rightarrow> bool"
  assumes valid_usable: "valid h \<Longrightarrow> usable h"
    and writable_usable: "writable h \<Longrightarrow> usable h"
    and open_total: "E \<in> P \<Longrightarrow> inv f \<Longrightarrow> returns (fs_Open E p (udpfsFlagsToOSFlags fl) d f)"
    and close_total: "E \<in> P \<Longrightarrow> inv f \<Longrightarrow> valid h \<Longrightarrow> returns (fs_Close E h f)"
    and read_total: "E \<in> P \<Longrightarrow> inv f \<Longrightarrow> usable h \<Longrightarrow> unat sz \<le> 131072 \<Longrightarrow> returns (fs_Read E h sz f)"
    and write_start_total: "E \<in> P \<Longrightarrow> inv f \<Longrightarrow> usable h \<Longrightarrow> returns (fs_WriteStart E h f)"
    and write_chunk_total: "E \<in> P \<Longrightarrow> inv f \<Longrightarrow> usable h \<Longrightarrow> returns (fs_WriteChunk E h cnr csz tot b f)"
    and complete_total: "E \<in> P \<Longrightarrow> inv f \<Longrightarrow> usable h \<Longrightarrow> returns (fs_CompleteWrite E h f)"
    and lseek_total: "E \<in> P \<Longrightarrow> inv f \<Longrightarrow> usable h \<Longrightarrow> returns (fs_Lseek E h off wh f)"
    and dread_total: "E \<in> P \<Longrightarrow> inv f \<Longrightarrow> valid h \<Longrightarrow> returns (fs_Dread E h f)"
    and getstat_total: "E \<in> P \<Longrightarrow> inv f \<Longrightarrow> returns (fs_Getstat E p f)"
    and mkdir_total: "E \<in> P \<Longrightarrow> inv f \<Longrightarrow> returns (fs_Mkdir E p f)"
    and remove_total: "E \<in> P \<Longrightarrow> inv f \<Longrightarrow> returns (fs_Remove E p f)"
    and rmdir_total: "E \<in> P \<Longrightarrow> inv f \<Longrightarrow> returns (fs_Rmdir E p f)"
    and bread_total: "E \<in> P \<Longrightarrow> inv f \<Longrightarrow> usable h \<Longrightarrow> fits h n \<Longrightarrow> returns (fs_Bread E h nr n f)"
    and bwrite_start_total: "E \<in> P \<Longrightarrow> inv f \<Longrightarrow> usable h \<Longrightarrow> returns (fs_BwriteStart E h nr n f)"
begin

lemma session_total: "reachable s \<Longrightarrow> wf_op op \<Longrightarrow> \<exists>s'. run_op op s = Some s'"
  using run_op_ok [OF reachable_inv] by blast

lemma sent_data: "conn_ok c \<Longrightarrow> length p \<le> 1492 \<Longrightarrow> returns (Conn_SendData p c)"
  using session_total [of "c_sess c" "OpSendData (Some p)"] by (simp add: conn_ok_def returns_def Conn_SendData_def)

lemma sent_ACK: "conn_ok c \<Longrightarrow> returns (Conn_SendACK ack c)"
  using session_total [of "c_sess c" "OpSendACK ack"] by (simp add: conn_ok_def returns_def Conn_SendACK_def)

lemma sent_read: "conn_ok c \<Longrightarrow> returns (SendReadResult r b c)"
  using session_total [of "c_sess c" "OpSendRaw (PackResultReply r) (Some b)"]
  by (simp add: conn_ok_def returns_def SendReadResult_def)

lemma sent_replies:
  assumes "conn_ok c"
  shows "returns (SendWriteDone r c)" "returns (SendCloseReply r c)" "returns (SendLseekReply pos c)"
    "returns (SendResultReplyOnly r c)" "stat_ok st \<Longrightarrow> returns (SendOpenReply h st c)"
    "stat_ok st \<Longrightarrow> returns (SendGetstatReply r st c)"
    "stat_ok st \<Longrightarrow> length name \<le> 1439 \<Longrightarrow> returns (SendDreadReply r name st c)"
  using assms
  by (simp_all add: send_defs SendWriteDone_def sent_data conn_ok_clear dread_fits)

lemmas sent_intros = sent_ACK sent_read sent_replies

lemma returns_reply: "returns co \<Longrightarrow> returns (reply fs code co)"
  by (auto simp: returns_def reply_def)

lemmas reply_rules = returns_rules returns_reply

lemma field32: "\<not> length p < n \<Longrightarrow> i + 4 \<le> n \<Longrightarrow> returns (get32 i p)"
  by (rule get32_Some) simp

lemma field16: "\<not> length p < n \<Longrightarrow> i + 2 \<le> n \<Longrightarrow> returns (get16 i p)"
  by (rule get16_Some) simp

lemma handleOpen_total: "E \<in> P \<Longrightarrow> inv fs \<Longrightarrow> conn_ok c \<Longrightarrow> returns (handleOpen E payload (fs, c))"
  unfolding handleOpen_def split
  by (intro reply_rules; (intro sent_intros)?; (erule field16; simp)?;
      (blast intro: stat_ok_zero conn_ok_add open_total dest: open_inv lookup_if_ok leI)?)

lemma named_handle: "get32 4 p = Some x \<Longrightarrow> sint x = handle_field p"
  by (simp add: handle_field_def)

lemma handleClose_total:
  assumes "E \<in> P" "inv fs" "conn_ok c"
    and safe: "length payload < 8 \<or> handle_field payload = BlockDeviceHandle \<or> valid (handle_field payload)"
  shows "returns (handleClose E payload (fs, c))"
proof -
  have valid: "valid (sint x)"
    if "\<not> length payload < 8" "get32 4 payload = Some x" "sint x \<noteq> BlockDeviceHandle" for x
    using safe that named_handle by metis
  show ?thesis
    unfolding handleClose_def split
    by (insert assms(1-3); intro reply_rules; (intro sent_intros)?; (erule field32; simp)?;
        (blast intro: conn_ok_remove close_total valid)?)
qed

lemma handleRead_total:
  assumes "E \<in> P" "inv fs" "conn_ok c"
    and safe: "length payload < 12 \<or> usable (handle_field payload) \<and>
      (case get32 8 payload of None \<Rightarrow> True | Some n \<Rightarrow> unat n \<le> 131072)"
  shows "returns (handleRead E payload (fs, c))"
proof -
  have ok: "usable (sint x)" "unat n \<le> 131072"
    if "\<not> length payload < 12" "get32 4 payload = Some x" "get32 8 payload = Some n" for x n
    using safe that named_handle [OF that(2)] by simp_all
  show ?thesis
    unfolding handleRead_def split
    by (insert assms(1-3); intro reply_rules; (intro sent_intros)?; (erule field32; simp)?;
        (blast intro: ok read_total)?)
qed

lemma handle_chunk_total:
  assumes "E \<in> P" "inv fs" "conn_ok c" "writable h" and len: "\<not> length p < 8"
  shows "returns (handle_chunk E h p n (fs, c))"
  unfolding handle_chunk_def split
  by (insert assms(1-4); intro reply_rules; (intro sent_intros)?; (rule field16 [OF len]; simp)?;
      (blast intro: writable_usable write_chunk_total complete_total dest: write_chunk_inv complete_inv)?)

lemma handleWriteReq_total:
  assumes "E \<in> P" "inv fs" "conn_ok c" and safe: "length payload < 12 \<or> usable (handle_field payload)"
  shows "returns (handleWriteReq E payload (fs, c))"
proof -
  have ok: "usable (sint x)" if "\<not> length payload < 12" "get32 4 payload = Some x" for x
    using safe that named_handle by metis
  show ?thesis
    unfolding handleWriteReq_def split
    by (insert assms(1-3); intro reply_rules handle_chunk_total; (intro sent_intros)?; (erule field32; simp)?;
        (blast intro: ok conn_ok_set write_start_total dest: write_start_inv)?)
qed

lemma handleWriteData_total:
  assumes "E \<in> P" "inv fs" "conn_ok c"
  shows "returns (handleWriteData E payload (fs, c))"
proof -
  have w: "getWriteHandle c \<noteq> - 1 \<Longrightarrow> writable (getWriteHandle c)"
    using assms(3) by (simp add: conn_ok_def getWriteHandle_def)
  show ?thesis
    unfolding handleWriteData_def split
    by (insert assms; intro reply_rules handle_chunk_total; (intro sent_intros)?; (blast intro: w)?)
qed

lemma handleLseek_total:
  assumes "E \<in> P" "inv fs" "conn_ok c" and safe: "length payload < 16 \<or> usable (handle_field payload)"
  shows "returns (handleLseek E payload (fs, c))"
proof -
  have ok: "usable (sint x)" if "\<not> length payload < 16" "get32 4 payload = Some x" for x
    using safe that named_handle by metis
  show ?thesis
    unfolding handleLseek_def split
    by (insert assms(1-3); intro reply_rules; (intro sent_intros)?; (erule field32; simp)?;
        (blast intro: ok lseek_total)?)
qed

lemma handleDread_total:
  assumes "E \<in> P" "inv fs" "conn_ok c" and safe: "length payload < 8 \<or> valid (handle_field payload)"
  shows "returns (handleDread E payload (fs, c))"
proof -
  have ok: "valid (sint x)" if "\<not> length payload < 8" "get32 4 payload = Some x" for x
    using safe that named_handle by metis
  show ?thesis
    unfolding handleDread_def split
    by (insert assms(1-3); intro reply_rules; (intro sent_intros)?; (simp; fail)?; (erule field32; simp)?;
        (blast intro: ok dread_total dest: dread_inv)?)
qed

lemma handleGetstat_total:
  "E \<in> P \<Longrightarrow> inv fs \<Longrightarrow> conn_ok c \<Longrightarrow> returns (handleGetstat E payload (fs, c))"
  unfolding handleGetstat_def split
  by (intro reply_rules; (intro sent_intros)?; (simp; fail)?; (blast intro: getstat_total dest: getstat_inv)?)

lemma path_request_total:
  "(\<And>p. returns (method p fs)) \<Longrightarrow> conn_ok c \<Longrightarrow> returns (path_request method payload (fs, c))"
  unfolding path_request_def split
  by (intro reply_rules; (intro sent_intros)?; (blast)?)

lemma handleBread_total:
  assumes "E \<in> P" "inv fs" "conn_ok c"
    and safe: "length payload < 16 \<or> usable (handle_field payload) \<and>
      (case get16 2 payload of None \<Rightarrow> True | Some n \<Rightarrow> fits (handle_field payload) n)"
  shows "returns (handleBread E payload (fs, c))"
proof -
  have ok: "usable (sint x)" "fits (sint x) n"
    if "\<not> length payload < 16" "get32 4 payload = Some x" "get16 2 payload = Some n" for x n
    using safe that named_handle [OF that(2)] by simp_all
  show ?thesis
    unfolding handleBread_def split
    by (insert assms(1-3); intro reply_rules; (intro sent_intros)?; (erule field32; simp)?; (erule field16; simp)?;
        (blast intro: ok bread_total)?)
qed

lemma handleBwriteReq_total:
  assumes "E \<in> P" "inv fs" "conn_ok c" and safe: "length payload < 16 \<or> usable (handle_field payload)"
  shows "returns (handleBwriteReq E payload (fs, c))"
proof -
  have ok: "usable (sint x)" if "\<not> length payload < 16" "get32 4 payload = Some x" for x
    using safe that named_handle by metis
  show ?thesis
    unfolding handleBwriteReq_def split
    by (insert assms(1-3); intro reply_rules handle_chunk_total; (intro sent_intros)?; (erule field32; simp)?;
        (erule field16; simp)?; (blast intro: ok conn_ok_set bwrite_start_total dest: bwrite_start_inv)?)
qed

lemma handler_of_total:
  assumes "E \<in> P" "inv fs" "conn_ok c" "payload \<noteq> []" "safe_request usable valid fits payload"
    "handler_of E (hd payload) = Some handler"
  shows "returns (handler payload (fs, c))"
  using assms
  unfolding handler_of_def handleMkdir_def handleRemove_def handleRmdir_def safe_request_def Let_def
  by (auto intro!: handleOpen_total handleClose_total handleRead_total handleWriteReq_total handleWriteData_total
      handleLseek_total handleDread_total handleGetstat_total handleBread_total handleBwriteReq_total
      path_request_total mkdir_total remove_total rmdir_total split: if_splits)

text \<open>The dispatcher, a reset of the peer, the end of a connection, and the server's own steps.\<close>

lemma HandlePayload_total:
  assumes "E \<in> P" "state_ok st" "safe_request usable valid fits payload"
  shows "\<exists>st'. HandlePayload E payload st = Some st'"
proof -
  obtain fs c where st: "st = (fs, c)" by fastforce
  have ok: "inv fs" "conn_ok c" using assms(2) by (simp_all add: st state_ok_def)
  show ?thesis
  proof (cases "payload = [] \<or> handler_of E (hd payload) = None")
    case True
    then show ?thesis using sent_ACK [OF ok(2), of True] by (auto simp: st HandlePayload_def returns_def)
  next
    case False
    then obtain handler where "handler_of E (hd payload) = Some handler" by blast
    then show ?thesis using False handler_of_total [OF assms(1) ok _ assms(3)]
      by (auto simp: st HandlePayload_def returns_def)
  qed
qed

lemma reset_loop_total:
  assumes E: "E \<in> P"
  shows "inv fs \<Longrightarrow> \<forall>x \<in> set hs. valid (fst x) \<Longrightarrow> \<exists>st. reset_loop E hs (fs, c) = Some st"
proof (induction hs arbitrary: fs c)
  case (Cons x hs)
  obtain h ch where x: "x = (h, ch)" by fastforce
  have "usable h" using Cons.prems(2) valid_usable by (simp add: x)
  then obtain fs' pos e where "fs_Lseek E h 0 0 fs = Some (fs', pos, e)"
    using lseek_total [OF E Cons.prems(1), of h 0 0] by (auto simp: returns_def)
  then show ?case using Cons lseek_inv [OF E Cons.prems(1)] by (simp add: x)
qed simp

lemma ResetPeer_total: "E \<in> P \<Longrightarrow> state_ok st \<Longrightarrow> \<exists>st'. ResetPeer E st = Some st'"
  using reset_loop_total [of E] iter_set [of E]
  by (cases st) (auto simp: ResetPeer_def state_ok_def conn_ok_def)

lemma run_resets_total: "E \<in> P \<Longrightarrow> state_ok st \<Longrightarrow> \<exists>st'. run_resets E n st = Some st'"
proof (induction n arbitrary: st)
  case (Suc n)
  then obtain st1 where "ResetPeer E st = Some st1" using ResetPeer_total by blast
  then show ?case using Suc ResetPeer_ok by simp
qed simp

lemma close_loop_total:
  assumes E: "E \<in> P"
  shows "inv fs \<Longrightarrow> \<forall>x \<in> set hs. valid (fst x) \<Longrightarrow> \<exists>st. close_loop E hs (fs, c) = Some st"
proof (induction hs arbitrary: fs c)
  case (Cons x hs)
  obtain h ch where x: "x = (h, ch)" by fastforce
  then obtain fs' e where "fs_Close E h fs = Some (fs', e)"
    using close_total [OF E Cons.prems(1), of h] Cons.prems(2) by (auto simp: returns_def)
  then show ?case using Cons close_inv [OF E Cons.prems(1)] by (simp add: x)
qed simp

lemma Connection_Close_total:
  assumes "E \<in> P" "state_ok st"
  shows "\<exists>st'. Connection_Close E st = Some st'"
proof -
  obtain fs c where st: "st = (fs, c)" by fastforce
  have "\<forall>x \<in> set (env_iter E (c_usedHandles c)). valid (fst x)"
    using assms(2) iter_set [OF assms(1)] unfolding st state_ok_def conn_ok_def by simp
  then obtain fs' c' where "close_loop E (env_iter E (c_usedHandles c)) (fs, c) = Some (fs', c')"
    using close_loop_total [OF assms(1)] assms(2) unfolding st state_ok_def by fastforce
  then show ?thesis by (simp add: st Connection_Close_def)
qed

lemma process_packet_total:
  assumes E: "E \<in> P" and ok: "state_ok (fs, c)" and l: "6 \<le> length data"
    and safe: "\<And>sess payload. ProcessDataPacket (c_sess c) data = Some (sess, Inr (Some payload)) \<Longrightarrow>
      safe_request usable valid fits payload"
  shows "\<exists>st'. process_packet E data (fs, c) = Some st'"
proof -
  obtain sess r where s: "ProcessDataPacket (c_sess c) data = Some (sess, r)"
    using session_total [of "c_sess c" "OpPacket data"] ok l by (auto simp: state_ok_def conn_ok_def)
  have "reachable sess"
    using reachable_send [of "c_sess c" "OpPacket data" sess] ok l s by (simp add: state_ok_def conn_ok_def)
  then have ok1: "state_ok (fs, c\<lparr>c_sess := sess\<rparr>)" using ok by (simp add: state_ok_def conn_ok_sess)
  then obtain st1 where st1: "run_resets E (reset_calls (c_sess c) sess) (fs, c\<lparr>c_sess := sess\<rparr>) = Some st1"
    using run_resets_total [OF E] by blast
  then have "state_ok st1" using run_resets_ok [OF E ok1] by blast
  then show ?thesis using s st1 HandlePayload_total [OF E] safe
    by (auto simp: process_packet_def split: sum.split option.split)
qed

lemma dataHandler_total:
  assumes "E \<in> P" "server_ok s"
    and "\<And>sess payload. ProcessDataPacket (c_sess (p_conn (get_peer E addr s))) (take 2048 data) =
      Some (sess, Inr (Some payload)) \<Longrightarrow> safe_request usable valid fits payload"
  shows "\<exists>s'. dataHandler E data addr s = Some s'"
proof (cases "length (take 2048 data) < 6")
  case False
  have "state_ok (sv_fs s, p_conn (get_peer E addr s))"
    using get_peer_ok [OF assms(2)] assms(2) by (simp add: state_ok_def server_ok_def)
  then obtain fs c where "process_packet E (take 2048 data) (sv_fs s, p_conn (get_peer E addr s)) = Some (fs, c)"
    using process_packet_total [OF assms(1)] assms(3) False by fastforce
  then show ?thesis using False unfolding dataHandler_def handleData_def Let_def by simp
qed (simp only: dataHandler_def Let_def if_True; blast)

lemma cleanup_loop_total:
  assumes E: "E \<in> P"
  shows "server_ok s \<Longrightarrow> \<forall>x \<in> set ps. conn_ok (p_conn (snd x)) \<Longrightarrow> \<exists>s'. cleanup_loop E ps s = Some s'"
proof (induction ps arbitrary: s)
  case (Cons x ps)
  obtain a p where x: "x = (a, p)" by fastforce
  have ok: "state_ok (sv_fs s, p_conn p)" using Cons.prems by (simp add: x state_ok_def server_ok_def)
  then obtain fs c where c: "Connection_Close E (sv_fs s, p_conn p) = Some (fs, c)"
    using Connection_Close_total [OF E] by fastforce
  have "server_ok (s\<lparr>sv_fs := fs, sv_cMap := AList.delete a (sv_cMap s)\<rparr>)"
    using Connection_Close_ok [OF E ok c] set_delete_sub [of a "sv_cMap s"] Cons.prems(1)
    by (fastforce intro!: server_okI dest: server_ok_peer simp: state_ok_def)
  then show ?case using Cons c by (simp add: x)
qed simp

end

end
