(* ===== verification/UdpfsLog.thy ===== *)
theory UdpfsLog
  imports UdpfsTotal
begin

text \<open>
  The log of verbose mode (\<^verbatim>\<open>logPayload\<close> in \<^verbatim>\<open>udpfs/utils.go\<close>). It decodes a request a second time, byte by
  byte; the lines are modelled as data, before they are formatted.
\<close>

section \<open>Lines\<close>

datatype log_line =
    LogOpen bool string | LogClose int | LogRead int u32 | LogWrite int u32 | LogWriteData int int int
  | LogWriteDone int | LogLseek int | LogDread int | LogGetstat string | LogMkdir string | LogRemove string
  | LogRmdir string | LogBread int int u16 | LogBwrite int int u16

section \<open>Decoding\<close>

text \<open>\<^verbatim>\<open>uint32(payload[i]) | uint32(payload[i+1])<<8 | ...\<close>, and the same of two bytes.\<close>

definition shift32 :: "bytes \<Rightarrow> nat \<Rightarrow> u32" where
  "shift32 p i = ucast (p ! i) OR push_bit 8 (ucast (p ! (i + 1))) OR push_bit 16 (ucast (p ! (i + 2))) OR
     push_bit 24 (ucast (p ! (i + 3)))"

definition shift16 :: "bytes \<Rightarrow> nat \<Rightarrow> u32" where
  "shift16 p i = ucast (p ! i) OR push_bit 8 (ucast (p ! (i + 1)))"

definition shift16u :: "bytes \<Rightarrow> nat \<Rightarrow> u16" where
  "shift16u p i = ucast (p ! i) OR push_bit 8 (ucast (p ! (i + 1)))"

text \<open>The loop that looks for the end of the path at offset \<open>k\<close>.\<close>

function path_end :: "nat \<Rightarrow> bytes \<Rightarrow> nat \<Rightarrow> nat" where
  "path_end k p n = (if int n < int (length p) - int k \<and> p ! (k + n) \<noteq> 0 then path_end k p (Suc n) else n)"
  by auto
termination
  by (relation "measure (\<lambda>(k, p, n). length p - k - n)") auto

declare path_end.simps [simp del]

text \<open>
  \<^verbatim>\<open>string(payload[k : k+pathEnd])\<close>: a slice may reach beyond the length of the payload, up to the capacity of the
  buffer behind it, but here it ends at the payload's end or is empty.
\<close>

definition log_path :: "nat \<Rightarrow> nat \<Rightarrow> bytes \<Rightarrow> string option" where
  "log_path cap k p =
     (let e = path_end k p 0 in if k + e \<le> cap then Some (bytes_string (take e (drop k p))) else None)"

definition log_if :: "nat \<Rightarrow> bytes \<Rightarrow> log_line \<Rightarrow> log_line option option" where
  "log_if n p l = Some (if n \<le> length p then Some l else None)"

text \<open>\<^term>\<open>None\<close> is a panic, \<^term>\<open>Some None\<close> no line. The address and the status are printed in every line.\<close>

definition logPayload :: "nat \<Rightarrow> MsgType \<Rightarrow> bytes \<Rightarrow> log_line option option" where
  "logPayload cap msgType p =
     (if msgType = MsgOpenReq then
        (case log_path cap 8 p of None \<Rightarrow> None
         | Some path \<Rightarrow> Some (Some (LogOpen (1 < length p \<and> p ! 1 \<noteq> 0) path)))
      else if msgType = MsgCloseReq then log_if 8 p (LogClose (sint (shift32 p 4)))
      else if msgType = MsgReadReq then log_if 12 p (LogRead (sint (shift32 p 4)) (shift32 p 8))
      else if msgType = MsgWriteReq then log_if 12 p (LogWrite (sint (shift32 p 4)) (shift32 p 8))
      else if msgType = MsgWriteData then
        log_if 8 p (LogWriteData (sint (shift16 p 2)) (sint (shift16 p 4)) (sint (shift16 p 6)))
      else if msgType = MsgWriteDone then log_if 8 p (LogWriteDone (sint (shift32 p 4)))
      else if msgType = MsgLseekReq then log_if 16 p (LogLseek (sint (shift32 p 4)))
      else if msgType = MsgDreadReq then log_if 8 p (LogDread (sint (shift32 p 4)))
      else if msgType = MsgGetstatReq then map_option (\<lambda>path. Some (LogGetstat path)) (log_path cap 4 p)
      else if msgType = MsgMkdirReq then map_option (\<lambda>path. Some (LogMkdir path)) (log_path cap 4 p)
      else if msgType = MsgRemoveReq then map_option (\<lambda>path. Some (LogRemove path)) (log_path cap 4 p)
      else if msgType = MsgRmdirReq then map_option (\<lambda>path. Some (LogRmdir path)) (log_path cap 4 p)
      else if msgType = MsgBreadReq then
        (if length p < 16 then Some None
         else do {
           lo \<leftarrow> get32 8 p;
           hi \<leftarrow> get32 12 p;
           Some (Some (LogBread (sint (shift32 p 4)) (join64 lo hi) (shift16u p 2)))
         })
      else if msgType = MsgBwriteReq then
        (if length p < 16 then Some None
         else do {
           lo \<leftarrow> get32 8 p;
           hi \<leftarrow> get32 12 p;
           Some (Some (LogBwrite (sint (shift32 p 4)) (join64 lo hi) (shift16u p 2)))
         })
      else Some None)"

section \<open>The log agrees with the handlers\<close>

lemma take_drop_nth: "i + n \<le> length p \<Longrightarrow> take n (drop i p) = map (\<lambda>j. p ! (i + j)) [0..<n]"
  by (rule nth_equalityI) simp_all

lemma get32_shift: "i + 4 \<le> length p \<Longrightarrow> get32 i p = Some (shift32 p i)"
  by (simp add: get32_def go_slice_def take_drop_nth shift32_def upt_rec numeral_3_eq_3)

lemma get16_shift: "i + 2 \<le> length p \<Longrightarrow> get16 i p = Some (shift16u p i)"
  by (simp add: get16_def go_slice_def take_drop_nth shift16u_def upt_rec)

lemma get_shift:
  "get32 i p = (if i + 4 \<le> length p then Some (shift32 p i) else None)"
  "get16 i p = (if i + 2 \<le> length p then Some (shift16u p i) else None)"
  by (simp_all add: get32_shift get16_shift) (simp_all add: get32_def get16_def go_slice_def)

lemma handle_shift: "8 \<le> length p \<Longrightarrow> handle_field p = sint (shift32 p 4)"
  by (simp add: handle_field_def get32_shift)

lemma sint_shift16: "sint (shift16 p i) = uint (shift16u p i)"
proof -
  have "shift16 p i = ucast (shift16u p i)"
    unfolding shift16_def shift16u_def by (rule bit_word_eqI) (auto simp: bit_simps dest: bit_imp_le_length)
  moreover have "sint (ucast x :: u32) = uint (x :: u16)" for x
  proof -
    have "signed_take_bit 31 (uint x) = uint x"
      using uint_lt2p [of x] order_trans [OF _ uint_ge_0, of "- (2 ^ 31)" x] by (intro signed_take_bit_int_eq_self) simp_all
    moreover have "take_bit 32 (uint x) = uint x" using uint_lt2p [of x] by (intro take_bit_int_eq_self) simp_all
    ultimately show ?thesis by (simp add: sint_uint unsigned_ucast_eq)
  qed
  ultimately show ?thesis by simp
qed

lemma path_end_scan: "k + n \<le> length p \<Longrightarrow> path_end k p n = n + length (takeWhile (\<lambda>b. b \<noteq> 0) (drop (k + n) p))"
proof (induction k p n rule: path_end.induct)
  case (1 k p n)
  show ?case
  proof (cases "k + n < length p \<and> p ! (k + n) \<noteq> 0")
    case True
    then have "drop (k + n) p = p ! (k + n) # drop (k + Suc n) p" by (simp add: Cons_nth_drop_Suc)
    then show ?thesis using 1 True by (subst path_end.simps) auto
  next
    case False
    then have "takeWhile (\<lambda>b. b \<noteq> 0) (drop (k + n) p) = []"
      using "1.prems" by (cases "k + n < length p") (auto simp: Cons_nth_drop_Suc [symmetric])
    then show ?thesis using False by (subst path_end.simps) auto
  qed
qed

lemma log_path_at:
  assumes "k \<le> cap" "length p \<le> cap"
  shows "log_path cap k p = Some (path_at k p)"
proof (cases "k \<le> length p")
  case True
  let ?t = "takeWhile (\<lambda>b. b \<noteq> 0) (drop k p)"
  have e: "path_end k p 0 = length ?t" using path_end_scan [of k 0 p] True by simp
  have "length ?t \<le> length p - k" using length_takeWhile_le [of "\<lambda>b. b \<noteq> 0" "drop k p"] by simp
  moreover have "take (length ?t) (drop k p) = ?t" by (rule takeWhile_eq_take [symmetric])
  ultimately show ?thesis using assms True by (simp add: log_path_def e path_at_def Let_def)
next
  case False
  then have "path_end k p 0 = 0" by (subst path_end.simps) simp
  then show ?thesis using assms False by (simp add: log_path_def path_at_def)
qed

text \<open>What the line should say: the fields as the handlers read them.\<close>

definition log_spec :: "MsgType \<Rightarrow> bytes \<Rightarrow> log_line option" where
  "log_spec t p =
     (if t = MsgOpenReq then Some (LogOpen (1 < length p \<and> p ! 1 \<noteq> 0) (path_at 8 p))
      else if t = MsgCloseReq then map_option (\<lambda>h. LogClose (sint h)) (get32 4 p)
      else if t = MsgReadReq then map_option (LogRead (handle_field p)) (get32 8 p)
      else if t = MsgWriteReq then map_option (LogWrite (handle_field p)) (get32 8 p)
      else if t = MsgWriteData then do {
        k \<leftarrow> get16 2 p;
        sz \<leftarrow> get16 4 p;
        n \<leftarrow> get16 6 p;
        Some (LogWriteData (uint k) (uint sz) (uint n))
      }
      else if t = MsgWriteDone then map_option (\<lambda>r. LogWriteDone (sint r)) (get32 4 p)
      else if t = MsgLseekReq then map_option (\<lambda>_. LogLseek (handle_field p)) (get32 12 p)
      else if t = MsgDreadReq then map_option (\<lambda>h. LogDread (sint h)) (get32 4 p)
      else if t = MsgGetstatReq then Some (LogGetstat (path_at 4 p))
      else if t = MsgMkdirReq then Some (LogMkdir (path_at 4 p))
      else if t = MsgRemoveReq then Some (LogRemove (path_at 4 p))
      else if t = MsgRmdirReq then Some (LogRmdir (path_at 4 p))
      else if t = MsgBreadReq then do {
        n \<leftarrow> get16 2 p;
        lo \<leftarrow> get32 8 p;
        hi \<leftarrow> get32 12 p;
        Some (LogBread (handle_field p) (join64 lo hi) n)
      }
      else if t = MsgBwriteReq then do {
        n \<leftarrow> get16 2 p;
        lo \<leftarrow> get32 8 p;
        hi \<leftarrow> get32 12 p;
        Some (LogBwrite (handle_field p) (join64 lo hi) n)
      }
      else None)"



end
