(* ===== verification/FsPath.thy ===== *)
theory FsPath
  imports GoPath
begin

text \<open>
  From the path a client sends to a path of the host (\<^verbatim>\<open>resolvePath\<close> of \<^verbatim>\<open>internal/fs/utils.go\<close>), and
  the proof that no client path leads out of the served directory.
\<close>

section \<open>Resolving\<close>

text \<open>\<^verbatim>\<open>filepath.Abs\<close>, given what \<^verbatim>\<open>os.Getwd\<close> returns.\<close>

definition Abs :: "go_error + string \<Rightarrow> string \<Rightarrow> go_error + string" where
  "Abs wd p =
     (if IsAbs p then Inr (Clean p) else case wd of Inl e \<Rightarrow> Inl e | Inr d \<Rightarrow> Inr (Join d p))"

definition resolvePath :: "string \<Rightarrow> go_error + string \<Rightarrow> string \<Rightarrow> string option" where
  "resolvePath fsRoot wd clientPath =
     (if fsRoot = [] then None
      else
        let clientPath = TrimLeft clientPath [CHR ''/'', CHR 0x5C];
            clientPath = Clean (ReplaceChar clientPath (CHR 0x5C) sep);
            joined = Join fsRoot clientPath
        in case Abs wd joined of
             Inl _ \<Rightarrow> None
           | Inr resolved \<Rightarrow>
               let cleanFsRoot = Clean fsRoot;
                   comparableRoot = TrimSuffix cleanFsRoot [sep]
               in if \<not> HasPrefix resolved (comparableRoot @ [sep]) \<and> resolved \<noteq> cleanFsRoot
                  then None else Some resolved)"

section \<open>Clean paths\<close>

text \<open>A proper name of a file: not empty, no separator, and none of the two relative names.\<close>

definition name_ok :: "string \<Rightarrow> bool" where
  "name_ok x \<longleftrightarrow> x \<noteq> [] \<and> x \<noteq> ''.'' \<and> x \<noteq> ''..'' \<and> sep \<notin> set x"

definition path_of :: "string list \<Rightarrow> string" where
  "path_of xs = sep # join_path xs"

definition comps :: "string \<Rightarrow> string list" where
  "comps p = clean_comps True (split_path p)"

lemma fold_clean_names:
  "\<forall>x \<in> set stack. name_ok x \<Longrightarrow> \<forall>x \<in> set xs. sep \<notin> set x \<Longrightarrow>
   \<forall>x \<in> set (fold (clean_step True) xs stack). name_ok x"
proof (induction xs arbitrary: stack)
  case (Cons x xs)
  have "\<forall>y \<in> set (clean_step True x stack). name_ok y"
    using Cons.prems by (auto simp: clean_step_def name_ok_def split: list.splits if_splits)
  then show ?case using Cons by simp
qed simp

lemma comps_names: "x \<in> set (comps p) \<Longrightarrow> name_ok x"
  using fold_clean_names [of "[]" "split_path p"] split_path_no_sep
  by (auto simp: comps_def clean_comps_def)

lemma Clean_abs: "IsAbs p \<Longrightarrow> Clean p = path_of (comps p)"
  by (auto simp: Clean_def path_of_def comps_def IsAbs_def)

lemma IsAbs_path_of [simp]: "IsAbs (path_of xs)"
  by (simp add: IsAbs_def path_of_def)

lemma IsAbs_append: "IsAbs p \<Longrightarrow> IsAbs (p @ q)"
  by (cases p) (simp_all add: IsAbs_def)

lemma fold_clean_names_id:
  "\<forall>x \<in> set xs. name_ok x \<Longrightarrow> fold (clean_step r) xs stack = rev xs @ stack"
  by (induction xs arbitrary: stack) (auto simp: clean_step_def name_ok_def)

lemma clean_comps_id: "\<forall>x \<in> set xs. name_ok x \<Longrightarrow> clean_comps r xs = xs"
  by (simp add: clean_comps_def fold_clean_names_id)

lemma split_path_sep: "split_path (sep # s) = [] # split_path s"
  by (cases "split_path s") simp_all

lemma split_path_of:
  assumes "\<forall>x \<in> set xs. name_ok x"
  shows "split_path (path_of xs) = [] # (if xs = [] then [[]] else xs)"
proof (cases "xs = []")
  case False
  then have "split_path (join_path xs) = xs" using assms by (intro split_join) (auto simp: name_ok_def)
  then show ?thesis using False by (simp only: path_of_def split_path_sep if_False)
qed (simp add: path_of_def)

lemma comps_path_of [simp]: "\<forall>x \<in> set xs. name_ok x \<Longrightarrow> comps (path_of xs) = xs"
  using clean_comps_id [of xs True]
  by (simp add: comps_def split_path_of clean_comps_def clean_step_def)

lemma path_of_inj:
  "\<forall>x \<in> set xs. name_ok x \<Longrightarrow> \<forall>x \<in> set ys. name_ok x \<Longrightarrow> path_of xs = path_of ys \<Longrightarrow> xs = ys"
  by (metis comps_path_of)

lemma join_path_last:
  "xs \<noteq> [] \<Longrightarrow> \<forall>x \<in> set xs. name_ok x \<Longrightarrow> join_path xs \<noteq> [] \<and> last (join_path xs) \<noteq> sep"
proof (induction xs rule: join_path.induct)
  case (2 x)
  then show ?case by (metis join_path.simps(2) last_in_set list.set_intros(1) name_ok_def)
next
  case (3 x y ys)
  then show ?case by simp
qed simp

lemma HasSuffix_single: "HasSuffix s [c] \<longleftrightarrow> s \<noteq> [] \<and> last s = c"
  by (cases s rule: rev_cases) (simp_all add: HasSuffix_def)

lemma comparable_root:
  assumes "\<forall>x \<in> set xs. name_ok x"
  shows "TrimSuffix (path_of xs) [sep] = (if xs = [] then [] else path_of xs)"
proof (cases "xs = []")
  case False
  have "last (path_of xs) \<noteq> sep"
    using join_path_last [OF False assms] by (simp add: path_of_def)
  then have "\<not> HasSuffix (path_of xs) [sep]"
    by (simp add: HasSuffix_single)
  then show ?thesis using False by (simp add: TrimSuffix_def)
qed (simp add: path_of_def TrimSuffix_def HasSuffix_def)

lemma path_of_prefix:
  assumes "\<forall>x \<in> set xs. name_ok x" "\<forall>x \<in> set ys. name_ok x"
  shows "HasPrefix (path_of ys) (TrimSuffix (path_of xs) [sep] @ [sep]) \<or> path_of ys = path_of xs \<longleftrightarrow>
    prefix xs ys" (is "?l \<longleftrightarrow> _")
proof
  assume ?l
  then consider "path_of ys = path_of xs" | "xs = []"
    | "xs \<noteq> []" "HasPrefix (path_of ys) (path_of xs @ [sep])"
    using comparable_root [OF assms(1)] by (auto split: if_splits)
  then show "prefix xs ys"
  proof cases
    case 3
    then obtain q where "path_of ys = path_of xs @ sep # q"
      unfolding HasPrefix_def by (metis append.assoc append_Cons append_Nil append_take_drop_id)
    then have "split_path (path_of ys) = [] # xs @ split_path q"
      using 3(1) assms(1) by (simp add: split_path_append_sep split_path_of)
    then show ?thesis using assms(2) 3(1) by (auto simp: split_path_of Cons_eq_append_conv split: if_splits)
  qed (use path_of_inj [OF assms(2,1)] in auto)
next
  assume "prefix xs ys"
  then obtain zs where ys: "ys = xs @ zs" by (auto simp: prefix_def)
  show ?l
  proof (cases "xs = [] \<or> zs = []")
    case True
    then show ?thesis by (auto simp: ys comparable_root path_of_def TrimSuffix_def HasSuffix_def HasPrefix_def)
  next
    case False
    have "join_path (xs @ zs) = join_path xs @ [sep] @ join_path zs"
      using False
    proof (induction xs rule: join_path.induct)
      case (2 x)
      then show ?case by (cases zs) simp_all
    qed simp_all
    then show ?thesis using False comparable_root [OF assms(1)] by (simp add: ys path_of_def HasPrefix_def)
  qed
qed

section \<open>Confinement\<close>

lemma Join_abs: "IsAbs root \<Longrightarrow> Join root p = path_of (comps (root @ [sep] @ p))"
  by (cases root) (simp_all add: Join_def Clean_abs IsAbs_def)

text \<open>The result in terms of components: it is kept exactly when the root's come first.\<close>

lemma resolvePath_abs:
  assumes "IsAbs root"
  shows "resolvePath root wd p =
    (let q = Clean (ReplaceChar (TrimLeft p [CHR ''/'', CHR 0x5C]) (CHR 0x5C) sep);
         cs = comps (root @ [sep] @ q)
     in if prefix (comps root) cs then Some (path_of cs) else None)"
proof -
  have ne: "root \<noteq> []" using assms by (simp add: IsAbs_def)
  have n: "\<forall>x \<in> set (comps q). name_ok x" for q using comps_names by blast
  show ?thesis
    unfolding resolvePath_def Let_def Join_abs [OF assms] Abs_def Clean_abs [OF assms]
    using path_of_prefix [OF n n] ne by (auto simp: Clean_abs n)
qed

lemma resolvePath_names:
  assumes "IsAbs root" "resolvePath root wd p = Some q"
  shows "\<exists>names. q = path_of (comps root @ names) \<and> (\<forall>x \<in> set (comps root @ names). name_ok x)"
proof -
  obtain cs where "prefix (comps root) cs" "q = path_of cs" "\<forall>x \<in> set cs. name_ok x"
    using assms comps_names unfolding resolvePath_abs [OF assms(1)] Let_def by (auto split: if_splits)
  then show ?thesis by (auto simp: prefix_def)
qed

text \<open>C23: No client path leads out of the served directory. Whatever bytes a client sends as a path,
  the host path it resolves to starts with the components of the root and has no component
  \<^verbatim>\<open>..\<close>, \<^verbatim>\<open>.\<close> or empty one; the result does not depend on the working directory.\<close>

theorem resolvePath_confined:
  assumes "IsAbs root" "resolvePath root wd p = Some q"
  shows "\<exists>names. q = path_of (comps root @ names) \<and> (\<forall>x \<in> set (comps root @ names). name_ok x)"
  using assms by (rule resolvePath_names)

theorem resolvePath_confined_witness:
  "resolvePath ''/srv/ps2'' (Inl PathError) ''../ps2/games'' = Some ''/srv/ps2/games'' \<and>
   (\<exists>names. ''/srv/ps2/games'' = path_of (comps ''/srv/ps2'' @ names) \<and>
     (\<forall>x \<in> set (comps ''/srv/ps2'' @ names). name_ok x)) \<and>
   resolvePath ''/srv/ps2'' (Inl PathError) ''../../etc/passwd'' = None"
proof -
  have "resolvePath ''/srv/ps2'' (Inl PathError) ''../ps2/games'' = Some ''/srv/ps2/games''" by code_simp
  moreover have "resolvePath ''/srv/ps2'' (Inl PathError) ''../../etc/passwd'' = None" by code_simp
  moreover have "IsAbs ''/srv/ps2''" by code_simp
  ultimately show ?thesis using resolvePath_confined by blast
qed

text \<open>
  The other direction: every path of proper names below the root can be reached, with either
  separator, any number of them, and \<^verbatim>\<open>.\<close> in between.
\<close>

lemma fold_clean_skip:
  "fold (clean_step r) xs stack = fold (clean_step r) (filter (\<lambda>x. x \<noteq> [] \<and> x \<noteq> ''.'') xs) stack"
  by (induction xs arbitrary: stack) (auto simp: clean_step_def)

lemma clean_comps_filter:
  assumes "\<forall>x \<in> set xs. x \<noteq> ''..'' \<and> sep \<notin> set x"
  shows "clean_comps r xs = filter (\<lambda>x. x \<noteq> [] \<and> x \<noteq> ''.'') xs"
  unfolding clean_comps_def
  by (subst fold_clean_skip, subst fold_clean_names_id) (use assms in \<open>auto simp: name_ok_def\<close>)

lemma comps_append:
  assumes "\<forall>x \<in> set (split_path q). x \<noteq> ''..''"
  shows "comps (p @ [sep] @ q) = comps p @ filter (\<lambda>x. x \<noteq> [] \<and> x \<noteq> ''.'') (split_path q)"
proof -
  have "fold (clean_step True) (split_path q) st = rev (filter (\<lambda>x. x \<noteq> [] \<and> x \<noteq> ''.'') (split_path q)) @ st" for st
    by (subst fold_clean_skip, subst fold_clean_names_id)
      (use assms split_path_no_sep in \<open>auto simp: name_ok_def\<close>)
  then show ?thesis by (simp add: comps_def clean_comps_def split_path_append_sep)
qed

text \<open>C22: Every file below the root can be named. A client path whose components, split at slashes
  or backslashes, do not include \<^verbatim>\<open>..\<close> resolves to the root followed by its components, with empty
  components and \<^verbatim>\<open>.\<close> dropped.\<close>

theorem resolvePath_complete:
  assumes "IsAbs root"
    and "\<forall>x \<in> set (split_path (ReplaceChar (TrimLeft p [CHR ''/'', CHR 0x5C]) (CHR 0x5C) sep)). x \<noteq> ''..''"
  shows "resolvePath root wd p = Some (path_of (comps root @
     filter (\<lambda>x. x \<noteq> [] \<and> x \<noteq> ''.'') (split_path (ReplaceChar (TrimLeft p [CHR ''/'', CHR 0x5C]) (CHR 0x5C) sep))))"
proof -
  let ?r = "ReplaceChar (TrimLeft p [CHR ''/'', CHR 0x5C]) (CHR 0x5C) sep"
  let ?f = "filter (\<lambda>x. x \<noteq> [] \<and> x \<noteq> ''.'')"
  have noabs: "\<not> IsAbs ?r"
  proof
    assume "IsAbs ?r"
    then obtain c cs where c: "TrimLeft p [CHR ''/'', CHR 0x5C] = c # cs" "(if c = CHR 0x5C then sep else c) = sep"
      by (cases "TrimLeft p [CHR ''/'', CHR 0x5C]") (auto simp: IsAbs_def ReplaceChar_def)
    then have "c \<notin> {CHR ''/'', CHR 0x5C}"
      using hd_dropWhile [of "\<lambda>c. c \<in> {CHR ''/'', CHR 0x5C}" p] by (simp add: TrimLeft_def)
    then show False using c(2) by (auto simp: sep_def split: if_splits)
  qed
  have cl: "clean_comps False (split_path ?r) = ?f (split_path ?r)"
    using assms(2) split_path_no_sep by (intro clean_comps_filter) auto
  have "split_path (Clean ?r) = (if ?f (split_path ?r) = [] then [''.''] else ?f (split_path ?r))"
  proof (cases "?f (split_path ?r) = []")
    case True
    then have "Clean ?r = ''.''" using noabs cl by (simp add: Clean_def Let_def)
    then show ?thesis using True by (simp add: split_path_single sep_def)
  next
    case False
    then have "?r \<noteq> []" by auto
    then have "Clean ?r = join_path (?f (split_path ?r))" using noabs cl False by (simp add: Clean_def Let_def)
    moreover have "split_path (join_path (?f (split_path ?r))) = ?f (split_path ?r)"
      using False split_path_no_sep by (intro split_join) auto
    ultimately show ?thesis using False by simp
  qed
  then have "comps (root @ [sep] @ Clean ?r) = comps root @ ?f (split_path ?r)"
    using assms(2) by (subst comps_append) (auto simp: filter_id_conv)
  then show ?thesis unfolding resolvePath_abs [OF assms(1)] Let_def by simp
qed

theorem resolvePath_complete_witness:
  "resolvePath ''/srv/ps2/'' (Inl PathError) (CHR 0x5C # ''DVD'' @ [CHR 0x5C] @ ''./GAME.ISO'') =
     Some ''/srv/ps2/DVD/GAME.ISO''"
proof -
  let ?p = "CHR 0x5C # ''DVD'' @ [CHR 0x5C] @ ''./GAME.ISO''"
  have "split_path (ReplaceChar (TrimLeft ?p [CHR ''/'', CHR 0x5C]) (CHR 0x5C) sep) = [''DVD'', ''.'', ''GAME.ISO'']"
    by code_simp
  moreover have "path_of (comps ''/srv/ps2/'' @ filter (\<lambda>x. x \<noteq> [] \<and> x \<noteq> ''.'') [''DVD'', ''.'', ''GAME.ISO'']) =
      ''/srv/ps2/DVD/GAME.ISO''" by code_simp
  moreover have "IsAbs ''/srv/ps2/''" by code_simp
  ultimately show ?thesis using resolvePath_complete [of "''/srv/ps2/''" ?p "Inl PathError"] by simp
qed

end
