(* ===== verification/FsHandles.thy ===== *)
theory FsHandles
  imports Compression UdpfsWire FsPath
begin

text \<open>
  The filesystem backend and its handle table (\<^verbatim>\<open>internal/fs/backend.go\<close>, \<^verbatim>\<open>handles.go\<close> and
  \<^verbatim>\<open>interfaces/interface.go\<close>).

  \<^item> The operating system is a parameter: a record of the functions of package \<^verbatim>\<open>os\<close> the program
    calls, on a world of any type. Every call is also appended to a log, so that properties can
    speak of the calls an operation makes.
  \<^item> Handles are objects that only the table refers to, so they are values in the table; an
    operation that changes one writes it back.
  \<^item> The clock is an argument: it reads the same, in nanoseconds, for the whole of an operation.
  \<^item> The mutexes are left out: one operation runs at a time.
\<close>

section \<open>The operating system\<close>

datatype os_call =
    CStat string | CReadDir string | CEntryInfo string string | COpenFile string int
  | CMkdirAll string | CMkdir string | CRemove string
  | CRead nat nat | CWrite nat bytes | CSeek nat int int | CFStat nat | CClose nat
  | CSnapshot string

text \<open>
  \<open>OS_Read\<close> returns the bytes read. \<open>OS_Snapshot\<close> is the contents of a file that is opened to be
  decompressed; such a file does not change while it is open.
\<close>

record 'w OS =
  lib :: codecs
  OS_Getwd :: "'w \<Rightarrow> go_error + string"
  OS_Stat :: "string \<Rightarrow> 'w \<Rightarrow> 'w \<times> (go_error + FileInfo)"
  OS_ReadDir :: "string \<Rightarrow> 'w \<Rightarrow> 'w \<times> (go_error + string list)"
  OS_EntryInfo :: "string \<Rightarrow> string \<Rightarrow> 'w \<Rightarrow> 'w \<times> (go_error + FileInfo)"
  OS_OpenFile :: "string \<Rightarrow> int \<Rightarrow> 'w \<Rightarrow> 'w \<times> (go_error + nat)"
  OS_MkdirAll :: "string \<Rightarrow> 'w \<Rightarrow> 'w \<times> go_error option"
  OS_Mkdir :: "string \<Rightarrow> 'w \<Rightarrow> 'w \<times> go_error option"
  OS_Remove :: "string \<Rightarrow> 'w \<Rightarrow> 'w \<times> go_error option"
  OS_Read :: "nat \<Rightarrow> nat \<Rightarrow> 'w \<Rightarrow> 'w \<times> bytes \<times> go_error option"
  OS_Write :: "nat \<Rightarrow> bytes \<Rightarrow> 'w \<Rightarrow> 'w \<times> int \<times> go_error option"
  OS_Seek :: "nat \<Rightarrow> int \<Rightarrow> int \<Rightarrow> 'w \<Rightarrow> 'w \<times> int \<times> go_error option"
  OS_FStat :: "nat \<Rightarrow> 'w \<Rightarrow> 'w \<times> (go_error + FileInfo)"
  OS_Close :: "nat \<Rightarrow> 'w \<Rightarrow> 'w \<times> unit"
  OS_Snapshot :: "string \<Rightarrow> 'w \<Rightarrow> 'w \<times> (go_error + os_file)"

section \<open>State\<close>

text \<open>An open file: one of the operating system, with the path it was opened with, or a compressed image.\<close>

datatype FileObject = OsFile nat string | ImageFile compressed_file

record writeState =
  wr_dataBuffer :: bytes
  wr_sectorNumber :: int
  wr_sectorCount :: u16
  wr_totalChunks :: u16
  wr_receivedChunks :: u16
  wr_blockWrite :: bool

record fileHandle =
  fh_obj :: FileObject
  fh_wr :: writeState
  fh_readOnly :: bool

record dirHandle =
  dh_dirPath :: string
  dh_entries :: "string list"
  dh_index :: nat

datatype fs_handle = HFile fileHandle | HDir dirHandle

record blockDeviceHandle =
  bd_fileHandle :: fileHandle
  bd_totalSectorCount :: int

record 'w Backend =
  be_lastUsed :: "int list"
  be_handles :: "fs_handle option list"
  be_bdHandle :: "blockDeviceHandle option"
  be_fsRoot :: string
  be_blockDevice :: string
  be_sectorSize :: int
  be_compressionCacheSize :: int
  be_readOnly :: bool
  be_enableCompression :: bool
  be_world :: 'w
  be_log :: "os_call list"

definition maxHandles :: nat where [simp]: "maxHandles = 64"

definition handleMaxLastUsed :: int where [simp]: "handleMaxLastUsed = 3600000000000"

text \<open>Size of the buffer a connection reads into.\<close>

definition readBufferSize :: nat where [simp]: "readBufferSize = 131072"

definition sys :: "os_call \<Rightarrow> ('w \<Rightarrow> 'w \<times> 'a) \<Rightarrow> 'w Backend \<Rightarrow> 'w Backend \<times> 'a" where
  "sys c f s = (let (w, r) = f (be_world s) in (s\<lparr>be_world := w, be_log := be_log s @ [c]\<rparr>, r))"

section \<open>Methods of a file object\<close>

definition fo_Name :: "FileObject \<Rightarrow> string" where
  "fo_Name f = (case f of OsFile _ name \<Rightarrow> name | ImageFile c \<Rightarrow> CachedReader_Name c)"

definition fo_Read :: "'w OS \<Rightarrow> FileObject \<Rightarrow> nat \<Rightarrow> 'w Backend \<Rightarrow>
    ('w Backend \<times> FileObject \<times> bytes \<times> go_error option) option" where
  "fo_Read os f n s =
     (case f of
        OsFile fid name \<Rightarrow> let (s, b, e) = sys (CRead fid n) (OS_Read os fid n) s in Some (s, f, b, e)
      | ImageFile c \<Rightarrow>
          (case CachedReader_Read (br_ReadBlock (lib os)) c n of
             None \<Rightarrow> None
           | Some (c, b, e) \<Rightarrow> Some (s, ImageFile c, b, e)))"

definition fo_Write :: "'w OS \<Rightarrow> FileObject \<Rightarrow> bytes \<Rightarrow> 'w Backend \<Rightarrow>
    'w Backend \<times> FileObject \<times> int \<times> go_error option" where
  "fo_Write os f b s =
     (case f of
        OsFile fid name \<Rightarrow> let (s, n, e) = sys (CWrite fid b) (OS_Write os fid b) s in (s, f, n, e)
      | ImageFile c \<Rightarrow> let (c, n, e) = CachedReader_Write c b in (s, ImageFile c, n, e))"

definition fo_Seek :: "'w OS \<Rightarrow> FileObject \<Rightarrow> int \<Rightarrow> int \<Rightarrow> 'w Backend \<Rightarrow>
    'w Backend \<times> FileObject \<times> int \<times> go_error option" where
  "fo_Seek os f offset whence s =
     (case f of
        OsFile fid name \<Rightarrow>
          let (s, p, e) = sys (CSeek fid offset whence) (OS_Seek os fid offset whence) s in (s, f, p, e)
      | ImageFile c \<Rightarrow> let (c, p, e) = CachedReader_Seek c offset whence in (s, ImageFile c, p, e))"

definition fo_Stat :: "'w OS \<Rightarrow> FileObject \<Rightarrow> 'w Backend \<Rightarrow> 'w Backend \<times> (go_error + FileInfo)" where
  "fo_Stat os f s =
     (case f of
        OsFile fid name \<Rightarrow> sys (CFStat fid) (OS_FStat os fid) s
      | ImageFile c \<Rightarrow> (s, Inr (CachedReader_Stat c)))"

text \<open>Closing an image drops the file of its reader, which nothing refers to any more.\<close>

definition fo_Close :: "'w OS \<Rightarrow> FileObject \<Rightarrow> 'w Backend \<Rightarrow> 'w Backend" where
  "fo_Close os f s =
     (case f of
        OsFile fid name \<Rightarrow> fst (sys (CClose fid) (OS_Close os fid) s)
      | ImageFile c \<Rightarrow> s)"

definition handle_Close :: "'w OS \<Rightarrow> fs_handle \<Rightarrow> 'w Backend \<Rightarrow> 'w Backend" where
  "handle_Close os h s = (case h of HFile f \<Rightarrow> fo_Close os (fh_obj f) s | HDir _ \<Rightarrow> s)"

definition zero_wr :: writeState where
  "zero_wr = \<lparr>wr_dataBuffer = [], wr_sectorNumber = 0, wr_sectorCount = 0, wr_totalChunks = 0,
     wr_receivedChunks = 0, wr_blockWrite = False\<rparr>"

definition newFileHandle :: "FileObject \<Rightarrow> bool \<Rightarrow> fileHandle" where
  "newFileHandle f readOnly = \<lparr>fh_obj = f, fh_wr = zero_wr, fh_readOnly = readOnly\<rparr>"

section \<open>The handle table\<close>

text \<open>
  The loop of \<^verbatim>\<open>allocHandle\<close>: the first free index, or the index used least recently and when.
\<close>

fun alloc_scan :: "int list \<Rightarrow> nat \<Rightarrow> nat \<Rightarrow> int \<Rightarrow> fs_handle option list \<Rightarrow> nat + nat \<times> int" where
  "alloc_scan lastUsed i oldest ts [] = Inr (oldest, ts)"
| "alloc_scan lastUsed i oldest ts (h # hs) =
     (if h = None then Inl i
      else if lastUsed ! i < ts then alloc_scan lastUsed (Suc i) i (lastUsed ! i) hs
      else alloc_scan lastUsed (Suc i) oldest ts hs)"

definition set_handle :: "nat \<Rightarrow> fs_handle \<Rightarrow> int \<Rightarrow> 'w Backend \<Rightarrow> 'w Backend" where
  "set_handle i h now s =
     s\<lparr>be_handles := (be_handles s)[i := Some h], be_lastUsed := (be_lastUsed s)[i := now]\<rparr>"

definition allocHandle :: "'w OS \<Rightarrow> int \<Rightarrow> fs_handle \<Rightarrow> 'w Backend \<Rightarrow> 'w Backend \<times> int" where
  "allocHandle os now h s =
     (case alloc_scan (be_lastUsed s) 0 0 now (be_handles s) of
        Inl i \<Rightarrow> (set_handle i h now s, int i + 1)
      | Inr (oldest, ts) \<Rightarrow>
          if handleMaxLastUsed \<le> now - ts then
            let s = (case be_handles s ! oldest of Some old \<Rightarrow> handle_Close os old s | None \<Rightarrow> s)
            in (set_handle oldest h now s, int oldest + 1)
          else (s, - EMFILE))"

text \<open>\<^verbatim>\<open>s.handles[handle]\<close> panics outside the array.\<close>

definition handle_at :: "int \<Rightarrow> 'w Backend \<Rightarrow> fs_handle option option" where
  "handle_at i s =
     (if 0 \<le> i \<and> i < int (length (be_handles s)) then Some (be_handles s ! nat i) else None)"

definition freeHandle :: "'w OS \<Rightarrow> int \<Rightarrow> 'w Backend \<Rightarrow> ('w Backend \<times> bool) option" where
  "freeHandle os handle s =
     (if handle = BlockDeviceHandle then Some (s, True)
      else
        let handle = int32 (handle - 1)
        in case handle_at handle s of
             None \<Rightarrow> None
           | Some None \<Rightarrow> Some (s, True)
           | Some (Some h) \<Rightarrow>
               let s = handle_Close os h s
               in Some (s\<lparr>be_handles := (be_handles s)[nat handle := None]\<rparr>, True))"

definition getFile :: "int \<Rightarrow> int \<Rightarrow> 'w Backend \<Rightarrow> ('w Backend \<times> fileHandle option) option" where
  "getFile now handle s =
     (if handle < 0 then Some (s, None)
      else if handle = BlockDeviceHandle then
        Some (s, map_option bd_fileHandle (be_bdHandle s))
      else
        let handle = int32 (handle - 1)
        in case handle_at handle s of
             None \<Rightarrow> None
           | Some (Some (HFile fh)) \<Rightarrow>
               Some (s\<lparr>be_lastUsed := (be_lastUsed s)[nat handle := now]\<rparr>, Some fh)
           | Some _ \<Rightarrow> Some (s, None))"

text \<open>Writing a changed file handle back.\<close>

definition putFile :: "int \<Rightarrow> fileHandle \<Rightarrow> 'w Backend \<Rightarrow> 'w Backend" where
  "putFile handle fh s =
     (if handle = BlockDeviceHandle then
        s\<lparr>be_bdHandle := map_option (\<lambda>b. b\<lparr>bd_fileHandle := fh\<rparr>) (be_bdHandle s)\<rparr>
      else s\<lparr>be_handles := (be_handles s)[nat (int32 (handle - 1)) := Some (HFile fh)]\<rparr>)"

fun find_file :: "nat \<Rightarrow> string \<Rightarrow> fs_handle option list \<Rightarrow> (nat \<times> fileHandle) option" where
  "find_file i hostPath [] = None"
| "find_file i hostPath (h # hs) =
     (case h of
        Some (HFile fh) \<Rightarrow>
          if fo_Name (fh_obj fh) = hostPath then Some (i, fh) else find_file (Suc i) hostPath hs
      | _ \<Rightarrow> find_file (Suc i) hostPath hs)"

definition getFileByPath :: "int \<Rightarrow> string \<Rightarrow> 'w Backend \<Rightarrow> 'w Backend \<times> fileHandle option" where
  "getFileByPath now hostPath s =
     (case find_file 0 hostPath (be_handles s) of
        None \<Rightarrow> (s, None)
      | Some (i, fh) \<Rightarrow> (s\<lparr>be_lastUsed := (be_lastUsed s)[i := now]\<rparr>, Some fh))"

definition getFileState :: "string \<Rightarrow> 'w Backend \<Rightarrow> bool \<times> bool" where
  "getFileState hostPath s =
     (case find_file 0 hostPath (be_handles s) of
        None \<Rightarrow> (False, True)
      | Some (_, fh) \<Rightarrow> (True, fh_readOnly fh))"

definition getDir :: "int \<Rightarrow> int \<Rightarrow> 'w Backend \<Rightarrow> ('w Backend \<times> dirHandle option) option" where
  "getDir now handle s =
     (let handle = int32 (handle - 1)
      in case handle_at handle s of
           None \<Rightarrow> None
         | Some (Some (HDir dh)) \<Rightarrow>
             Some (s\<lparr>be_lastUsed := (be_lastUsed s)[nat handle := now]\<rparr>, Some dh)
         | Some _ \<Rightarrow> Some (s, None))"

definition putDir :: "int \<Rightarrow> dirHandle \<Rightarrow> 'w Backend \<Rightarrow> 'w Backend" where
  "putDir handle dh s = s\<lparr>be_handles := (be_handles s)[nat (int32 (handle - 1)) := Some (HDir dh)]\<rparr>"

section \<open>Creating and closing a backend\<close>

datatype BackendOpt =
    WithFSRoot string | WithBlockDevice string | WithSectorSize int | WithReadOnly
  | WithCompression | WithCompressionCacheSize int

fun apply_opt :: "BackendOpt \<Rightarrow> 'w Backend \<Rightarrow> 'w Backend" where
  "apply_opt (WithFSRoot path) s = (if path \<noteq> [] then s\<lparr>be_fsRoot := path\<rparr> else s)"
| "apply_opt (WithBlockDevice path) s = (if path \<noteq> [] then s\<lparr>be_blockDevice := path\<rparr> else s)"
| "apply_opt (WithSectorSize n) s = (if n \<noteq> 0 then s\<lparr>be_sectorSize := n\<rparr> else s)"
| "apply_opt WithReadOnly s = s\<lparr>be_readOnly := True\<rparr>"
| "apply_opt WithCompression s = s\<lparr>be_enableCompression := True\<rparr>"
| "apply_opt (WithCompressionCacheSize n) s = (if n \<noteq> 0 then s\<lparr>be_compressionCacheSize := n\<rparr> else s)"

definition initial_backend :: "'w \<Rightarrow> 'w Backend" where
  "initial_backend w = \<lparr>be_lastUsed = replicate maxHandles 0, be_handles = replicate maxHandles None,
     be_bdHandle = None, be_fsRoot = [], be_blockDevice = [], be_sectorSize = 512,
     be_compressionCacheSize = 0, be_readOnly = False, be_enableCompression = False,
     be_world = w, be_log = []\<rparr>"

definition mount_root :: "'w OS \<Rightarrow> 'w Backend \<Rightarrow> go_error + 'w Backend" where
  "mount_root os s =
     (if be_fsRoot s = [] then Inr s
      else case Abs (OS_Getwd os (be_world s)) (be_fsRoot s) of
        Inl e \<Rightarrow> Inl e
      | Inr absRoot \<Rightarrow>
          (case sys (CStat absRoot) (OS_Stat os absRoot) s of
             (s, Inl _) \<Rightarrow> Inl FormatError
           | (s, Inr info) \<Rightarrow>
               if fi_mode info \<noteq> ModeDir then Inl FormatError else Inr (s\<lparr>be_fsRoot := absRoot\<rparr>)))"

definition mount_device :: "'w OS \<Rightarrow> 'w Backend \<Rightarrow> (go_error + 'w Backend) option" where
  "mount_device os s =
     (if be_blockDevice s = [] then Some (Inr s)
      else
        let mode = (if be_readOnly s then O_RDONLY else O_RDWR)
        in case sys (COpenFile (be_blockDevice s) mode) (OS_OpenFile os (be_blockDevice s) mode) s of
             (s, Inl _) \<Rightarrow> Some (Inl FormatError)
           | (s, Inr fid) \<Rightarrow>
               (case sys (CFStat fid) (OS_FStat os fid) s of
                  (s, Inl _) \<Rightarrow> None
                | (s, Inr info) \<Rightarrow>
                    Some (Inr (s\<lparr>be_bdHandle := Some
                      \<lparr>bd_fileHandle = newFileHandle (OsFile fid (be_blockDevice s)) (be_readOnly s),
                       bd_totalSectorCount = go_quot (fi_size info) (be_sectorSize s)\<rparr>\<rparr>))))"

definition NewBackend :: "'w OS \<Rightarrow> BackendOpt list \<Rightarrow> 'w \<Rightarrow> (go_error + 'w Backend) option" where
  "NewBackend os opts w =
     (let s = fold apply_opt opts (initial_backend w)
      in case mount_root os s of
           Inl e \<Rightarrow> Some (Inl e)
         | Inr s \<Rightarrow> mount_device os s)"

fun shutdown_loop :: "'w OS \<Rightarrow> nat list \<Rightarrow> 'w Backend \<Rightarrow> 'w Backend option" where
  "shutdown_loop os [] s = Some s"
| "shutdown_loop os (fd # fds) s =
     (case freeHandle os (int fd) s of None \<Rightarrow> None | Some (s, _) \<Rightarrow> shutdown_loop os fds s)"

definition Shutdown :: "'w OS \<Rightarrow> 'w Backend \<Rightarrow> 'w Backend option" where
  "Shutdown os s = shutdown_loop os [0..<length (be_handles s)] s"

definition pathExists :: "'w OS \<Rightarrow> string \<Rightarrow> 'w Backend \<Rightarrow> 'w Backend \<times> bool" where
  "pathExists os p s = (case sys (CStat p) (OS_Stat os p) s of (s, Inl _) \<Rightarrow> (s, False) | (s, Inr _) \<Rightarrow> (s, True))"

end
