(* ===== verification/FsOps.thy ===== *)
theory FsOps
  imports FsHandles
begin

text \<open>
  The operations of the backend (\<^verbatim>\<open>internal/fs/fileops.go\<close>), the implementation of the \<^verbatim>\<open>udpfs.FS\<close>
  interface. Each takes the operating system, the time and the backend; \<^term>\<open>None\<close> is a panic.
\<close>

section \<open>Opening and closing\<close>

type_synonym open_result = "int \<times> StatInfo \<times> go_error option"

text \<open>\<^verbatim>\<open>udpfs.StatInfoFromFile(st)\<close> of an information record whose error was ignored: it may be nil.\<close>

definition opened :: "int \<Rightarrow> 'w Backend \<times> (go_error + FileInfo) \<Rightarrow> ('w Backend \<times> open_result) option" where
  "opened handle r =
     (case r of (s, Inl _) \<Rightarrow> None | (s, Inr st) \<Rightarrow> Some (s, (handle, StatInfoFromFile st, None)))"

definition open_dir :: "'w OS \<Rightarrow> int \<Rightarrow> string \<Rightarrow> 'w Backend \<Rightarrow> ('w Backend \<times> open_result) option" where
  "open_dir os now fullPath s =
     (case sys (CReadDir fullPath) (OS_ReadDir os fullPath) s of
        (s, Inl e) \<Rightarrow> Some (s, (0, zero_stat, Some e))
      | (s, Inr entries) \<Rightarrow>
          let (s, handle) = allocHandle os now
                (HDir \<lparr>dh_dirPath = fullPath, dh_entries = entries, dh_index = 0\<rparr>) s
          in if handle < 0 then Some (s, (handle, zero_stat, None))
             else opened handle (sys (CStat fullPath) (OS_Stat os fullPath) s))"

text \<open>
  What the functions of package \<^verbatim>\<open>compression\<close> find when they open a path: they look at the extension
  first and touch only files of a known format.
\<close>

definition image_contents :: "'w OS \<Rightarrow> string \<Rightarrow> 'w Backend \<Rightarrow> 'w Backend \<times> (go_error + os_file)" where
  "image_contents os path s =
     (if ToLower (Ext path) \<in> set (zso_Extensions @ cso_Extensions @ chd_Extensions (lib os))
      then sys (CSnapshot path) (OS_Snapshot os path) s else (s, Inl ErrNotExist))"

text \<open>
  A compressed image behind the requested name: \<open>Some None\<close> goes on with the plain file.
\<close>

definition open_image :: "'w OS \<Rightarrow> int \<Rightarrow> string \<Rightarrow> 'w Backend \<Rightarrow>
    ('w Backend \<times> open_result option) option" where
  "open_image os now fullPath s =
     (if ToLower (Ext fullPath) \<noteq> ''.iso'' then Some (s, None)
      else
        let compressedPath = TrimSuffix fullPath (Ext fullPath);
            (s, ex) = pathExists os compressedPath s
        in if \<not> ex then Some (s, None)
           else
             let (s, file) = image_contents os compressedPath s
             in case compression_Open (lib os) (\<lambda>_. file) compressedPath (be_compressionCacheSize s) of
                  None \<Rightarrow> None
                | Some None \<Rightarrow> Some (s, None)
                | Some (Some wrapper) \<Rightarrow>
                    let (s, handle) = allocHandle os now (HFile (newFileHandle (ImageFile wrapper) True)) s
                    in if handle < 0 then Some (s, Some (handle, zero_stat, None))
                       else Some (s, Some (handle, StatInfoFromFile (CachedReader_Stat wrapper), None)))"

definition open_plain :: "'w OS \<Rightarrow> int \<Rightarrow> string \<Rightarrow> int \<Rightarrow> bool \<Rightarrow> 'w Backend \<Rightarrow>
    ('w Backend \<times> open_result) option" where
  "open_plain os now fullPath flag exists s =
     (if \<not> exists \<and> flag AND O_CREATE = 0 then Some (s, (0, zero_stat, Some ErrNotExist))
      else
        let s = (if flag AND O_CREATE \<noteq> 0
                 then fst (sys (CMkdirAll (Dir fullPath)) (OS_MkdirAll os (Dir fullPath)) s) else s)
        in case sys (COpenFile fullPath flag) (OS_OpenFile os fullPath flag) s of
             (s, Inl e) \<Rightarrow> Some (s, (0, zero_stat, Some e))
           | (s, Inr fid) \<Rightarrow>
               let (s, handle) = allocHandle os now
                     (HFile (newFileHandle (OsFile fid fullPath) (flag AND (O_RDWR OR O_WRONLY) = 0))) s
               in if handle < 0 then
                    Some (fst (sys (CClose fid) (OS_Close os fid) s), (handle, zero_stat, None))
                  else opened handle (sys (CFStat fid) (OS_FStat os fid) s))"

definition Backend_Open :: "'w OS \<Rightarrow> int \<Rightarrow> string \<Rightarrow> int \<Rightarrow> bool \<Rightarrow> 'w Backend \<Rightarrow>
    ('w Backend \<times> open_result) option" where
  "Backend_Open os now path flag isDir s =
     (case resolvePath (be_fsRoot s) (OS_Getwd os (be_world s)) path of
        None \<Rightarrow> Some (s, (0, zero_stat, Some ErrNotExist))
      | Some fullPath \<Rightarrow>
          let (isOpen, fileReadOnly) = getFileState fullPath s;
              wantWrite = wants_write flag;
              openForWriting = (isOpen \<and> \<not> fileReadOnly)
          in if wantWrite \<and> (be_readOnly s \<or> isOpen) then Some (s, (0, zero_stat, Some ErrPermission))
             else if \<not> wantWrite \<and> openForWriting then Some (s, (0, zero_stat, Some ErrPermission))
             else if isDir then open_dir os now fullPath s
             else
               let (s, exists) = (if fullPath \<noteq> [] then pathExists os fullPath s else (s, False))
               in if be_enableCompression s \<and> \<not> exists then
                    (case open_image os now fullPath s of
                       None \<Rightarrow> None
                     | Some (s, Some r) \<Rightarrow> Some (s, r)
                     | Some (s, None) \<Rightarrow> open_plain os now fullPath flag exists s)
                  else open_plain os now fullPath flag exists s)"

definition Backend_Close :: "'w OS \<Rightarrow> int \<Rightarrow> 'w Backend \<Rightarrow> ('w Backend \<times> go_error option) option" where
  "Backend_Close os handle s =
     (case freeHandle os handle s of
        None \<Rightarrow> None
      | Some (s, ok) \<Rightarrow> Some (s, if ok then None else Some ErrInvalid))"

section \<open>Reading and writing\<close>

text \<open>\<^verbatim>\<open>readBuffer[:n]\<close> panics when \<open>n\<close> exceeds the capacity.\<close>

definition Backend_Read :: "'w OS \<Rightarrow> int \<Rightarrow> int \<Rightarrow> u32 \<Rightarrow> 'w Backend \<Rightarrow>
    ('w Backend \<times> (go_error + int \<times> bytes)) option" where
  "Backend_Read os now handle sz s = do {
     (s, fo) \<leftarrow> getFile now handle s;
     case fo of
       None \<Rightarrow> Some (s, Inl ErrInvalid)
     | Some f \<Rightarrow>
         if readBufferSize < unat sz then None
         else do {
           (s, obj, b, err) \<leftarrow> fo_Read os (fh_obj f) (unat sz) s;
           let s = putFile handle (f\<lparr>fh_obj := obj\<rparr>) s;
           (case err of
              Some e \<Rightarrow> if e \<noteq> ErrClosed \<and> e \<noteq> EOF then Some (s, Inl e) else Some (s, Inr (int32 (int (length b)), b))
            | None \<Rightarrow> Some (s, Inr (int32 (int (length b)), b)))
         }
   }"

definition Backend_WriteStart :: "int \<Rightarrow> int \<Rightarrow> 'w Backend \<Rightarrow> ('w Backend \<times> go_error option) option" where
  "Backend_WriteStart now handle s = do {
     (s, fo) \<leftarrow> getFile now handle s;
     case fo of
       None \<Rightarrow> Some (s, Some ErrInvalid)
     | Some f \<Rightarrow>
         if fh_readOnly f then Some (s, Some ErrPermission)
         else
           let wr = (fh_wr f)\<lparr>wr_blockWrite := False, wr_dataBuffer := [], wr_totalChunks := 0,
                 wr_receivedChunks := 0\<rparr>
           in Some (putFile handle (f\<lparr>fh_wr := wr\<rparr>) s, None)
   }"

definition Backend_WriteChunk :: "int \<Rightarrow> int \<Rightarrow> u16 \<Rightarrow> u16 \<Rightarrow> u16 \<Rightarrow> bytes \<Rightarrow> 'w Backend \<Rightarrow>
    ('w Backend \<times> (go_error + bool)) option" where
  "Backend_WriteChunk now handle chunkNr chunkSize totalChunks chunk s = do {
     (s, fo) \<leftarrow> getFile now handle s;
     case fo of
       None \<Rightarrow> Some (s, Inl ErrInvalid)
     | Some f \<Rightarrow>
         if chunkNr \<noteq> wr_receivedChunks (fh_wr f) then Some (s, Inr False)
         else
           let wr = (fh_wr f)\<lparr>wr_dataBuffer := wr_dataBuffer (fh_wr f) @ chunk, wr_totalChunks := totalChunks,
                 wr_receivedChunks := wr_receivedChunks (fh_wr f) + 1\<rparr>
           in Some (putFile handle (f\<lparr>fh_wr := wr\<rparr>) s, Inr (wr_totalChunks wr \<le> wr_receivedChunks wr))
   }"

definition sector_size :: "int \<Rightarrow> 'w Backend \<Rightarrow> int" where
  "sector_size handle s = (if handle \<noteq> BlockDeviceHandle then 512 else be_sectorSize s)"

text \<open>The method value \<^verbatim>\<open>f.Write\<close> is never nil, so the reply -9 of the code cannot happen.\<close>

definition Backend_CompleteWrite :: "'w OS \<Rightarrow> int \<Rightarrow> int \<Rightarrow> 'w Backend \<Rightarrow>
    ('w Backend \<times> (go_error + int)) option" where
  "Backend_CompleteWrite os now handle s = do {
     (s, fo) \<leftarrow> getFile now handle s;
     case fo of
       None \<Rightarrow> Some (s, Inl ErrInvalid)
     | Some f \<Rightarrow>
         let sectorSize = sector_size handle s;
             dat = wr_dataBuffer (fh_wr f)
         in if wr_blockWrite (fh_wr f) then
              let expectedSize = int64 (uint (wr_sectorCount (fh_wr f)) * sectorSize)
              in do {
                dat \<leftarrow> (if expectedSize < int (length dat) then go_slice_int dat 0 expectedSize else Some dat);
                let (s, obj, _, err) = fo_Seek os (fh_obj f) (int64 (wr_sectorNumber (fh_wr f) * sectorSize)) 0 s;
                let f = f\<lparr>fh_obj := obj\<rparr>;
                case err of
                  Some e \<Rightarrow> Some (putFile handle f s, Inl e)
                | None \<Rightarrow>
                    let (s, obj, _, err) = fo_Write os (fh_obj f) dat s;
                        s = putFile handle (f\<lparr>fh_obj := obj\<rparr>) s
                    in Some (s, case err of Some e \<Rightarrow> Inl e | None \<Rightarrow> Inr 0)
              }
            else
              let (s, obj, written, err) = fo_Write os (fh_obj f) dat s;
                  s = putFile handle (f\<lparr>fh_obj := obj\<rparr>) s
              in Some (s, case err of Some e \<Rightarrow> Inl e | None \<Rightarrow> Inr (int32 written))
   }"

definition Backend_Lseek :: "'w OS \<Rightarrow> int \<Rightarrow> int \<Rightarrow> int \<Rightarrow> int \<Rightarrow> 'w Backend \<Rightarrow>
    ('w Backend \<times> int \<times> go_error option) option" where
  "Backend_Lseek os now handle offset whence s = do {
     (s, fo) \<leftarrow> getFile now handle s;
     case fo of
       None \<Rightarrow> Some (s, - 1, None)
     | Some f \<Rightarrow>
         let (s, obj, p, err) = fo_Seek os (fh_obj f) offset whence s
         in Some (putFile handle (f\<lparr>fh_obj := obj\<rparr>) s, p, err)
   }"

section \<open>Directories and file information\<close>

type_synonym dread_result = "bool \<times> string \<times> StatInfo \<times> go_error option"

definition Backend_Dread :: "'w OS \<Rightarrow> int \<Rightarrow> int \<Rightarrow> 'w Backend \<Rightarrow> ('w Backend \<times> dread_result) option" where
  "Backend_Dread os now handle s = do {
     (s, d) \<leftarrow> getDir now handle s;
     case d of
       None \<Rightarrow> Some (s, (False, [], zero_stat, Some ErrInvalid))
     | Some d \<Rightarrow>
         if length (dh_entries d) \<le> dh_index d then Some (s, (False, [], zero_stat, None))
         else
           let entry = dh_entries d ! dh_index d;
               s = putDir handle (d\<lparr>dh_index := Suc (dh_index d)\<rparr>) s;
               dirPath = dh_dirPath d
           in case sys (CEntryInfo dirPath entry) (OS_EntryInfo os dirPath entry) s of
                (s, Inl _) \<Rightarrow> Some (s, (False, [], zero_stat, None))
              | (s, Inr info) \<Rightarrow>
                  if be_enableCompression s \<and> Ext entry \<in> set (GetSupportedExtensions (lib os)) then
                    let entryPath = Join dirPath entry;
                        (s, file) = image_contents os entryPath s
                    in case compression_GetStat (lib os) (\<lambda>_. file) entryPath of
                         None \<Rightarrow> Some (s, (False, [], zero_stat, None))
                       | Some cst \<Rightarrow> Some (s, (True, entry @ ''.iso'', StatInfoFromFile cst, None))
                  else Some (s, (True, entry, StatInfoFromFile info, None))
   }"

definition Backend_Getstat :: "'w OS \<Rightarrow> int \<Rightarrow> string \<Rightarrow> 'w Backend \<Rightarrow>
    'w Backend \<times> StatInfo \<times> go_error option" where
  "Backend_Getstat os now path s =
     (case (if path = [] then be_bdHandle s else None) of
        Some bd \<Rightarrow>
          let totalBytes = int64 (bd_totalSectorCount bd * be_sectorSize s)
          in (s, zero_stat\<lparr>si_Size := word_of_int (totalBytes AND 0xFFFFFFFF),
                           si_Hisize := word_of_int (drop_bit 32 totalBytes)\<rparr>, None)
      | None \<Rightarrow>
          (case resolvePath (be_fsRoot s) (OS_Getwd os (be_world s)) path of
             None \<Rightarrow> (s, zero_stat, Some ErrInvalid)
           | Some resolved \<Rightarrow>
               let (s, f) = getFileByPath now resolved s
               in case f of
                    None \<Rightarrow>
                      (case sys (CStat resolved) (OS_Stat os resolved) s of
                         (s, Inl _) \<Rightarrow> (s, zero_stat, Some ErrInvalid)
                       | (s, Inr st) \<Rightarrow> (s, StatInfoFromFile st, None))
                  | Some f \<Rightarrow>
                      (case fo_Stat os (fh_obj f) s of
                         (s, Inl e) \<Rightarrow> (s, zero_stat, Some e)
                       | (s, Inr st) \<Rightarrow> (s, StatInfoFromFile st, None))))"

section \<open>Changing directories\<close>

definition Backend_Mkdir :: "'w OS \<Rightarrow> string \<Rightarrow> 'w Backend \<Rightarrow> 'w Backend \<times> go_error option" where
  "Backend_Mkdir os path s =
     (if be_readOnly s then (s, Some ErrPermission)
      else case resolvePath (be_fsRoot s) (OS_Getwd os (be_world s)) path of
        None \<Rightarrow> (s, Some ErrPermission)
      | Some resolved \<Rightarrow>
          let (s, err) = sys (CMkdir resolved) (OS_Mkdir os resolved) s
          in (s, if err = Some ErrExist then None else err))"

definition Backend_Remove :: "'w OS \<Rightarrow> string \<Rightarrow> 'w Backend \<Rightarrow> 'w Backend \<times> go_error option" where
  "Backend_Remove os path s =
     (if be_readOnly s then (s, Some ErrPermission)
      else case resolvePath (be_fsRoot s) (OS_Getwd os (be_world s)) path of
        None \<Rightarrow> (s, Some ErrPermission)
      | Some resolved \<Rightarrow> sys (CRemove resolved) (OS_Remove os resolved) s)"

definition Backend_Rmdir :: "'w OS \<Rightarrow> string \<Rightarrow> 'w Backend \<Rightarrow> 'w Backend \<times> go_error option" where
  "Backend_Rmdir os path s =
     (if be_readOnly s then (s, Some ErrPermission)
      else case resolvePath (be_fsRoot s) (OS_Getwd os (be_world s)) path of
        None \<Rightarrow> (s, Some ErrPermission)
      | Some resolved \<Rightarrow> sys (CRemove resolved) (OS_Remove os resolved) s)"

section \<open>Sectors\<close>

definition Backend_Bread :: "'w OS \<Rightarrow> int \<Rightarrow> int \<Rightarrow> int \<Rightarrow> u16 \<Rightarrow> 'w Backend \<Rightarrow>
    ('w Backend \<times> (go_error + bytes)) option" where
  "Backend_Bread os now handle sectorNr sectorCount s = do {
     (s, fo) \<leftarrow> getFile now handle s;
     case fo of
       None \<Rightarrow> Some (s, Inl ErrInvalid)
     | Some f \<Rightarrow>
         let sectorSize = sector_size handle s;
             (s, obj, _, err) = fo_Seek os (fh_obj f) (int64 (sectorNr * sectorSize)) 0 s;
             f = f\<lparr>fh_obj := obj\<rparr>
         in case err of
              Some e \<Rightarrow> Some (putFile handle f s, Inl e)
            | None \<Rightarrow>
                let n = int64 (uint sectorCount * sectorSize)
                in if n < 0 \<or> int readBufferSize < n then None
                   else do {
                     (s, obj, b, err) \<leftarrow> fo_Read os (fh_obj f) (nat n) s;
                     let s = putFile handle (f\<lparr>fh_obj := obj\<rparr>) s;
                     (case err of
                        Some e \<Rightarrow> if e \<noteq> EOF then Some (s, Inl e) else Some (s, Inr b)
                      | None \<Rightarrow> Some (s, Inr b))
                   }
   }"

definition Backend_BwriteStart :: "int \<Rightarrow> int \<Rightarrow> int \<Rightarrow> u16 \<Rightarrow> 'w Backend \<Rightarrow>
    ('w Backend \<times> go_error option) option" where
  "Backend_BwriteStart now handle sectorNr sectorCount s = do {
     (s, fo) \<leftarrow> getFile now handle s;
     case fo of
       None \<Rightarrow> Some (s, Some ErrInvalid)
     | Some f \<Rightarrow>
         if fh_readOnly f then Some (s, Some ErrPermission)
         else
           let wr = (fh_wr f)\<lparr>wr_blockWrite := True, wr_sectorNumber := sectorNr, wr_sectorCount := sectorCount,
                 wr_dataBuffer := [], wr_totalChunks := 0, wr_receivedChunks := 0\<rparr>
           in Some (putFile handle (f\<lparr>fh_wr := wr\<rparr>) s, None)
   }"

end
