(* ===== verification/FsInv.thy ===== *)
theory FsInv
  imports FsOps
begin

text \<open>
  The invariant of the backend: the handle table is well-formed, no file is open for writing and
  open a second time, and of the system calls made since the start none leaves the root and, on a
  read-only server, none changes anything.
\<close>

section \<open>Allowed system calls\<close>

definition inside :: "string \<Rightarrow> string \<Rightarrow> bool" where
  "inside root p \<longleftrightarrow> (\<exists>names. p = path_of (comps root @ names) \<and> (\<forall>x \<in> set (comps root @ names). name_ok x))"

text \<open>A path below the root, or one that becomes such a path with the \<^verbatim>\<open>.iso\<close> the client appended.\<close>

definition served :: "string \<Rightarrow> string \<Rightarrow> bool" where
  "served root p \<longleftrightarrow> inside root p \<or> (\<exists>e. ToLower e = ''.iso'' \<and> inside root (p @ e))"

fun confined :: "string \<Rightarrow> os_call \<Rightarrow> bool" where
  "confined root (CStat p) = served root p"
| "confined root (CSnapshot p) = served root p"
| "confined root (CReadDir p) = inside root p"
| "confined root (CEntryInfo d e) = (inside root d \<and> name_ok e)"
| "confined root (COpenFile p flag) = inside root p"
| "confined root (CMkdirAll d) = (\<exists>p. inside root p \<and> d = Dir p)"
| "confined root (CMkdir p) = inside root p"
| "confined root (CRemove p) = inside root p"
| "confined root _ = True"

fun mutating :: "os_call \<Rightarrow> bool" where
  "mutating (COpenFile p flag) \<longleftrightarrow> wants_write flag \<or> flag AND (O_CREATE OR O_TRUNC OR O_APPEND) \<noteq> 0"
| "mutating (CMkdirAll _) = True"
| "mutating (CMkdir _) = True"
| "mutating (CRemove _) = True"
| "mutating (CWrite _ _) = True"
| "mutating _ = False"

text \<open>The calls that a backend started as \<open>s0\<close> may make.\<close>

definition allowed :: "'w Backend \<Rightarrow> os_call \<Rightarrow> bool" where
  "allowed s0 c \<longleftrightarrow> confined (be_fsRoot s0) c \<and> (be_readOnly s0 \<longrightarrow> \<not> mutating c)"

text \<open>
  What is relied on of the operating system: directory entries are file names of at most 255 bytes,
  and the working directory is an absolute path.
\<close>

definition os_ok :: "'w OS \<Rightarrow> bool" where
  "os_ok os \<longleftrightarrow>
     (\<forall>p w w' es. OS_ReadDir os p w = (w', Inr es) \<longrightarrow> (\<forall>e \<in> set es. name_ok e \<and> length e \<le> 255)) \<and>
     (\<forall>w d. OS_Getwd os w = Inr d \<longrightarrow> IsAbs d)"

section \<open>The invariant\<close>

text \<open>What no operation changes of an open file.\<close>

definition fo_id :: "FileObject \<Rightarrow> string \<times> nat option" where
  "fo_id obj = (fo_Name obj, case obj of OsFile fid _ \<Rightarrow> Some fid | ImageFile _ \<Rightarrow> None)"

definition ident :: "fileHandle \<Rightarrow> (string \<times> nat option) \<times> bool" where
  "ident f = (fo_id (fh_obj f), fh_readOnly f)"

text \<open>Two handles of the same file must both be for reading.\<close>

definition shareable :: "fileHandle \<Rightarrow> fileHandle \<Rightarrow> bool" where
  "shareable f g \<longleftrightarrow> (fo_Name (fh_obj f) = fo_Name (fh_obj g) \<longrightarrow> fh_readOnly f \<and> fh_readOnly g)"

definition exclusive :: "fs_handle option list \<Rightarrow> bool" where
  "exclusive hs \<longleftrightarrow> (\<forall>i j f g. i < length hs \<longrightarrow> j < length hs \<longrightarrow> i \<noteq> j \<longrightarrow>
     hs ! i = Some (HFile f) \<longrightarrow> hs ! j = Some (HFile g) \<longrightarrow> shareable f g)"

definition may_add :: "fs_handle \<Rightarrow> fs_handle option list \<Rightarrow> bool" where
  "may_add h hs \<longleftrightarrow> (\<forall>f g. h = HFile f \<longrightarrow> Some (HFile g) \<in> set hs \<longrightarrow> shareable f g)"

definition file_ok :: "'w Backend \<Rightarrow> fileHandle \<Rightarrow> bool" where
  "file_ok s0 f \<longleftrightarrow> (be_readOnly s0 \<longrightarrow> fh_readOnly f) \<and>
     (snd (fo_id (fh_obj f)) = None \<longrightarrow> be_enableCompression s0)"

definition handle_ok :: "'w Backend \<Rightarrow> fs_handle \<Rightarrow> bool" where
  "handle_ok s0 h =
     (case h of
        HFile f \<Rightarrow> file_ok s0 f \<and> (fo_Name (fh_obj f) = [] \<longrightarrow> fh_readOnly f)
      | HDir d \<Rightarrow> inside (be_fsRoot s0) (dh_dirPath d) \<and> (\<forall>e \<in> set (dh_entries d). name_ok e \<and> length e \<le> 255))"

definition table_ok :: "'w Backend \<Rightarrow> fs_handle option list \<Rightarrow> bool" where
  "table_ok s0 hs \<longleftrightarrow> length hs = maxHandles \<and> (\<forall>h. Some h \<in> set hs \<longrightarrow> handle_ok s0 h) \<and> exclusive hs"

text \<open>What stays as it was in \<open>s0\<close>.\<close>

definition config :: "'w Backend \<Rightarrow> string \<times> bool \<times> bool \<times> int" where
  "config s = (be_fsRoot s, be_readOnly s, be_enableCompression s, be_sectorSize s)"

definition backend_inv :: "'w OS \<Rightarrow> 'w Backend \<Rightarrow> 'w Backend \<Rightarrow> bool" where
  "backend_inv os s0 s \<longleftrightarrow> os_ok os \<and> (be_fsRoot s0 = [] \<or> IsAbs (be_fsRoot s0)) \<and>
     config s = config s0 \<and> length (be_lastUsed s) = maxHandles \<and> table_ok s0 (be_handles s) \<and>
     (\<forall>b. be_bdHandle s = Some b \<longrightarrow> file_ok s0 (bd_fileHandle b)) \<and>
     (\<exists>calls. be_log s = be_log s0 @ calls \<and> list_all (allowed s0) calls)"

lemma shareable_sym: "shareable f g \<Longrightarrow> shareable g f"
  by (auto simp: shareable_def)

lemma ident_eq:
  assumes "ident f = ident f'"
  shows "fo_Name (fh_obj f) = fo_Name (fh_obj f')" "fh_readOnly f = fh_readOnly f'" "file_ok s0 f = file_ok s0 f'"
    "handle_ok s0 (HFile f) = handle_ok s0 (HFile f')"
proof -
  show n: "fo_Name (fh_obj f) = fo_Name (fh_obj f')" "fh_readOnly f = fh_readOnly f'"
    using assms by (simp_all add: ident_def fo_id_def)
  show "file_ok s0 f = file_ok s0 f'" using assms by (simp add: ident_def file_ok_def)
  then show "handle_ok s0 (HFile f) = handle_ok s0 (HFile f')" using n by (simp add: handle_ok_def)
qed

lemma shareable_ident: "ident f = ident f' \<Longrightarrow> ident g = ident g' \<Longrightarrow> shareable f g = shareable f' g'"
  using ident_eq(1,2) [of f f'] ident_eq(1,2) [of g g'] by (simp add: shareable_def)

lemma exclusiveD:
  "exclusive hs \<Longrightarrow> i < length hs \<Longrightarrow> j < length hs \<Longrightarrow> i \<noteq> j \<Longrightarrow> hs ! i = Some (HFile f) \<Longrightarrow>
   hs ! j = Some (HFile g) \<Longrightarrow> shareable f g"
  by (simp add: exclusive_def)

lemma exclusive_add:
  assumes "exclusive hs" "may_add h hs"
  shows "exclusive (hs[i := Some h])"
  unfolding exclusive_def
proof (intro allI impI)
  fix j k f g
  assume a: "j < length (hs[i := Some h])" "k < length (hs[i := Some h])" "j \<noteq> k"
    "hs[i := Some h] ! j = Some (HFile f)" "hs[i := Some h] ! k = Some (HFile g)"
  consider "j = i" "k \<noteq> i" | "k = i" "j \<noteq> i" | "j \<noteq> i" "k \<noteq> i" using a(3) by blast
  then show "shareable f g"
  proof cases
    case 1
    then have "Some (HFile g) \<in> set hs" using a(2,5) by (auto simp: nth_list_update in_set_conv_nth)
    then show ?thesis using 1 a(1,4) assms(2) by (auto simp: may_add_def)
  next
    case 2
    then have "Some (HFile f) \<in> set hs" using a(1,4) by (auto simp: nth_list_update in_set_conv_nth)
    then show ?thesis using 2 a(2,5) assms(2) by (auto simp: may_add_def intro: shareable_sym)
  next
    case 3
    then show ?thesis using a assms(1) by (auto simp: exclusive_def)
  qed
qed

lemma exclusive_same:
  assumes "exclusive hs" "hs ! i = Some (HFile f)" "ident f' = ident f"
  shows "exclusive (hs[i := Some (HFile f')])"
  unfolding exclusive_def
proof (intro allI impI)
  fix j k g g'
  assume a: "j < length (hs[i := Some (HFile f')])" "k < length (hs[i := Some (HFile f')])" "j \<noteq> k"
    "hs[i := Some (HFile f')] ! j = Some (HFile g)" "hs[i := Some (HFile f')] ! k = Some (HFile g')"
  have old: "\<exists>g0. hs ! m = Some (HFile g0) \<and> ident g0 = ident x"
    if "m < length hs" "hs[i := Some (HFile f')] ! m = Some (HFile x)" for m x
    using that assms(2,3) by (cases "m = i") auto
  obtain g0 g0' where "hs ! j = Some (HFile g0)" "ident g0 = ident g" "hs ! k = Some (HFile g0')" "ident g0' = ident g'"
    using old a by (metis length_list_update)
  then show "shareable g g'" using a(1-3) assms(1) shareable_ident [of g0 g g0' g'] by (auto simp: exclusive_def)
qed

lemma exclusive_None: "exclusive hs \<Longrightarrow> exclusive (hs[i := None])"
  unfolding exclusive_def
  by (metis length_list_update nth_list_update_eq nth_list_update_neq option.distinct(1))

lemma exclusive_dir: "exclusive hs \<Longrightarrow> exclusive (hs[i := Some (HDir d)])"
  by (rule exclusive_add) (simp_all add: may_add_def)

lemma table_ok_add:
  "table_ok s0 hs \<Longrightarrow> may_add h hs \<Longrightarrow> handle_ok s0 h \<Longrightarrow> table_ok s0 (hs[i := Some h])"
  by (auto simp: table_ok_def exclusive_add dest!: set_update_subset_insert [THEN subsetD])

lemma table_ok_same:
  "table_ok s0 hs \<Longrightarrow> hs ! i = Some (HFile f) \<Longrightarrow> i < length hs \<Longrightarrow> ident f' = ident f \<Longrightarrow>
   table_ok s0 (hs[i := Some (HFile f')])"
  using nth_mem [of i hs] ident_eq(4) [of f' f s0]
  by (auto simp: table_ok_def exclusive_same dest!: set_update_subset_insert [THEN subsetD])

lemma table_ok_None: "table_ok s0 hs \<Longrightarrow> table_ok s0 (hs[i := None])"
  by (auto simp: table_ok_def exclusive_None dest!: set_update_subset_insert [THEN subsetD])

section \<open>Primitive steps\<close>

text \<open>What a system call leaves alone.\<close>

lemma config_simps [simp]:
  "config (s\<lparr>be_handles := hs\<rparr>) = config s" "config (s\<lparr>be_lastUsed := lu\<rparr>) = config s"
  "config (s\<lparr>be_bdHandle := bd\<rparr>) = config s" "config (s\<lparr>be_world := w\<rparr>) = config s"
  "config (s\<lparr>be_log := cs\<rparr>) = config s"
  by (simp_all add: config_def)

lemma sys_frame:
  assumes "sys c f s = (s', r)"
  shows "be_handles s' = be_handles s" "be_lastUsed s' = be_lastUsed s" "be_bdHandle s' = be_bdHandle s"
    "config s' = config s" "be_log s' = be_log s @ [c]"
  using assms by (auto simp: sys_def Let_def split: prod.splits)

lemma sys_inv:
  assumes "backend_inv os s0 s" "sys c f s = (s', r)" "allowed s0 c"
  shows "backend_inv os s0 s'"
  using assms(1,3) sys_frame [OF assms(2)] by (auto simp: backend_inv_def)

lemma sys_fst_inv: "backend_inv os s0 s \<Longrightarrow> allowed s0 c \<Longrightarrow> backend_inv os s0 (fst (sys c f s))"
  by (rule sys_inv [OF _ prod.collapse [symmetric]])

lemma inv_lastUsed: "backend_inv os s0 s \<Longrightarrow> backend_inv os s0 (s\<lparr>be_lastUsed := (be_lastUsed s)[i := t]\<rparr>)"
  by (simp add: backend_inv_def)

lemma inv_table:
  "backend_inv os s0 s \<Longrightarrow> table_ok s0 hs \<Longrightarrow> backend_inv os s0 (s\<lparr>be_handles := hs\<rparr>)"
  by (simp add: backend_inv_def)

lemma inv_table_ok: "backend_inv os s0 s \<Longrightarrow> table_ok s0 (be_handles s)"
  by (simp add: backend_inv_def)

lemma allowed_plain [simp]:
  "allowed s0 (CRead i n)" "allowed s0 (CSeek i off wh)" "allowed s0 (CFStat i)"
  "allowed s0 (CClose i)" "allowed s0 (CWrite i b) \<longleftrightarrow> \<not> be_readOnly s0"
  by (simp_all add: allowed_def)

lemma resolve_inside:
  assumes "backend_inv os s0 s" "resolvePath (be_fsRoot s) wd p = Some q"
  shows "inside (be_fsRoot s0) q"
proof -
  have "be_fsRoot s = be_fsRoot s0" "IsAbs (be_fsRoot s0)"
    using assms by (auto simp: backend_inv_def config_def resolvePath_def)
  then show ?thesis using resolvePath_names [of "be_fsRoot s0" wd p q] assms(2) by (simp add: inside_def)
qed

section \<open>Paths that are used\<close>

lemma inside_ne: "inside root p \<Longrightarrow> p \<noteq> []"
  by (auto simp: inside_def path_of_def)

lemma inside_served: "inside root p \<Longrightarrow> served root p"
  by (simp add: served_def)

lemma inside_Join:
  assumes "inside root d" "name_ok e"
  shows "inside root (Join d e)"
proof -
  obtain names where n: "d = path_of (comps root @ names)" "\<forall>x \<in> set (comps root @ names). name_ok x"
    using assms(1) by (auto simp: inside_def)
  have e: "split_path e = [e]" "e \<noteq> ''..''" "e \<noteq> []" "e \<noteq> ''.''"
    using assms(2) split_path_single [of e] by (auto simp: name_ok_def)
  have "comps (d @ [sep] @ e) = comps root @ (names @ [e])"
    using n e by (subst comps_append) simp_all
  then have "Join d e = path_of (comps root @ (names @ [e]))"
    using n by (simp add: Join_abs)
  then show ?thesis unfolding inside_def using n(2) assms(2) by (intro exI [of _ "names @ [e]"]) auto
qed

lemma split_path_last: "\<exists>pre. p = pre @ last (split_path p)"
proof (induction p)
  case (Cons c cs)
  then obtain pre where p: "cs = pre @ last (split_path cs)" by blast
  obtain x xs where s: "split_path cs = x # xs" by (cases "split_path cs") auto
  show ?case
  proof (cases "c = sep \<or> xs \<noteq> []")
    case True
    then have "last (split_path (c # cs)) = last (split_path cs)" using s by auto
    then have "c # cs = (c # pre) @ last (split_path (c # cs))" using p by (metis append_Cons)
    then show ?thesis by blast
  next
    case False
    then have "cs = x" using s join_split [of cs] by simp
    then have "c # cs = [] @ last (split_path (c # cs))" using False s by simp
    then show ?thesis by blast
  qed
qed simp

lemma Ext_suffix: "\<exists>pre. p = pre @ Ext p"
proof (cases "CHR ''.'' \<in> set (last (split_path p))")
  case True
  let ?x = "last (split_path p)"
  let ?t = "takeWhile (\<lambda>c. c \<noteq> CHR ''.'') (rev ?x)"
  obtain pre where p: "p = pre @ ?x" using split_path_last by blast
  have "dropWhile (\<lambda>c. c \<noteq> CHR ''.'') (rev ?x) \<noteq> []" using True by (auto simp: dropWhile_eq_Nil_conv)
  then obtain d where "dropWhile (\<lambda>c. c \<noteq> CHR ''.'') (rev ?x) = CHR ''.'' # d"
    using hd_dropWhile [of "\<lambda>c. c \<noteq> CHR ''.''" "rev ?x"] by (cases "dropWhile (\<lambda>c. c \<noteq> CHR ''.'') (rev ?x)") auto
  then have "rev ?x = ?t @ CHR ''.'' # d" by (metis takeWhile_dropWhile_id)
  then have "?x = rev (?t @ CHR ''.'' # d)" by (rule rev_swap [THEN iffD1])
  also have "\<dots> = rev d @ CHR ''.'' # rev ?t" by simp
  finally have "?x = rev d @ CHR ''.'' # rev ?t" .
  moreover have "Ext p = CHR ''.'' # rev ?t" using True by (simp add: Ext_def Let_def)
  ultimately have x: "?x = rev d @ Ext p" by (simp only:)
  have "p = pre @ (rev d @ Ext p)" unfolding x [symmetric] by (rule p)
  then have "p = (pre @ rev d) @ Ext p" by (simp only: append.assoc)
  then show ?thesis by blast
qed (simp add: Ext_def)

lemma TrimSuffix_Ext: "TrimSuffix p (Ext p) @ Ext p = p"
proof -
  obtain pre where p: "p = pre @ Ext p" using Ext_suffix by blast
  then have "length p = length pre + length (Ext p)" by (metis length_append)
  then have "take (length p - length (Ext p)) p = pre" "drop (length p - length (Ext p)) p = Ext p"
    using p by (metis add_diff_cancel_right' append_eq_conv_conj)+
  then show ?thesis using p \<open>length p = _\<close> by (simp add: TrimSuffix_def HasSuffix_def)
qed

lemma image_served:
  assumes "inside root p" "ToLower (Ext p) = ''.iso''"
  shows "served root (TrimSuffix p (Ext p))"
  unfolding served_def using assms TrimSuffix_Ext [of p] by (intro disjI2 exI [of _ "Ext p"]) simp

section \<open>Files\<close>

lemma getBlock_info: "getBlock rb c i = Some (c', r) \<Longrightarrow> cr_info c' = cr_info c"
  by (auto simp: getBlock_def Let_def split: prod.splits option.splits sum.splits)

lemma Read_loop_info: "Read_loop rb c n acc = Some (c', b, e) \<Longrightarrow> cr_info c' = cr_info c"
proof (induction n arbitrary: c acc rule: less_induct)
  case (less n)
  have IH: "cr_info c' = cr_info c0"
    if "Read_loop rb (c0\<lparr>cr_pos := x\<rparr>) (n - t) acc0 = Some (c', b, e)" "0 < n" "0 < t" for c0 x t acc0
    using less.IH [OF _ that(1)] that(2,3) by simp
  show ?case
  proof (cases "0 < n \<and> cr_pos c < cr_size c \<and> cr_blockSize c \<noteq> 0")
    case True
    define i where "i = go_quot (cr_pos c) (cr_blockSize c)"
    define off where "off = go_rem (cr_pos c) (cr_blockSize c)"
    define avail where "avail = (if i = cr_numBlocks c - 1 \<and> go_rem (cr_size c) (cr_blockSize c) \<noteq> 0
                 then go_rem (cr_size c) (cr_blockSize c) else cr_blockSize c) - off"
    define t where "t = (if avail < int n then nat avail else n)"
    have "\<not> avail \<le> 0 \<Longrightarrow> 0 < t" using True by (simp add: t_def)
    then show ?thesis
      using less.prems True IH [of _ _ t] unfolding Read_loop.simps [of rb c n acc] Let_def
        i_def [symmetric] off_def [symmetric] avail_def [symmetric] t_def [symmetric]
      by (auto split: if_splits option.splits sum.splits) (metis getBlock_info)+
  qed (use less.prems in \<open>auto simp: Read_loop.simps [of rb c n acc] Let_def split: if_splits\<close>)
qed

lemma CachedReader_names:
  "CachedReader_Read rb c n = Some (c', b, e) \<Longrightarrow> CachedReader_Name c' = CachedReader_Name c"
  "CachedReader_Seek c off wh = (c', pos, e) \<Longrightarrow> CachedReader_Name c' = CachedReader_Name c"
  "CachedReader_Write c bs = (c', k, e) \<Longrightarrow> CachedReader_Name c' = CachedReader_Name c"
  by (auto simp: CachedReader_Read_def CachedReader_Seek_def CachedReader_Write_def CachedReader_Name_def Let_def
      dest!: Read_loop_info split: if_splits)

text \<open>The table still refers to this file: what an operation that writes a handle back relies on.\<close>

definition holds :: "int \<Rightarrow> fileHandle \<Rightarrow> 'w Backend \<Rightarrow> bool" where
  "holds handle f s \<longleftrightarrow>
     (if handle = BlockDeviceHandle then map_option bd_fileHandle (be_bdHandle s) = Some f
      else handle_at (int32 (handle - 1)) s = Some (Some (HFile f)))"

lemma holds_frame:
  "be_handles s' = be_handles s \<Longrightarrow> be_bdHandle s' = be_bdHandle s \<Longrightarrow> holds handle f s' = holds handle f s"
  by (simp add: holds_def handle_at_def)

lemma handle_at_mem: "handle_at i s = Some (Some h) \<Longrightarrow> Some h \<in> set (be_handles s)"
  by (metis (no_types, lifting) handle_at_def nat_less_iff nth_mem option.distinct(1) option.inject)

lemma getFile_inv:
  assumes "backend_inv os s0 s" "getFile now handle s = Some (s', fo)"
  shows "backend_inv os s0 s' \<and> (\<forall>f. fo = Some f \<longrightarrow> holds handle f s')"
  using assms
  by (auto simp: getFile_def holds_def handle_at_def Let_def inv_lastUsed
      split: if_splits option.splits fs_handle.splits)

text \<open>Handles that \<^verbatim>\<open>getFile\<close> can look up: it checks for negative ones itself.\<close>

definition usable_handle :: "int \<Rightarrow> bool" where
  "usable_handle h \<longleftrightarrow> h \<le> 0 \<or> 0 \<le> int32 (h - 1) \<and> int32 (h - 1) < int maxHandles"

lemma getFile_usable:
  "backend_inv os s0 s \<Longrightarrow> getFile now h s = Some (s', Some f) \<Longrightarrow> usable_handle h"
  by (auto simp: backend_inv_def table_ok_def getFile_def usable_handle_def handle_at_def Let_def split: if_splits)

lemma putFile_inv:
  assumes "backend_inv os s0 s" "holds handle f s" "ident f' = ident f"
  shows "backend_inv os s0 (putFile handle f' s)"
proof (cases "handle = BlockDeviceHandle")
  case True
  then show ?thesis using assms(1,2) ident_eq(3) [OF assms(3), of s0] by (auto simp: backend_inv_def holds_def putFile_def)
next
  case False
  let ?i = "nat (int32 (handle - 1))"
  have "be_handles s ! ?i = Some (HFile f)" "?i < length (be_handles s)"
    using assms(2) False by (auto simp: holds_def handle_at_def split: if_splits)
  then have "table_ok s0 ((be_handles s)[?i := Some (HFile f')])"
    using table_ok_same [OF inv_table_ok [OF assms(1)]] assms(3) by blast
  then show ?thesis using False inv_table [OF assms(1)] by (simp add: putFile_def)
qed

lemmas sys_plain = sys_inv [OF _ _ allowed_plain(1)] sys_inv [OF _ _ allowed_plain(2)]
  sys_inv [OF _ _ allowed_plain(3)] sys_inv [OF _ _ allowed_plain(4)] sys_inv [OF _ _ allowed_plain(5) [THEN iffD2]]

lemma sys_holds: "sys c g s = (s', r) \<Longrightarrow> holds h f s' = holds h f s"
  using sys_frame holds_frame by metis

lemma fo_Read_keeps:
  "backend_inv os s0 s \<Longrightarrow> holds h f s \<Longrightarrow> fo_Read os obj n s = Some (s', obj', b, e) \<Longrightarrow>
   backend_inv os s0 s' \<and> holds h f s' \<and> fo_id obj' = fo_id obj"
  by (auto simp: fo_Read_def fo_Name_def fo_id_def sys_holds dest: CachedReader_names sys_plain
      split: FileObject.splits prod.splits option.splits)

lemma fo_Seek_keeps:
  "backend_inv os s0 s \<Longrightarrow> holds h f s \<Longrightarrow> fo_Seek os obj off wh s = (s', obj', pos, e) \<Longrightarrow>
   backend_inv os s0 s' \<and> holds h f s' \<and> fo_id obj' = fo_id obj"
  by (auto simp: fo_Seek_def fo_Name_def fo_id_def sys_holds dest: CachedReader_names sys_plain
      split: FileObject.splits prod.splits)

lemma fo_Write_keeps:
  "backend_inv os s0 s \<Longrightarrow> holds h f s \<Longrightarrow> \<not> be_readOnly s0 \<Longrightarrow> fo_Write os obj bs s = (s', obj', k, e) \<Longrightarrow>
   backend_inv os s0 s' \<and> holds h f s' \<and> fo_id obj' = fo_id obj"
  by (auto simp: fo_Write_def fo_Name_def fo_id_def sys_holds dest: CachedReader_names sys_plain
      split: FileObject.splits prod.splits)

lemma fo_Close_inv: "backend_inv os s0 s \<Longrightarrow> backend_inv os s0 (fo_Close os obj s)"
  by (auto simp: fo_Close_def split: FileObject.split intro: sys_fst_inv)

lemma handle_Close_inv: "backend_inv os s0 s \<Longrightarrow> backend_inv os s0 (handle_Close os h s)"
  by (simp add: handle_Close_def fo_Close_inv split: fs_handle.split)

lemma sys_handles: "be_handles (fst (sys c g s)) = be_handles s"
  by (simp add: sys_def split: prod.split)

lemma handle_Close_handles: "be_handles (handle_Close os h s) = be_handles s"
  by (simp add: handle_Close_def fo_Close_def sys_handles split: fs_handle.split FileObject.split)

lemma freeHandle_inv:
  assumes "backend_inv os s0 s" "freeHandle os handle s = Some (s', r)"
  shows "backend_inv os s0 s'"
proof -
  have "backend_inv os s0 (s1\<lparr>be_handles := (be_handles s1)[i := None]\<rparr>)"
    if "backend_inv os s0 s1" for s1 :: "'a Backend" and i
    using inv_table [OF that] table_ok_None [OF inv_table_ok [OF that]] by blast
  then show ?thesis using assms handle_Close_inv [OF assms(1)]
    by (auto simp: freeHandle_def Let_def split: if_splits option.splits)
qed

section \<open>Operations on open files\<close>

abbreviation keeps :: "'w OS \<Rightarrow> 'w Backend \<Rightarrow> ('a \<Rightarrow> bool) \<Rightarrow> ('w Backend \<times> 'a) option \<Rightarrow> bool" where
  "keeps os s0 Q r \<equiv> post (\<lambda>(s, x). backend_inv os s0 s \<and> Q x) r"

lemma keepsD: "keeps os s0 Q r \<Longrightarrow> r = Some (s, x) \<Longrightarrow> backend_inv os s0 s \<and> Q x"
  by (simp add: post_def)

lemma keeps_Some: "backend_inv os s0 s \<Longrightarrow> Q x \<Longrightarrow> keeps os s0 Q (Some (s, x))"
  by (simp add: post_def)

lemmas keeps_rules = keeps_Some post_rules

text \<open>The file changes its position or its write buffer, never its name or whether it may be written.\<close>

lemma putFile_keeps:
  "backend_inv os s0 s \<Longrightarrow> holds h f s \<Longrightarrow> fo_id obj = fo_id (fh_obj f) \<Longrightarrow>
   backend_inv os s0 (putFile h (f\<lparr>fh_obj := obj\<rparr>) s)"
  "backend_inv os s0 s \<Longrightarrow> holds h f s \<Longrightarrow> backend_inv os s0 (putFile h (f\<lparr>fh_wr := wr\<rparr>) s)"
  by (auto simp: ident_def intro: putFile_inv)

lemma holds_readOnly:
  assumes "backend_inv os s0 s" "holds h f s" "be_readOnly s0"
  shows "fh_readOnly f"
proof (cases "h = BlockDeviceHandle")
  case True
  then show ?thesis using assms unfolding backend_inv_def holds_def file_ok_def by auto
next
  case False
  then have "Some (HFile f) \<in> set (be_handles s)" using assms(2) handle_at_mem by (simp add: holds_def)
  then have "handle_ok s0 (HFile f)" using inv_table_ok [OF assms(1)] unfolding table_ok_def by blast
  then show ?thesis using assms(3) by (simp add: handle_ok_def file_ok_def)
qed

lemma Backend_Read_keeps:
  "backend_inv os s0 s \<Longrightarrow> keeps os s0 (\<lambda>_. True) (Backend_Read os now h sz s)"
  unfolding Backend_Read_def
  by (intro keeps_rules TrueI; (blast intro: putFile_keeps dest: getFile_inv fo_Read_keeps)?)

lemma Backend_WriteStart_keeps:
  "backend_inv os s0 s \<Longrightarrow> keeps os s0 (\<lambda>e. e = None \<longrightarrow> \<not> be_readOnly s0 \<and> usable_handle h) (Backend_WriteStart now h s)"
  unfolding Backend_WriteStart_def
  by (intro keeps_rules impI conjI; (blast intro: putFile_keeps dest: getFile_inv holds_readOnly getFile_usable)?)

lemma putFile_twice:
  "backend_inv os s0 s \<Longrightarrow> holds h f s \<Longrightarrow> fo_id obj = fo_id (fh_obj f) \<Longrightarrow>
   fo_id obj' = fo_id (fh_obj (f\<lparr>fh_obj := obj\<rparr>)) \<Longrightarrow>
   backend_inv os s0 (putFile h (f\<lparr>fh_obj := obj\<rparr>\<lparr>fh_obj := obj'\<rparr>) s)"
  using putFile_keeps(1) [of os s0 s h f obj'] by simp

lemma Backend_WriteChunk_keeps:
  "backend_inv os s0 s \<Longrightarrow> keeps os s0 (\<lambda>_. True) (Backend_WriteChunk now h nr sz tot b s)"
  unfolding Backend_WriteChunk_def
  by (intro keeps_rules TrueI; (blast intro: putFile_keeps dest: getFile_inv)?)

lemma Backend_CompleteWrite_keeps:
  "backend_inv os s0 s \<Longrightarrow> \<not> be_readOnly s0 \<Longrightarrow> keeps os s0 (\<lambda>_. True) (Backend_CompleteWrite os now h s)"
  unfolding Backend_CompleteWrite_def
  by (intro keeps_rules TrueI;
      (blast intro: putFile_keeps putFile_twice dest: getFile_inv fo_Seek_keeps fo_Write_keeps)?)

lemma Backend_Lseek_keeps:
  "backend_inv os s0 s \<Longrightarrow> keeps os s0 (\<lambda>_. True) (Backend_Lseek os now h off wh s)"
  unfolding Backend_Lseek_def
  by (intro keeps_rules TrueI; (blast intro: putFile_keeps dest: getFile_inv fo_Seek_keeps)?)

lemma Backend_Bread_keeps:
  "backend_inv os s0 s \<Longrightarrow> keeps os s0 (\<lambda>_. True) (Backend_Bread os now h nr n s)"
  unfolding Backend_Bread_def
  by (intro keeps_rules TrueI;
      (blast intro: putFile_keeps putFile_twice dest: getFile_inv fo_Seek_keeps fo_Read_keeps)?)

lemma Backend_BwriteStart_keeps:
  "backend_inv os s0 s \<Longrightarrow> keeps os s0 (\<lambda>e. e = None \<longrightarrow> \<not> be_readOnly s0 \<and> usable_handle h) (Backend_BwriteStart now h nr n s)"
  unfolding Backend_BwriteStart_def
  by (intro keeps_rules impI conjI; (blast intro: putFile_keeps dest: getFile_inv holds_readOnly getFile_usable)?)

lemma Backend_Close_keeps:
  "backend_inv os s0 s \<Longrightarrow> keeps os s0 (\<lambda>_. True) (Backend_Close os h s)"
  unfolding Backend_Close_def
  by (intro keeps_rules TrueI; (blast dest: freeHandle_inv)?)

section \<open>Operations on names\<close>

lemma find_file_Some:
  "find_file i p hs = Some (j, f) \<Longrightarrow> \<exists>k < length hs. j = i + k \<and> hs ! k = Some (HFile f) \<and> fo_Name (fh_obj f) = p"
proof (induction hs arbitrary: i)
  case (Cons h hs)
  show ?case
  proof (cases "find_file (Suc i) p hs = Some (j, f)")
    case True
    then obtain k where "k < length hs" "j = Suc i + k" "hs ! k = Some (HFile f)" "fo_Name (fh_obj f) = p"
      using Cons.IH by blast
    then show ?thesis by (intro exI [of _ "Suc k"]) simp
  next
    case False
    then show ?thesis using Cons.prems
      by (intro exI [of _ 0]) (auto split: option.splits fs_handle.splits if_splits)
  qed
qed simp

lemma find_file_None: "find_file i p hs = None \<Longrightarrow> Some (HFile f) \<in> set hs \<Longrightarrow> fo_Name (fh_obj f) \<noteq> p"
  by (induction hs arbitrary: i) (auto split: option.splits fs_handle.splits if_splits)

lemma getFileByPath_inv:
  "backend_inv os s0 s \<Longrightarrow> getFileByPath now p s = (s', r) \<Longrightarrow> backend_inv os s0 s'"
  by (auto simp: getFileByPath_def inv_lastUsed split: option.splits)

lemma fo_Stat_inv:
  "backend_inv os s0 s \<Longrightarrow> fo_Stat os obj s = (s', r) \<Longrightarrow> backend_inv os s0 s'"
  by (auto simp: fo_Stat_def dest: sys_plain split: FileObject.splits)

lemma allowed_inside:
  assumes "inside (be_fsRoot s0) p"
  shows "allowed s0 (CStat p)" "allowed s0 (CReadDir p)" "allowed s0 (CSnapshot p)"
    "allowed s0 (CMkdir p) \<longleftrightarrow> \<not> be_readOnly s0" "allowed s0 (CRemove p) \<longleftrightarrow> \<not> be_readOnly s0"
    "allowed s0 (CMkdirAll (Dir p)) \<longleftrightarrow> \<not> be_readOnly s0"
    "name_ok e \<Longrightarrow> allowed s0 (CEntryInfo p e)"
  using assms by (auto simp: allowed_def inside_served)

lemma inv_config:
  assumes "backend_inv os s0 s"
  shows "be_readOnly s = be_readOnly s0" "be_enableCompression s = be_enableCompression s0"
    "be_sectorSize s = be_sectorSize s0"
  using assms by (simp_all add: backend_inv_def config_def)

lemma stat_ok_size: "stat_ok (st\<lparr>si_Size := a, si_Hisize := b\<rparr>) = stat_ok st"
  by (simp add: stat_ok_def)

lemma Backend_Getstat_inv:
  assumes "backend_inv os s0 s" "Backend_Getstat os now p s = (s', st, e)"
  shows "backend_inv os s0 s' \<and> stat_ok st"
proof (cases "if p = [] then be_bdHandle s else None")
  case None
  show ?thesis
  proof (cases "resolvePath (be_fsRoot s) (OS_Getwd os (be_world s)) p")
    case (Some q)
    obtain s1 f where g: "getFileByPath now q s = (s1, f)" by fastforce
    have s1: "backend_inv os s0 s1" using getFileByPath_inv [OF assms(1) g] .
    have "backend_inv os s0 s2" if "sys (CStat q) (OS_Stat os q) s1 = (s2, r)" for s2 r
      using sys_inv [OF s1 that] allowed_inside(1) resolve_inside [OF assms(1) Some] by blast
    then show ?thesis using assms(2) None Some g fo_Stat_inv [OF s1]
      by (auto simp: Backend_Getstat_def split: prod.splits option.splits sum.splits)
  qed (use assms None in \<open>auto simp: Backend_Getstat_def\<close>)
qed (use assms in \<open>auto simp: Backend_Getstat_def Let_def stat_ok_size\<close>)

lemma name_op_inv:
  assumes "backend_inv os s0 s"
  shows "Backend_Mkdir os p s = (s', e) \<Longrightarrow> backend_inv os s0 s'"
    "Backend_Remove os p s = (s', e) \<Longrightarrow> backend_inv os s0 s'"
    "Backend_Rmdir os p s = (s', e) \<Longrightarrow> backend_inv os s0 s'"
  using assms inv_config(1) [OF assms] resolve_inside [OF assms]
  by (auto simp: Backend_Mkdir_def Backend_Remove_def Backend_Rmdir_def allowed_inside Let_def
      dest: sys_inv [OF assms] split: if_splits option.splits prod.splits)

lemma image_contents_inv:
  assumes "backend_inv os s0 s" "image_contents os p s = (s', r)" "allowed s0 (CSnapshot p)"
  shows "backend_inv os s0 s' \<and> be_handles s' = be_handles s"
  using assms sys_inv [OF assms(1) _ assms(3)] sys_frame(1) unfolding image_contents_def
  by (metis prod.inject)

text \<open>Directories.\<close>

lemma getDir_inv:
  assumes "backend_inv os s0 s" "getDir now handle s = Some (s', Some d)"
  shows "backend_inv os s0 s' \<and> handle_ok s0 (HDir d)"
proof -
  have "Some (HDir d) \<in> set (be_handles s)" "\<exists>i. s' = s\<lparr>be_lastUsed := (be_lastUsed s)[i := now]\<rparr>"
    using assms(2) by (auto simp: getDir_def Let_def intro: handle_at_mem split: option.splits fs_handle.splits)
  then show ?thesis using inv_table_ok [OF assms(1)] inv_lastUsed [OF assms(1)] unfolding table_ok_def by blast
qed

lemma getDir_None:
  "backend_inv os s0 s \<Longrightarrow> getDir now handle s = Some (s', None) \<Longrightarrow> backend_inv os s0 s'"
  by (auto simp: getDir_def Let_def split: option.splits fs_handle.splits)

lemma putDir_inv:
  assumes "backend_inv os s0 s" "handle_ok s0 (HDir d)"
  shows "backend_inv os s0 (putDir h (d\<lparr>dh_index := i\<rparr>) s)"
  unfolding putDir_def using assms
  by (intro inv_table table_ok_add inv_table_ok) (simp_all add: handle_ok_def may_add_def)

lemma dir_entry:
  assumes "handle_ok s0 (HDir d)" "\<not> length (dh_entries d) \<le> dh_index d"
  shows "allowed s0 (CEntryInfo (dh_dirPath d) (dh_entries d ! dh_index d))"
    "allowed s0 (CSnapshot (Join (dh_dirPath d) (dh_entries d ! dh_index d)))"
    "length (dh_entries d ! dh_index d) \<le> 255"
  using assms by (simp_all add: handle_ok_def allowed_inside inside_Join)

definition dread_ok :: "dread_result \<Rightarrow> bool" where
  "dread_ok r \<longleftrightarrow> (case r of (ok, name, st, e) \<Rightarrow> stat_ok st \<and> length name \<le> 259)"

lemma dread_ok_intros:
  "dread_ok (ok, [], zero_stat, e)"
  "length name \<le> 255 \<Longrightarrow> dread_ok (ok, name @ ''.iso'', StatInfoFromFile fi, e)"
  "length name \<le> 255 \<Longrightarrow> dread_ok (ok, name, StatInfoFromFile fi, e)"
  by (simp_all add: dread_ok_def)

lemma dread_step:
  "backend_inv os s0 s \<Longrightarrow> handle_ok s0 (HDir d) \<Longrightarrow> \<not> length (dh_entries d) \<le> dh_index d \<Longrightarrow>
   sys (CEntryInfo (dh_dirPath d) (dh_entries d ! dh_index d)) g (putDir h (d\<lparr>dh_index := i\<rparr>) s) = (s', r) \<Longrightarrow>
   backend_inv os s0 s'"
  by (rule sys_inv [OF putDir_inv _ dir_entry(1)])

lemma Backend_Dread_keeps:
  "backend_inv os s0 s \<Longrightarrow> keeps os s0 dread_ok (Backend_Dread os now h s)"
  unfolding Backend_Dread_def
  by (intro keeps_rules dread_ok_intros;
      (blast intro: dir_entry(3) dest: getDir_None getDir_inv dread_step image_contents_inv [OF _ _ dir_entry(2)])?)

section \<open>Opening\<close>

definition valid_handle :: "int \<Rightarrow> bool" where
  "valid_handle h \<longleftrightarrow> 1 \<le> h \<and> h \<le> int maxHandles"

lemma alloc_scan_Inl: "alloc_scan lu i k ts hs = Inl j \<Longrightarrow> j < i + length hs"
  by (induction lu i k ts hs rule: alloc_scan.induct) (auto split: if_splits)

lemma alloc_scan_Inr: "alloc_scan lu i k ts hs = Inr (j, t) \<Longrightarrow> j = k \<or> j < i + length hs"
  by (induction lu i k ts hs rule: alloc_scan.induct) (auto split: if_splits)

lemma set_handle_inv:
  assumes "backend_inv os s0 s" "may_add h (be_handles s)" "handle_ok s0 h"
  shows "backend_inv os s0 (set_handle i h now s)"
  using inv_lastUsed [OF inv_table [OF assms(1) table_ok_add [OF inv_table_ok [OF assms(1)] assms(2,3)]], of i]
  by (simp add: set_handle_def)

lemma allocHandle_inv:
  assumes "backend_inv os s0 s" "may_add h (be_handles s)" "handle_ok s0 h"
    "allocHandle os now h s = (s', k)"
  shows "backend_inv os s0 s' \<and> (\<not> k < 0 \<longrightarrow> valid_handle k)"
proof (cases "alloc_scan (be_lastUsed s) 0 0 now (be_handles s)")
  case (Inl i)
  have "length (be_handles s) = 64" using inv_table_ok [OF assms(1)] by (simp add: table_ok_def)
  then have "i < 64" using alloc_scan_Inl [OF Inl] by simp
  then show ?thesis using assms Inl set_handle_inv [OF assms(1-3)] by (auto simp: allocHandle_def valid_handle_def)
next
  case (Inr r)
  obtain j t where r: "r = (j, t)" by fastforce
  let ?s = "case be_handles s ! j of Some old \<Rightarrow> handle_Close os old s | None \<Rightarrow> s"
  have "length (be_handles s) = 64" using inv_table_ok [OF assms(1)] by (simp add: table_ok_def)
  then have j: "j < 64" using alloc_scan_Inr [of _ 0 0 now _ j t] Inr r by fastforce
  have "backend_inv os s0 ?s" "be_handles ?s = be_handles s"
    using assms(1) by (auto simp: handle_Close_handles intro: handle_Close_inv split: option.split)
  then have "backend_inv os s0 (set_handle j h now ?s)" using set_handle_inv assms(2,3) by metis
  then show ?thesis using assms Inr r j
    by (auto simp: allocHandle_def valid_handle_def EMFILE_def Let_def split: if_splits)
qed

text \<open>No other handle of the file that is about to be opened stands in the way.\<close>

definition addable :: "string \<Rightarrow> int \<Rightarrow> fs_handle option list \<Rightarrow> bool" where
  "addable p flag hs \<longleftrightarrow> (\<forall>g. Some (HFile g) \<in> set hs \<longrightarrow> fo_Name (fh_obj g) = p \<longrightarrow>
     fh_readOnly g \<and> \<not> wants_write flag)"

lemma getFileState_addable:
  assumes "exclusive (be_handles s)" "getFileState p s = (isOpen, fileReadOnly)"
    "\<not> (wants_write flag \<and> (b \<or> isOpen))" "\<not> (\<not> wants_write flag \<and> isOpen \<and> \<not> fileReadOnly)"
  shows "addable p flag (be_handles s)"
proof (cases "find_file 0 p (be_handles s)")
  case None
  then show ?thesis using find_file_None by (auto simp: addable_def)
next
  case (Some r)
  obtain i f where r: "r = (i, f)" by fastforce
  then obtain k where k: "k < length (be_handles s)" "be_handles s ! k = Some (HFile f)" "fo_Name (fh_obj f) = p"
    using find_file_Some [of 0 p "be_handles s" i f] Some by auto
  have f: "fh_readOnly f" "\<not> wants_write flag" using assms(2-4) Some r by (auto simp: getFileState_def)
  have "fh_readOnly g" if g: "Some (HFile g) \<in> set (be_handles s)" "fo_Name (fh_obj g) = p" for g
  proof -
    obtain j where j: "j < length (be_handles s)" "be_handles s ! j = Some (HFile g)"
      using g(1) by (auto simp: in_set_conv_nth)
    show ?thesis
    proof (cases "j = k")
      case False
      then have "shareable g f" using exclusiveD [OF assms(1) j(1) k(1) False j(2) k(2)] by simp
      then show ?thesis using g(2) k(3) by (simp add: shareable_def)
    qed (use j k f in simp)
  qed
  then show ?thesis using f by (simp add: addable_def)
qed

lemma may_add_plain:
  "addable p flag hs \<Longrightarrow> may_add (HFile (newFileHandle (OsFile fid p) (flag AND (O_RDWR OR O_WRONLY) = 0))) hs"
  by (auto simp: may_add_def addable_def shareable_def newFileHandle_def fo_Name_def wants_write_def)

lemma may_add_image:
  assumes "table_ok s0 hs" "CachedReader_Name c = []"
  shows "may_add (HFile (newFileHandle (ImageFile c) True)) hs"
  unfolding may_add_def
proof (intro allI impI)
  fix f g
  assume "HFile (newFileHandle (ImageFile c) True) = HFile f" "Some (HFile g) \<in> set hs"
  moreover from this have "handle_ok s0 (HFile g)" using assms(1) unfolding table_ok_def by blast
  ultimately show "shareable f g"
    using assms(2) by (auto simp: shareable_def newFileHandle_def fo_Name_def handle_ok_def)
qed

lemma compression_Open_name: "compression_Open K os_Open p n = Some (Some c) \<Longrightarrow> CachedReader_Name c = []"
  using compression_Open_info by (simp add: CachedReader_Name_def CompressedInfo_FileInfo_def empty_info_def)

definition open_ok :: "open_result \<Rightarrow> bool" where
  "open_ok r \<longleftrightarrow> (case r of (h, st, e) \<Rightarrow> stat_ok st \<and> (e = None \<and> 0 \<le> h \<longrightarrow> valid_handle h))"

lemma open_ok_intros:
  "open_ok (h, zero_stat, Some e)"
  "h < 0 \<Longrightarrow> open_ok (h, zero_stat, None)"
  "valid_handle h \<Longrightarrow> open_ok (h, StatInfoFromFile fi, None)"
  by (simp_all add: open_ok_def)

lemma opened_keeps:
  assumes "backend_inv os s0 s" "allowed s0 c" "valid_handle h"
  shows "keeps os s0 open_ok (opened h (sys c g s))"
proof -
  obtain s' r where r: "sys c g s = (s', r)" by fastforce
  then show ?thesis using sys_inv [OF assms(1) r assms(2)] assms(3)
    by (cases r) (auto simp: opened_def post_def open_ok_def)
qed

lemma readdir_ok:
  assumes "backend_inv os s0 s" "inside (be_fsRoot s0) p" "sys (CReadDir p) (OS_ReadDir os p) s = (s', Inr es)"
  shows "backend_inv os s0 s'"
    "handle_ok s0 (HDir \<lparr>dh_dirPath = p, dh_entries = es, dh_index = 0\<rparr>)"
proof -
  show "backend_inv os s0 s'" using sys_inv [OF assms(1,3)] allowed_inside(2) [OF assms(2)] by blast
  have "os_ok os" using assms(1) by (simp add: backend_inv_def)
  moreover obtain w where "OS_ReadDir os p (be_world s) = (w, Inr es)"
    using assms(3) by (auto simp: sys_def split: prod.splits)
  ultimately show "handle_ok s0 (HDir \<lparr>dh_dirPath = p, dh_entries = es, dh_index = 0\<rparr>)"
    using assms(2) unfolding os_ok_def handle_ok_def by fastforce
qed

lemma open_dir_keeps:
  assumes "backend_inv os s0 s" "inside (be_fsRoot s0) p"
  shows "keeps os s0 open_ok (open_dir os now p s)"
proof -
  obtain s1 r where r: "sys (CReadDir p) (OS_ReadDir os p) s = (s1, r)" by fastforce
  show ?thesis
  proof (cases r)
    case (Inl e)
    then show ?thesis using sys_inv [OF assms(1) r] allowed_inside(2) [OF assms(2)] r
      by (auto simp: open_dir_def intro: keeps_rules open_ok_intros)
  next
    case (Inr es)
    let ?d = "HDir \<lparr>dh_dirPath = p, dh_entries = es, dh_index = 0\<rparr>"
    have ok: "backend_inv os s0 s1" "handle_ok s0 ?d" using readdir_ok assms r Inr by blast+
    obtain s2 k where k: "allocHandle os now ?d s1 = (s2, k)" by fastforce
    have "backend_inv os s0 s2" "\<not> k < 0 \<Longrightarrow> valid_handle k"
      using allocHandle_inv [OF ok(1) _ ok(2) k] by (auto simp: may_add_def)
    then show ?thesis using r Inr k allowed_inside(1) [OF assms(2)]
      by (auto simp: open_dir_def intro: keeps_rules open_ok_intros opened_keeps)
  qed
qed

lemma pathExists_inv:
  assumes "backend_inv os s0 s" "served (be_fsRoot s0) p" "pathExists os p s = (s', b)"
  shows "backend_inv os s0 s' \<and> be_handles s' = be_handles s"
proof -
  obtain s1 r where r: "sys (CStat p) (OS_Stat os p) s = (s1, r)" by fastforce
  then have "s' = s1" using assms(3) by (auto simp: pathExists_def split: sum.splits)
  then show ?thesis using sys_inv [OF assms(1) r] sys_frame(1) [OF r] assms(2) by (simp add: allowed_def)
qed

lemma open_image_inv:
  assumes "backend_inv os s0 s" "inside (be_fsRoot s0) p" "open_image os now p s = Some (s', res)"
    "be_enableCompression s0"
  shows "backend_inv os s0 s' \<and> (res = None \<and> be_handles s' = be_handles s \<or> (\<exists>r. res = Some r \<and> open_ok r))"
proof (cases "ToLower (Ext p) = ''.iso''")
  case True
  let ?q = "TrimSuffix p (Ext p)"
  have q: "served (be_fsRoot s0) ?q" "allowed s0 (CSnapshot ?q)"
    using image_served [OF assms(2) True] by (simp_all add: allowed_def)
  obtain s1 b where b: "pathExists os ?q s = (s1, b)" by fastforce
  note s1 = pathExists_inv [OF assms(1) q(1) b]
  obtain s2 fl where f: "image_contents os ?q s1 = (s2, fl)" by fastforce
  have s2: "backend_inv os s0 s2" "be_handles s2 = be_handles s"
    using image_contents_inv [OF conjunct1 [OF s1] f q(2)] s1 by simp_all
  have image: "backend_inv os s0 s3 \<and> (\<not> k < 0 \<longrightarrow> valid_handle k)"
    if "compression_Open (lib os) os_Open ?q n = Some (Some c)"
      "allocHandle os now (HFile (newFileHandle (ImageFile c) True)) s2 = (s3, k)" for os_Open n c s3 k
    using allocHandle_inv [OF s2(1) _ _ that(2)] may_add_image [OF inv_table_ok [OF s2(1)]]
      compression_Open_name [OF that(1)] assms(4) by (simp add: handle_ok_def file_ok_def newFileHandle_def)
  show ?thesis using assms(3) True b f s1 s2 image
    by (auto simp: open_image_def Let_def open_ok_def split: if_splits option.splits prod.splits)
qed (use assms in \<open>simp add: open_image_def\<close>)

lemma open_plain_keeps:
  assumes "backend_inv os s0 s" "inside (be_fsRoot s0) p" "addable p flag (be_handles s)"
    "be_readOnly s0 \<longrightarrow> \<not> mutating (COpenFile p flag)"
  shows "keeps os s0 open_ok (open_plain os now p flag ex s)"
proof -
  define s1 where "s1 = (if flag AND O_CREATE \<noteq> 0
                 then fst (sys (CMkdirAll (Dir p)) (OS_MkdirAll os (Dir p)) s) else s)"
  have "flag AND O_CREATE = (flag AND (O_CREATE OR O_TRUNC OR O_APPEND)) AND O_CREATE"
    by (simp add: and.assoc)
  then have "flag AND O_CREATE \<noteq> 0 \<Longrightarrow> flag AND (O_CREATE OR O_TRUNC OR O_APPEND) \<noteq> 0" by (metis and_zero_eq and.commute)
  then have s1: "backend_inv os s0 s1" "be_handles s1 = be_handles s"
    using assms(1,4) sys_fst_inv [OF assms(1)] allowed_inside(6) [OF assms(2)]
    by (auto simp: s1_def sys_handles)
  obtain s2 r where r: "sys (COpenFile p flag) (OS_OpenFile os p flag) s1 = (s2, r)" by fastforce
  have s2: "backend_inv os s0 s2" "be_handles s2 = be_handles s"
    using sys_inv [OF s1(1) r] sys_frame(1) [OF r] s1(2) assms(2,4) by (auto simp: allowed_def)
  show ?thesis
  proof (cases r)
    case (Inl e)
    then show ?thesis unfolding open_plain_def Let_def s1_def [symmetric] r
      using s2 assms(1) by (auto intro: keeps_rules open_ok_intros)
  next
    case (Inr fid)
    let ?h = "HFile (newFileHandle (OsFile fid p) (flag AND (O_RDWR OR O_WRONLY) = 0))"
    obtain s3 k where k: "allocHandle os now ?h s2 = (s3, k)" by fastforce
    have "handle_ok s0 ?h"
      using assms(2,4) inside_ne by (auto simp: handle_ok_def file_ok_def fo_id_def newFileHandle_def fo_Name_def wants_write_def)
    then have s3: "backend_inv os s0 s3" "\<not> k < 0 \<Longrightarrow> valid_handle k"
      using allocHandle_inv [OF s2(1) _ _ k] may_add_plain [OF assms(3), of fid] s2(2) by simp_all
    have "backend_inv os s0 (fst (sys (CClose fid) (OS_Close os fid) s3))"
      by (intro sys_fst_inv s3(1)) simp
    then show ?thesis unfolding open_plain_def Let_def s1_def [symmetric] r Inr prod.case sum.case k
      using s3 assms(1) by (intro keeps_rules open_ok_intros opened_keeps) simp_all
  qed
qed

lemma Backend_Open_keeps:
  assumes inv: "backend_inv os s0 s" and fl: "flag = udpfsFlagsToOSFlags fl"
  shows "keeps os s0 open_ok (Backend_Open os now path flag isDir s)"
proof (cases "resolvePath (be_fsRoot s) (OS_Getwd os (be_world s)) path")
  case None
  then show ?thesis using inv by (auto simp: Backend_Open_def intro: keeps_rules open_ok_intros)
next
  case (Some p)
  note p = resolve_inside [OF inv Some]
  obtain isOpen fileReadOnly where st: "getFileState p s = (isOpen, fileReadOnly)" by fastforce
  obtain s1 ex where ex: "(if p \<noteq> [] then pathExists os p s else (s, False)) = (s1, ex)" by fastforce
  have s1: "backend_inv os s0 s1" "be_handles s1 = be_handles s"
    using pathExists_inv [OF inv inside_served [OF p], of s1 ex] inside_ne [OF p] ex by simp_all
  show ?thesis
  proof (cases "wants_write flag \<and> (be_readOnly s0 \<or> isOpen) \<or> \<not> wants_write flag \<and> isOpen \<and> \<not> fileReadOnly")
    case True
    then show ?thesis using inv inv_config(1) [OF inv] Some st
      by (auto simp: Backend_Open_def Let_def intro: keeps_rules open_ok_intros)
  next
    case False
    then have w: "\<not> (wants_write flag \<and> (be_readOnly s0 \<or> isOpen))" "\<not> (\<not> wants_write flag \<and> isOpen \<and> \<not> fileReadOnly)"
      by blast+
    have add: "addable p flag (be_handles s)"
      using getFileState_addable [OF _ st w] inv_table_ok [OF inv] by (simp add: table_ok_def)
    have "be_readOnly s0 \<longrightarrow> \<not> mutating (COpenFile p flag)"
      using w(1) flags_write [of fl] unfolding fl by (simp only: mutating.simps) blast
    then have plain: "keeps os s0 open_ok (open_plain os now p flag ex s2)"
      if "backend_inv os s0 s2" "be_handles s2 = be_handles s" for s2
      using open_plain_keeps [OF that(1) p, of flag] add that(2) by simp
    have image: "keeps os s0 open_ok
        (case open_image os now p s1 of None \<Rightarrow> None | Some (s2, Some r) \<Rightarrow> Some (s2, r)
         | Some (s2, None) \<Rightarrow> open_plain os now p flag ex s2)" if "be_enableCompression s0"
    proof (cases "open_image os now p s1")
      case (Some x)
      then show ?thesis using open_image_inv [OF s1(1) p, of now "fst x" "snd x"] plain s1(2) that
        by (cases x) (auto intro: keeps_rules split: option.split)
    qed (simp add: post_None)
    show ?thesis
      unfolding Backend_Open_def Some option.case st Let_def prod.case inv_config(1) [OF inv] ex
      using False image plain [OF s1] open_dir_keeps [OF inv p] inv inv_config(2) [OF s1(1)]
      by (intro split_if [where R = "post Q" for Q]) simp_all
  qed
qed

end
