(* ===== verification/FsServer.thy ===== *)
theory FsServer
  imports FsInv UdpfsServer
begin

text \<open>
  The server with the backend behind it: the \<^verbatim>\<open>Backend\<close> meets the contract of the \<^verbatim>\<open>FS\<close> interface, so
  what the protocol layer keeps holds for the whole program from its start, whatever arrives.
\<close>

section \<open>The backend as the filesystem of a connection\<close>

definition backend_env :: "'w OS \<Rightarrow> int \<Rightarrow> ((int, cachedHandle) go_map \<Rightarrow> (int, cachedHandle) go_map) \<Rightarrow>
    'w Backend Env" where
  "backend_env os t it =
     \<lparr>fs_Open = Backend_Open os t, fs_Close = Backend_Close os, fs_Read = Backend_Read os t,
      fs_WriteStart = Backend_WriteStart t, fs_WriteChunk = Backend_WriteChunk t,
      fs_CompleteWrite = Backend_CompleteWrite os t, fs_Lseek = Backend_Lseek os t,
      fs_Dread = Backend_Dread os t, fs_Getstat = \<lambda>p s. Some (Backend_Getstat os t p s),
      fs_Mkdir = \<lambda>p s. Some (Backend_Mkdir os p s), fs_Remove = \<lambda>p s. Some (Backend_Remove os p s),
      fs_Rmdir = \<lambda>p s. Some (Backend_Rmdir os p s), fs_Bread = Backend_Bread os t,
      fs_BwriteStart = Backend_BwriteStart t, env_now = t, env_iter = it\<rparr>"

text \<open>Any time may be on the clock, and a map may be visited in any order.\<close>

definition backend_envs :: "'w OS \<Rightarrow> 'w Backend Env set" where
  "backend_envs os = {backend_env os t it | t it. \<forall>m. set (it m) = set m}"

lemma backend_env_iff:
  "E \<in> backend_envs os \<longleftrightarrow> (\<exists>t it. E = backend_env os t it \<and> (\<forall>m. set (it m) = set m))"
  by (auto simp: backend_envs_def)

lemma open_okD: "open_ok (h, st, e) \<Longrightarrow> stat_ok st \<and> (e = None \<and> 0 \<le> h \<longrightarrow> valid_handle h)"
  by (simp add: open_ok_def)

interpretation be: fs_contract "backend_envs os" "backend_inv os s0"
    "\<lambda>h. \<not> be_readOnly s0 \<and> usable_handle h" valid_handle
  for os :: "'w OS" and s0
  by unfold_locales
    (auto simp: backend_env_iff backend_env_def dread_ok_def
      dest: keepsD [OF Backend_Open_keeps [OF _ refl]] keepsD [OF Backend_Close_keeps]
        keepsD [OF Backend_Read_keeps] keepsD [OF Backend_WriteStart_keeps] keepsD [OF Backend_WriteChunk_keeps]
        keepsD [OF Backend_CompleteWrite_keeps] keepsD [OF Backend_Lseek_keeps] keepsD [OF Backend_Dread_keeps]
        keepsD [OF Backend_Bread_keeps] keepsD [OF Backend_BwriteStart_keeps] Backend_Getstat_inv name_op_inv
        open_okD)

section \<open>The start\<close>

lemma fold_opts_frame:
  "be_handles (fold apply_opt opts s) = be_handles s \<and> be_lastUsed (fold apply_opt opts s) = be_lastUsed s \<and>
   be_bdHandle (fold apply_opt opts s) = be_bdHandle s \<and> be_log (fold apply_opt opts s) = be_log s"
proof (induction opts arbitrary: s)
  case (Cons opt opts)
  then show ?case by (cases opt) simp_all
qed simp

lemma fold_opts_readOnly: "be_readOnly (fold apply_opt opts s) \<longleftrightarrow> be_readOnly s \<or> WithReadOnly \<in> set opts"
proof (induction opts arbitrary: s)
  case (Cons opt opts)
  then show ?case by (cases opt) auto
qed simp

text \<open>The backend a server starts with: an absolute root or none, an empty table, and a start-up that has only looked.\<close>

definition fresh :: "bool \<Rightarrow> 'w Backend \<Rightarrow> bool" where
  "fresh ro s \<longleftrightarrow> be_handles s = replicate maxHandles None \<and> be_lastUsed s = replicate maxHandles 0 \<and>
     be_readOnly s = ro \<and> (ro \<longrightarrow> list_all (\<lambda>c. \<not> mutating c) (be_log s))"

lemma mount_root_fresh:
  assumes "os_ok os" "fresh ro s" "mount_root os s = Inr s'"
  shows "fresh ro s' \<and> (be_fsRoot s' = [] \<or> IsAbs (be_fsRoot s')) \<and> be_bdHandle s' = be_bdHandle s"
proof (cases "be_fsRoot s = []")
  case False
  then obtain r s1 info where a: "Abs (OS_Getwd os (be_world s)) (be_fsRoot s) = Inr r"
    "sys (CStat r) (OS_Stat os r) s = (s1, Inr info)" "s' = s1\<lparr>be_fsRoot := r\<rparr>"
    using assms(3) by (auto simp: mount_root_def split: sum.splits prod.splits if_splits)
  have "IsAbs r"
    using a(1) assms(1) by (auto simp: Abs_def Clean_abs Join_abs os_ok_def split: if_splits sum.splits)
  then show ?thesis using sys_frame [OF a(2)] a(3) assms(2) by (simp add: fresh_def config_def)
qed (use assms in \<open>simp add: mount_root_def\<close>)

lemma mount_device_fresh:
  assumes "fresh ro s" "be_bdHandle s = None" "mount_device os s = Some (Inr s')"
  shows "fresh ro s' \<and> be_fsRoot s' = be_fsRoot s \<and>
    (\<forall>b. be_bdHandle s' = Some b \<longrightarrow> file_ok s' (bd_fileHandle b))"
proof (cases "be_blockDevice s = []")
  case False
  let ?mode = "if be_readOnly s then O_RDONLY else O_RDWR"
  obtain s1 fid s2 info where a: "sys (COpenFile (be_blockDevice s) ?mode) (OS_OpenFile os (be_blockDevice s) ?mode) s = (s1, Inr fid)"
    "sys (CFStat fid) (OS_FStat os fid) s1 = (s2, Inr info)"
    "s' = s2\<lparr>be_bdHandle := Some
                      \<lparr>bd_fileHandle = newFileHandle (OsFile fid (be_blockDevice s2)) (be_readOnly s2),
                       bd_totalSectorCount = go_quot (fi_size info) (be_sectorSize s2)\<rparr>\<rparr>"
    using assms(3) False unfolding mount_device_def Let_def by (auto split: sum.splits prod.splits)
  have "\<not> wants_write O_RDONLY" "O_RDONLY AND (O_CREATE OR O_TRUNC OR O_APPEND) = 0" by (simp_all add: wants_write_def)
  then show ?thesis using sys_frame [OF a(1)] sys_frame [OF a(2)] assms(1)
    unfolding a(3) by (auto simp: fresh_def file_ok_def fo_id_def newFileHandle_def config_def)
qed (use assms in \<open>simp add: mount_device_def\<close>)

lemma NewBackend_fresh:
  assumes "os_ok os" "NewBackend os opts w = Some (Inr s)"
  shows "fresh (WithReadOnly \<in> set opts) s" "be_fsRoot s = [] \<or> IsAbs (be_fsRoot s)"
    "be_bdHandle s = Some b \<Longrightarrow> file_ok s (bd_fileHandle b)"
proof -
  let ?s = "fold apply_opt opts (initial_backend w)"
  have init: "fresh (WithReadOnly \<in> set opts) ?s" "be_bdHandle ?s = None"
    by (simp_all add: fresh_def fold_opts_frame fold_opts_readOnly initial_backend_def)
  obtain s1 where s1: "mount_root os ?s = Inr s1" "mount_device os s1 = Some (Inr s)"
    using assms(2) by (auto simp: NewBackend_def Let_def split: sum.splits)
  note r = mount_root_fresh [OF assms(1) init(1) s1(1)]
  have "be_bdHandle s1 = None" using r init(2) by simp
  note d = mount_device_fresh [OF conjunct1 [OF r] this s1(2)]
  show "fresh (WithReadOnly \<in> set opts) s" "be_fsRoot s = [] \<or> IsAbs (be_fsRoot s)" using r d by auto
  show "file_ok s (bd_fileHandle b)" if "be_bdHandle s = Some b" using d that by blast
qed

lemma exclusive_empty: "exclusive (replicate n None)"
  by (simp add: exclusive_def)

lemma NewBackend_inv:
  assumes "os_ok os" "NewBackend os opts w = Some (Inr s)"
  shows "backend_inv os s s"
  using NewBackend_fresh [OF assms] assms(1) unfolding backend_inv_def fresh_def table_ok_def
  by (auto simp: exclusive_empty)

lemma Server_New_peers: "Server_New opts = Inr s \<Longrightarrow> sv_cMap s = []"
proof -
  have "sv_cMap (fold apply_server_opt opts s0) = sv_cMap s0" for s0 :: "'a option Server"
  proof (induction opts arbitrary: s0)
    case (Cons opt opts)
    then show ?case by (cases opt) (simp_all add: Let_def)
  qed simp
  then show "Server_New opts = Inr s \<Longrightarrow> sv_cMap s = []"
    by (auto simp: Server_New_def Let_def split: option.splits)
qed

lemma served_ok:
  assumes "os_ok os" "NewBackend os opts w = Some (Inr (sv_fs s0))" "Server_New sopts = Inr s0"
    "server_reachable (backend_envs os) s0 s"
  shows "be.server_ok os (sv_fs s0) s"
  using be.server_reachable_ok [OF assms(4)] be.server_ok_start NewBackend_inv [OF assms(1,2)]
    Server_New_peers [OF assms(3)] by blast

section \<open>An example run\<close>

text \<open>
  A host with a directory \<^verbatim>\<open>/srv\<close> and a regular file everywhere below, a read-only server on it, and
  two peers that open \<^verbatim>\<open>a\<close> one after the other.
\<close>

definition demo_info :: "file_mode \<Rightarrow> FileInfo" where
  "demo_info m = \<lparr>fi_name = ''a'', fi_size = 5, fi_mode = m, fi_modTime = zero_time\<rparr>"

definition demo_os :: "unit OS" where
  "demo_os = \<lparr>lib = no_codecs, OS_Getwd = \<lambda>_. Inr ''/'',
     OS_Stat = \<lambda>p w. (w, Inr (demo_info (if p = ''/srv'' then ModeDir else ModeRegular))),
     OS_ReadDir = \<lambda>p w. (w, Inr [''a'']), OS_EntryInfo = \<lambda>d e w. (w, Inr (demo_info ModeRegular)),
     OS_OpenFile = \<lambda>p fl w. (w, Inr 3), OS_MkdirAll = \<lambda>p w. (w, None), OS_Mkdir = \<lambda>p w. (w, None),
     OS_Remove = \<lambda>p w. (w, None), OS_Read = \<lambda>i n w. (w, take n [1, 2, 3, 4, 5], None),
     OS_Write = \<lambda>i b w. (w, int (length b), None), OS_Seek = \<lambda>i off wh w. (w, off, None),
     OS_FStat = \<lambda>i w. (w, Inr (demo_info ModeRegular)),
     OS_Close = \<lambda>i w. (w, ()), OS_Snapshot = \<lambda>p w. (w, Inl ErrNotExist)\<rparr>"

definition demo_opts :: "BackendOpt list" where
  "demo_opts = [WithFSRoot ''/srv'', WithReadOnly]"

definition demo_backend :: "unit Backend" where
  "demo_backend = (initial_backend ())\<lparr>be_fsRoot := ''/srv'', be_readOnly := True, be_log := [CStat ''/srv'']\<rparr>"

definition demo_server :: "unit Backend Server" where
  "demo_server = \<lparr>sv_fs = demo_backend, sv_cMap = [], sv_peerTimeout = defaultPeerTimeout, sv_port = UDPFSPort,
     sv_bindIP = [], sv_metricsLoggingPeriod = metricsLoggingPeriod, sv_verbose = False, sv_logMetrics = False\<rparr>"

definition demo_open :: bytes where
  "demo_open = [2, 0, 255, 63, 48, 0] @ [MsgOpenReq, 0, 1, 0, 0, 0, 0, 0] @ [97, 0, 0, 0]"

definition demo_handle :: "nat \<Rightarrow> unit Backend \<Rightarrow> (string \<times> bool) option" where
  "demo_handle i s = (case be_handles s ! i of Some (HFile f) \<Rightarrow> Some (fo_Name (fh_obj f), fh_readOnly f) | _ \<Rightarrow> None)"

definition demo_peer :: "AddrPort \<times> peer \<Rightarrow> AddrPort \<times> int \<times> int list" where
  "demo_peer = (\<lambda>(a, p). (a, p_lastSeen p, map fst (c_usedHandles (p_conn p))))"

lemma demo_os_ok: "os_ok demo_os"
  by (auto simp: os_ok_def demo_os_def name_ok_def sep_def IsAbs_def)

lemma demo_start:
  "NewBackend demo_os demo_opts () = Some (Inr (sv_fs demo_server))"
  "Server_New [WithFS (Some demo_backend)] = Inr demo_server"
proof -
  have "Abs (Inr ''/'') ''/srv'' = Inr ''/srv''" by code_simp
  then show "NewBackend demo_os demo_opts () = Some (Inr (sv_fs demo_server))"
    by (simp add: NewBackend_def demo_opts_def mount_root_def mount_device_def sys_def demo_os_def demo_info_def
        demo_server_def demo_backend_def initial_backend_def)
qed (simp add: Server_New_def demo_server_def)

lemma demo_env: "backend_env demo_os 0 id \<in> backend_envs demo_os"
  unfolding backend_env_iff by (intro exI [of _ 0] exI [of _ id]) simp

lemma demo_handleD:
  "demo_handle i s = Some (name, r) \<Longrightarrow> \<exists>f. be_handles s ! i = Some (HFile f) \<and> fo_Name (fh_obj f) = name"
  by (auto simp: demo_handle_def split: option.splits fs_handle.splits)

lemma demo_run:
  "\<exists>s. server_reachable (backend_envs demo_os) demo_server s \<and>
     be_log (sv_fs s) = [CStat ''/srv'', CStat ''/srv/a'', COpenFile ''/srv/a'' 0, CFStat 3,
       CStat ''/srv/a'', COpenFile ''/srv/a'' 0, CFStat 3] \<and>
     demo_handle 0 (sv_fs s) = Some (''/srv/a'', True) \<and> demo_handle 1 (sv_fs s) = Some (''/srv/a'', True) \<and>
     map demo_peer (sv_cMap s) = [(AddrPort 1 2, 0, [1]), (AddrPort 2 2, 0, [2])] \<and>
     sv_peerTimeout s = defaultPeerTimeout"
proof -
  let ?E = "backend_env demo_os 0 id"
  let ?obs = "\<lambda>s. (be_log (sv_fs s), demo_handle 0 (sv_fs s), demo_handle 1 (sv_fs s), map demo_peer (sv_cMap s),
     sv_peerTimeout s)"
  have "map_option ?obs (dataHandler ?E demo_open (AddrPort 1 2) demo_server \<bind> dataHandler ?E demo_open (AddrPort 2 2)) =
    Some ([CStat ''/srv'', CStat ''/srv/a'', COpenFile ''/srv/a'' 0, CFStat 3, CStat ''/srv/a'',
       COpenFile ''/srv/a'' 0, CFStat 3], Some (''/srv/a'', True), Some (''/srv/a'', True),
       [(AddrPort 1 2, 0, [1]), (AddrPort 2 2, 0, [2])], defaultPeerTimeout)"
    by code_simp
  then obtain s1 s2 where s: "dataHandler ?E demo_open (AddrPort 1 2) demo_server = Some s1"
    "dataHandler ?E demo_open (AddrPort 2 2) s1 = Some s2"
    "?obs s2 = ([CStat ''/srv'', CStat ''/srv/a'', COpenFile ''/srv/a'' 0, CFStat 3, CStat ''/srv/a'',
       COpenFile ''/srv/a'' 0, CFStat 3], Some (''/srv/a'', True), Some (''/srv/a'', True),
       [(AddrPort 1 2, 0, [1]), (AddrPort 2 2, 0, [2])], defaultPeerTimeout)"
    by (auto simp: bind_eq_Some_conv)
  have "server_reachable (backend_envs demo_os) demo_server s2"
    using server_reachable.move [OF server_reachable.move [OF server_reachable.start]]
      server_step.datagram [OF demo_env s(1)] server_step.datagram [OF demo_env s(2)] by blast
  then show ?thesis using s(3) by (intro exI [of _ s2]) simp
qed

lemma read_only_calls:
  assumes "os_ok os" "NewBackend os opts w = Some (Inr (sv_fs s0))" "Server_New sopts = Inr s0"
    "server_reachable (backend_envs os) s0 s" "WithReadOnly \<in> set opts"
  shows "list_all (\<lambda>c. \<not> mutating c) (be_log (sv_fs s))"
  using served_ok [OF assms(1-4)] NewBackend_fresh(1) [OF assms(1,2)] assms(5)
  unfolding be.server_ok_def backend_inv_def allowed_def fresh_def by (auto simp: list_all_iff)

section \<open>Properties of the whole program\<close>

text \<open>
  C1: Clients cannot reach outside the served directory. Whatever datagrams arrive, from whichever
  peers, and whenever the timers fire, every system call the server makes after its start names a path
  below the root it was given (the compressed image behind \<^verbatim>\<open>p.iso\<close> is \<^verbatim>\<open>p\<close> itself; the directories made for a
  new file are those above it).
\<close>

theorem server_confined:
  assumes "os_ok os" "NewBackend os opts w = Some (Inr (sv_fs s0))" "Server_New sopts = Inr s0"
    "server_reachable (backend_envs os) s0 s"
  shows "\<exists>calls. be_log (sv_fs s) = be_log (sv_fs s0) @ calls \<and> list_all (confined (be_fsRoot (sv_fs s0))) calls"
  using served_ok [OF assms] unfolding be.server_ok_def backend_inv_def allowed_def by (auto simp: list_all_iff)

theorem server_confined_witness:
  "\<exists>s calls. server_reachable (backend_envs demo_os) demo_server s \<and> length calls = 6 \<and>
     be_log (sv_fs s) = be_log (sv_fs demo_server) @ calls \<and> list_all (confined ''/srv'') calls"
proof -
  obtain s where s: "server_reachable (backend_envs demo_os) demo_server s" "length (be_log (sv_fs s)) = 7"
    using demo_run by auto
  then show ?thesis using server_confined [OF demo_os_ok demo_start s(1)]
    by (auto simp: demo_server_def demo_backend_def)
qed

text \<open>
  C10: A server started read-only changes nothing on the host. From its start on, whatever arrives, it
  never opens a file for writing, creating, truncating or appending, never writes, and never makes or
  removes a file or directory.
\<close>

theorem server_read_only:
  assumes "os_ok os" "NewBackend os opts w = Some (Inr (sv_fs s0))" "Server_New sopts = Inr s0"
    "server_reachable (backend_envs os) s0 s" "WithReadOnly \<in> set opts"
  shows "list_all (\<lambda>c. \<not> mutating c) (be_log (sv_fs s))"
  using assms by (rule read_only_calls)

theorem server_read_only_witness:
  "\<exists>s. server_reachable (backend_envs demo_os) demo_server s \<and> COpenFile ''/srv/a'' 0 \<in> set (be_log (sv_fs s)) \<and>
     list_all (\<lambda>c. \<not> mutating c) (be_log (sv_fs s))"
proof -
  obtain s where s: "server_reachable (backend_envs demo_os) demo_server s" "COpenFile ''/srv/a'' 0 \<in> set (be_log (sv_fs s))"
    using demo_run by auto
  then show ?thesis using server_read_only [OF demo_os_ok demo_start s(1)] by (auto simp: demo_opts_def)
qed

text \<open>
  C8: One writer or many readers. Whatever the peers do, two handles of plain files that were opened
  under the same resolved path are both read-only. A decompressed image has the empty name, so that
  the file behind it is not compared with it.
\<close>

theorem server_exclusive:
  assumes "os_ok os" "NewBackend os opts w = Some (Inr (sv_fs s0))" "Server_New sopts = Inr s0"
    "server_reachable (backend_envs os) s0 s"
    and "i < maxHandles" "j < maxHandles" "i \<noteq> j"
    "be_handles (sv_fs s) ! i = Some (HFile f)" "be_handles (sv_fs s) ! j = Some (HFile g)"
    "fo_Name (fh_obj f) = fo_Name (fh_obj g)"
  shows "fh_readOnly f \<and> fh_readOnly g"
proof -
  have "table_ok (sv_fs s0) (be_handles (sv_fs s))"
    using served_ok [OF assms(1-4)] inv_table_ok unfolding be.server_ok_def by blast
  then have "exclusive (be_handles (sv_fs s))" "length (be_handles (sv_fs s)) = maxHandles"
    unfolding table_ok_def by blast+
  then have "shareable f g" using exclusiveD assms(5-9) by metis
  then show ?thesis using assms(10) by (simp add: shareable_def)
qed

theorem server_exclusive_witness:
  "\<exists>s f g. server_reachable (backend_envs demo_os) demo_server s \<and>
     be_handles (sv_fs s) ! 0 = Some (HFile f) \<and> be_handles (sv_fs s) ! 1 = Some (HFile g) \<and>
     fo_Name (fh_obj f) = ''/srv/a'' \<and> fo_Name (fh_obj g) = ''/srv/a'' \<and> fh_readOnly f \<and> fh_readOnly g"
proof -
  obtain s f g where s: "server_reachable (backend_envs demo_os) demo_server s"
    "be_handles (sv_fs s) ! 0 = Some (HFile f)" "be_handles (sv_fs s) ! 1 = Some (HFile g)"
    "fo_Name (fh_obj f) = ''/srv/a''" "fo_Name (fh_obj g) = ''/srv/a''"
    using demo_run demo_handleD by metis
  then show ?thesis using server_exclusive [OF demo_os_ok demo_start s(1), of 0 1 f g] by auto
qed

text \<open>
  C21: The protocol layer uses every session only in ways its own theorems cover. In every state of the
  server the session of each peer is one that the operations of package \<^verbatim>\<open>udprdma\<close> can reach from a new
  session, and every handle a peer has open is a number the table can hold.
\<close>

theorem server_sessions:
  assumes "os_ok os" "NewBackend os opts w = Some (Inr (sv_fs s0))" "Server_New sopts = Inr s0"
    "server_reachable (backend_envs os) s0 s" and "(addr, p) \<in> set (sv_cMap s)"
  shows "reachable (c_sess (p_conn p)) \<and> (\<forall>h \<in> fst ` set (c_usedHandles (p_conn p)). 1 \<le> h \<and> h \<le> 64)"
  using be.server_ok_peer [OF served_ok [OF assms(1-4)] assms(5)]
  unfolding be.conn_ok_def valid_handle_def maxHandles_def by auto

theorem server_sessions_witness:
  "\<exists>s p. server_reachable (backend_envs demo_os) demo_server s \<and> (AddrPort 1 2, p) \<in> set (sv_cMap s) \<and>
     reachable (c_sess (p_conn p)) \<and> (\<forall>h \<in> fst ` set (c_usedHandles (p_conn p)). 1 \<le> h \<and> h \<le> 64)"
proof -
  obtain s where s: "server_reachable (backend_envs demo_os) demo_server s" "map demo_peer (sv_cMap s) = [(AddrPort 1 2, 0, [1]), (AddrPort 2 2, 0, [2])]"
    using demo_run by auto
  then obtain p where "(AddrPort 1 2, p) \<in> set (sv_cMap s)" by (auto simp: demo_peer_def)
  then show ?thesis using server_sessions [OF demo_os_ok demo_start s(1)] s(1) by blast
qed

end
