(* ===== verification/FsTotal.thy ===== *)
theory FsTotal
  imports FsServer UdpfsTotal
begin

text \<open>
  When the backend returns, and what takes it down. A backend without decompression meets the
  contract \<open>fs_total\<close>, so the only datagrams that can crash such a server carry a handle beyond the
  table or ask for more than the buffer holds; and each of these does crash it.
\<close>

section \<open>When the methods return\<close>

text \<open>
  What is relied on of the operating system: the information of an open file can be read, and that
  of a directory that has just been listed, even if a file was closed since.
\<close>

definition closes :: "'w OS \<Rightarrow> 'w \<Rightarrow> 'w set" where
  "closes os w = insert w (range (\<lambda>i. fst (OS_Close os i w)))"

definition os_steady :: "'w OS \<Rightarrow> bool" where
  "os_steady os \<longleftrightarrow> (\<forall>i w. \<exists>w' fi. OS_FStat os i w = (w', Inr fi)) \<and>
     (\<forall>p w w1 es w2. OS_ReadDir os p w = (w1, Inr es) \<longrightarrow> w2 \<in> closes os w1 \<longrightarrow>
        (\<exists>w' fi. OS_Stat os p w2 = (w', Inr fi)))"

definition sturdy :: "'w OS \<Rightarrow> 'w Backend \<Rightarrow> bool" where
  "sturdy os s0 \<longleftrightarrow> os_steady os \<and> \<not> be_enableCompression s0 \<and> 0 \<le> be_sectorSize s0 \<and> be_sectorSize s0 < 2 ^ 40"

definition read_fits :: "'w Backend \<Rightarrow> int \<Rightarrow> u16 \<Rightarrow> bool" where
  "read_fits s0 h n \<longleftrightarrow> uint n * sector_size h s0 \<le> int readBufferSize"

lemma getFile_total:
  assumes "backend_inv os s0 s" "usable_handle h"
  shows "returns (getFile now h s)"
proof -
  have "length (be_handles s) = 64" using inv_table_ok [OF assms(1)] by (simp add: table_ok_def)
  then show ?thesis using assms(2)
    by (auto simp: returns_def getFile_def usable_handle_def handle_at_def Let_def split: option.split fs_handle.split)
qed

lemma getFile_OsFile:
  assumes "backend_inv os s0 s" "getFile now h s = Some (s', Some f)" "sturdy os s0"
  shows "\<exists>fid name. fh_obj f = OsFile fid name"
proof -
  note g = getFile_inv [OF assms(1,2)]
  have "file_ok s0 f"
  proof (cases "h = BlockDeviceHandle")
    case True
    then show ?thesis using g unfolding backend_inv_def holds_def by auto
  next
    case False
    then have "handle_at (int32 (h - 1)) s' = Some (Some (HFile f))" using g by (simp add: holds_def)
    then have "Some (HFile f) \<in> set (be_handles s')" by (rule handle_at_mem)
    then have "handle_ok s0 (HFile f)" using g inv_table_ok unfolding table_ok_def by blast
    then show ?thesis by (simp add: handle_ok_def)
  qed
  then show ?thesis using assms(3) by (cases "fh_obj f") (simp_all add: file_ok_def fo_id_def sturdy_def)
qed

text \<open>Reading a file of the operating system returns; seeking in it gives it back.\<close>

lemma fo_Read_total: "\<exists>fid name. obj = OsFile fid name \<Longrightarrow> returns (fo_Read os obj n s)"
  by (auto simp: fo_Read_def returns_def split: prod.split)

lemma fo_Seek_OsFile:
  "\<exists>fid name. obj = OsFile fid name \<Longrightarrow> fo_Seek os obj off wh s = (s', obj', pos, e) \<Longrightarrow> \<exists>fid name. obj' = OsFile fid name"
  by (auto simp: fo_Seek_def split: prod.splits)

lemma sectors_int64:
  fixes n :: u16
  assumes "0 \<le> ss" "ss < 2 ^ 40"
  shows "int64 (uint n * ss) = uint n * ss"
proof -
  have n: "0 \<le> uint n * ss" using assms(1) by simp
  have "uint n < 2 ^ 16" using uint_lt2p [of n] by simp
  then have "uint n * ss \<le> 2 ^ 16 * 2 ^ 40" using assms by (intro mult_mono) simp_all
  then show ?thesis using n by (intro int64_id) simp_all
qed

lemma sectors_range:
  fixes n :: u16
  assumes "backend_inv os s0 s" "getFile now h s = Some (s', fo)" "sturdy os s0"
  shows "int64 (uint n * sector_size h s') = uint n * sector_size h s0" "0 \<le> uint n * sector_size h s0"
proof -
  have ss: "sector_size h s' = sector_size h s0" "0 \<le> sector_size h s0" "sector_size h s0 < 2 ^ 40"
    using assms(3) inv_config(3) [OF conjunct1 [OF getFile_inv [OF assms(1,2)]]]
    by (simp_all add: sector_size_def sturdy_def)
  show "0 \<le> uint n * sector_size h s0" using ss(2) by simp
  show "int64 (uint n * sector_size h s') = uint n * sector_size h s0"
    unfolding ss(1) using ss(2,3) by (rule sectors_int64)
qed

lemma Backend_Read_total:
  assumes "backend_inv os s0 s" "sturdy os s0" "usable_handle h" "unat sz \<le> 131072"
  shows "returns (Backend_Read os now h sz s)"
  unfolding Backend_Read_def
  by (intro returns_rules getFile_total [OF assms(1,3)] fo_Read_total;
      (use assms(4) in simp)?; (blast intro: getFile_OsFile [OF assms(1) _ assms(2)])?)

lemma Backend_Bread_total:
  assumes "backend_inv os s0 s" "sturdy os s0" "usable_handle h" "read_fits s0 h n"
  shows "returns (Backend_Bread os now h nr n s)"
proof -
  have fits: "\<not> (int64 (uint n * sector_size h s1) < 0 \<or> int readBufferSize < int64 (uint n * sector_size h s1))"
    if "getFile now h s = Some (s1, fo)" for s1 fo
    using sectors_range [OF assms(1) that assms(2), of n] assms(4) by (simp add: read_fits_def)
  have obj: "\<exists>fid name. fh_obj (f\<lparr>fh_obj := obj\<rparr>) = OsFile fid name"
    if "getFile now h s = Some (s1, Some f)" "fo_Seek os (fh_obj f) off wh s2 = (s3, obj, pos, e)" for s1 s2 s3 f off wh obj pos e
    using fo_Seek_OsFile [OF getFile_OsFile [OF assms(1) that(1) assms(2)] that(2)] by simp
  show ?thesis
    unfolding Backend_Bread_def
    by (intro returns_rules getFile_total [OF assms(1,3)] fo_Read_total; hypsubst; (erule (1) obj | erule (1) fits [THEN notE]))
qed

lemma Backend_CompleteWrite_total:
  assumes "backend_inv os s0 s" "sturdy os s0" "usable_handle h"
  shows "returns (Backend_CompleteWrite os now h s)"
proof -
  have "returns (go_slice_int dat 0 (int64 (uint n * sector_size h s1)))"
    if "getFile now h s = Some (s1, fo)" "int64 (uint n * sector_size h s1) < int (length dat)"
    for s1 fo and n :: u16 and dat :: bytes
    using sectors_range [OF assms(1) that(1) assms(2), of n] that(2)
    by (simp add: go_slice_int_def go_slice_def returns_def)
  then show ?thesis
    unfolding Backend_CompleteWrite_def
    by (intro returns_rules getFile_total [OF assms(1,3)]; (blast)?)
qed

lemma getFile_ops_total:
  assumes "backend_inv os s0 s" "usable_handle h"
  shows "returns (Backend_WriteStart now h s)" "returns (Backend_WriteChunk now h cnr csz tot b s)"
    "returns (Backend_Lseek os now h off wh s)" "returns (Backend_BwriteStart now h nr n s)"
  unfolding Backend_WriteStart_def Backend_WriteChunk_def Backend_Lseek_def Backend_BwriteStart_def
  by (intro returns_rules getFile_total [OF assms])+

lemma valid_slot:
  assumes "backend_inv os s0 s" "valid_handle h"
  shows "h \<noteq> BlockDeviceHandle" "\<exists>x. handle_at (int32 (h - 1)) s = Some x"
proof -
  have "length (be_handles s) = 64" using inv_table_ok [OF assms(1)] by (simp add: table_ok_def)
  moreover have "int32 (h - 1) = h - 1" using assms(2) by (intro int32_id) (simp_all add: valid_handle_def)
  ultimately show "h \<noteq> BlockDeviceHandle" "\<exists>x. handle_at (int32 (h - 1)) s = Some x"
    using assms(2) by (simp_all add: valid_handle_def handle_at_def)
qed

lemma Backend_Close_total: "backend_inv os s0 s \<Longrightarrow> valid_handle h \<Longrightarrow> returns (Backend_Close os h s)"
  using valid_slot [of os s0 s h]
  by (auto simp: returns_def Backend_Close_def freeHandle_def Let_def split: option.split)

lemma getDir_total: "backend_inv os s0 s \<Longrightarrow> valid_handle h \<Longrightarrow> returns (getDir now h s)"
  using valid_slot [of os s0 s h]
  by (auto simp: returns_def getDir_def Let_def split: option.split fs_handle.split)

lemma Backend_Dread_total: "backend_inv os s0 s \<Longrightarrow> valid_handle h \<Longrightarrow> returns (Backend_Dread os now h s)"
  unfolding Backend_Dread_def by (intro returns_rules getDir_total)

lemma opened_FStat:
  assumes "sturdy os s0"
  shows "returns (opened h (sys (CFStat i) (OS_FStat os i) s))"
proof -
  obtain w' fi where "OS_FStat os i (be_world s) = (w', Inr fi)"
    using assms unfolding sturdy_def os_steady_def by blast
  then show ?thesis by (simp add: opened_def sys_def returns_def)
qed

lemma closes_refl: "w \<in> closes os w"
  by (simp add: closes_def)

lemma handle_Close_world: "be_world (handle_Close os h s) \<in> closes os (be_world s)"
  by (cases h; cases "fh_obj (case h of HFile f \<Rightarrow> f)")
     (auto simp: handle_Close_def fo_Close_def sys_def split_beta closes_def)

lemma allocHandle_world: "allocHandle os now h s = (s', k) \<Longrightarrow> be_world s' \<in> closes os (be_world s)"
  by (auto simp: allocHandle_def set_handle_def Let_def handle_Close_world closes_refl
      split: sum.splits prod.splits if_splits option.splits)

lemma open_dir_total:
  assumes "sturdy os s0"
  shows "returns (open_dir os now p s)"
proof -
  obtain s1 r where r: "sys (CReadDir p) (OS_ReadDir os p) s = (s1, r)" by fastforce
  show ?thesis
  proof (cases r)
    case (Inr es)
    let ?d = "HDir \<lparr>dh_dirPath = p, dh_entries = es, dh_index = 0\<rparr>"
    obtain s2 k where k: "allocHandle os now ?d s1 = (s2, k)" by fastforce
    have "OS_ReadDir os p (be_world s) = (be_world s1, Inr es)"
      using r Inr by (auto simp: sys_def split: prod.splits)
    then obtain w' fi where "OS_Stat os p (be_world s2) = (w', Inr fi)"
      using allocHandle_world [OF k] assms unfolding sturdy_def os_steady_def by blast
    then show ?thesis using r Inr k by (simp add: open_dir_def opened_def sys_def returns_def)
  qed (use r in \<open>simp add: open_dir_def returns_def\<close>)
qed

lemma Backend_Open_total:
  assumes "backend_inv os s0 s" "sturdy os s0"
  shows "returns (Backend_Open os now path flag isDir s)"
proof -
  have plain: "\<not> be_enableCompression s1"
    if "(if p \<noteq> [] then pathExists os p s else (s, False)) = (s1, ex)" for s1 p ex
    using that inv_config(2) [OF assms(1)] assms(2)
    by (auto simp: sturdy_def pathExists_def sys_def split: if_splits prod.splits sum.splits)
  show ?thesis
    unfolding Backend_Open_def open_plain_def
    by (intro returns_rules open_dir_total [OF assms(2)] opened_FStat [OF assms(2)]; blast dest: plain)
qed

section \<open>The backend meets the contract\<close>

lemma usable_handleI: "h \<le> 64 \<Longrightarrow> usable_handle h"
  using int32_id [of "h - 1"] by (auto simp: usable_handle_def)

lemma valid_usable: "valid_handle h \<Longrightarrow> usable_handle h"
  by (intro usable_handleI) (simp_all add: valid_handle_def)

lemma sturdy_contract:
  "fs_contract (backend_envs os) (\<lambda>s. backend_inv os s0 s \<and> sturdy os s0)
     (\<lambda>h. \<not> be_readOnly s0 \<and> usable_handle h) valid_handle"
proof (cases "sturdy os s0")
  case True
  then show ?thesis using be.fs_contract_axioms [of os s0] by simp
next
  case False
  then show ?thesis by unfold_locales (simp_all add: be.iter_set)
qed

interpretation bt: fs_total "backend_envs os" "\<lambda>s. backend_inv os s0 s \<and> sturdy os s0"
    "\<lambda>h. \<not> be_readOnly s0 \<and> usable_handle h" valid_handle usable_handle "read_fits s0"
  for os :: "'w OS" and s0
  by (intro fs_total.intro sturdy_contract fs_total_axioms.intro;
      (erule valid_usable)?; (clarsimp simp: backend_env_iff backend_env_def returns_Some)?;
      (intro Backend_Open_total Backend_Close_total Backend_Read_total getFile_ops_total
          Backend_CompleteWrite_total Backend_Dread_total Backend_Bread_total)?; assumption?)

section \<open>Servers that stay up\<close>

lemma fold_opts_config:
  "be_enableCompression (fold apply_opt opts s) \<longleftrightarrow> be_enableCompression s \<or> WithCompression \<in> set opts"
  "be_sectorSize (fold apply_opt opts s) = be_sectorSize s \<or> WithSectorSize (be_sectorSize (fold apply_opt opts s)) \<in> set opts"
proof (induction opts arbitrary: s)
  case (Cons opt opts)
  {
    case 1
    then show ?case using Cons.IH(1) by (cases opt) auto
  next
    case 2
    then show ?case using Cons.IH(2) [of "apply_opt opt s"] by (cases opt) (auto split: if_splits)
  }
qed simp_all

lemma mount_config:
  "mount_root os s = Inr s1 \<Longrightarrow> be_enableCompression s1 = be_enableCompression s \<and> be_sectorSize s1 = be_sectorSize s"
  "mount_device os s = Some (Inr s1) \<Longrightarrow> be_enableCompression s1 = be_enableCompression s \<and> be_sectorSize s1 = be_sectorSize s"
  by (auto simp: mount_root_def mount_device_def sys_def Let_def split: if_splits sum.splits prod.splits)

lemma NewBackend_sturdy:
  assumes "NewBackend os opts w = Some (Inr s)" "os_steady os" "WithCompression \<notin> set opts"
    "\<And>n. WithSectorSize n \<in> set opts \<Longrightarrow> 0 \<le> n \<and> n < 2 ^ 40"
  shows "sturdy os s"
proof -
  let ?s = "fold apply_opt opts (initial_backend w)"
  obtain s1 where s1: "mount_root os ?s = Inr s1" "mount_device os s1 = Some (Inr s)"
    using assms(1) by (auto simp: NewBackend_def Let_def split: sum.splits)
  have "be_enableCompression s = be_enableCompression ?s" "be_sectorSize s = be_sectorSize ?s"
    using mount_config(1) [OF s1(1)] mount_config(2) [OF s1(2)] by simp_all
  then show ?thesis
    using fold_opts_config [of opts "initial_backend w"] assms(2-4)
    by (auto simp: sturdy_def initial_backend_def)
qed

lemma safe_request_mono:
  assumes "safe_request u v f p" "\<And>h. u h \<Longrightarrow> u' h" "\<And>h. v h \<Longrightarrow> v' h" "\<And>h n. f h n \<Longrightarrow> f' h n"
  shows "safe_request u' v' f' p"
  using assms unfolding safe_request_def Let_def by (auto split: option.splits)

lemma sturdy_server:
  assumes "os_ok os" "NewBackend os opts w = Some (Inr (sv_fs s0))" "Server_New sopts = Inr s0"
    "server_reachable (backend_envs os) s0 s" "os_steady os" "WithCompression \<notin> set opts"
    "\<And>n. WithSectorSize n \<in> set opts \<Longrightarrow> 0 \<le> n \<and> n < 2 ^ 40"
  shows "bt.server_ok os (sv_fs s0) s"
  using served_ok [OF assms(1-4)] NewBackend_sturdy [OF assms(2,5,6)] assms(7)
  unfolding be.server_ok_def bt.server_ok_def be.conn_ok_def bt.conn_ok_def by blast

text \<open>
  C5: A server without decompression stays up. In every state it can get into, whatever datagram
  arrives, it is handled to the end without a panic, unless the datagram completes a request that
  names a handle beyond the table, closes or lists a handle below it, or asks for more bytes than the
  buffer of 128 KiB holds.
\<close>

theorem server_survives:
  assumes "os_ok os" "NewBackend os opts w = Some (Inr (sv_fs s0))" "Server_New sopts = Inr s0"
    "server_reachable (backend_envs os) s0 s" "os_steady os" "WithCompression \<notin> set opts"
    "\<And>n. WithSectorSize n \<in> set opts \<Longrightarrow> 0 \<le> n \<and> n < 2 ^ 40"
    and "E \<in> backend_envs os"
    "\<And>sess payload. ProcessDataPacket (c_sess (p_conn (get_peer E addr s))) (take 2048 data) =
      Some (sess, Inr (Some payload)) \<Longrightarrow>
      safe_request (\<lambda>h. h \<le> 64) (\<lambda>h. 1 \<le> h \<and> h \<le> 64)
        (\<lambda>h n. uint n * sector_size h (sv_fs s0) \<le> 131072) payload"
  shows "\<exists>s'. dataHandler E data addr s = Some s'"
proof (rule bt.dataHandler_total [OF assms(8) sturdy_server [OF assms(1-7)]])
  fix sess payload
  assume "ProcessDataPacket (c_sess (p_conn (get_peer E addr s))) (take 2048 data) = Some (sess, Inr (Some payload))"
  note safe = assms(9) [OF this]
  show "safe_request usable_handle valid_handle (read_fits (sv_fs s0)) payload"
    by (rule safe_request_mono [OF safe]) (auto simp: usable_handleI valid_handle_def read_fits_def)
qed

lemma demo_steady: "os_steady demo_os"
  by (simp add: os_steady_def demo_os_def)

theorem server_survives_witness:
  "\<exists>s'. dataHandler (backend_env demo_os 0 id) demo_open (AddrPort 1 2) demo_server = Some s'"
proof (rule server_survives [OF demo_os_ok demo_start server_reachable.start demo_steady _ _ demo_env])
  fix sess payload
  assume p: "ProcessDataPacket (c_sess (p_conn (get_peer (backend_env demo_os 0 id) (AddrPort 1 2) demo_server)))
      (take 2048 demo_open) = Some (sess, Inr (Some payload))"
  have "map_option snd (ProcessDataPacket (c_sess (p_conn (get_peer (backend_env demo_os 0 id) (AddrPort 1 2) demo_server)))
      (take 2048 demo_open)) = Some (Inr (Some (drop 6 demo_open)))"
    by code_simp
  then have "payload = drop 6 demo_open" unfolding p by simp
  then show "safe_request (\<lambda>h. h \<le> 64) (\<lambda>h. 1 \<le> h \<and> h \<le> 64)
      (\<lambda>h n. uint n * sector_size h (sv_fs demo_server) \<le> 131072) payload"
    by (simp add: demo_open_def safe_request_def)
qed (simp_all add: demo_opts_def)

end
