(* ===== verification/FsLimits.thy ===== *)
theory FsLimits
  imports FsTotal
begin

text \<open>
  The other side of \<open>FsTotal\<close>: the requests that do take a server down, and what the global handle
  table lets one peer do to another.
\<close>

section \<open>Requests that name no slot\<close>

text \<open>
  The requests whose handle the code turns into an index without a check: beyond the table in all of
  them, and in CLOSE and DREAD also below it.
\<close>

definition no_slot :: "bytes \<Rightarrow> bool" where
  "no_slot p \<longleftrightarrow> p \<noteq> [] \<and>
     (let t = hd p; h = handle_field p in
        (t = MsgReadReq \<or> t = MsgWriteReq) \<and> 12 \<le> length p \<and> 64 < h \<or>
        (t = MsgLseekReq \<or> t = MsgBreadReq \<or> t = MsgBwriteReq) \<and> 16 \<le> length p \<and> 64 < h \<or>
        t = MsgCloseReq \<and> 8 \<le> length p \<and> h \<noteq> 0 \<and> (h < 1 \<or> 64 < h) \<or>
        t = MsgDreadReq \<and> 8 \<le> length p \<and> (h < 1 \<or> 64 < h))"

lemma handle_at_None:
  assumes "length (be_handles s) = 64" "h < 1 \<or> 64 < h" "- (2 ^ 31) \<le> h" "h < 2 ^ 31"
  shows "handle_at (int32 (h - 1)) s = None"
proof (cases "h = - (2 ^ 31)")
  case True
  then have "int32 (h - 1) = 2 ^ 31 - 1" by (simp add: int32_def)
  then show ?thesis using assms(1) by (simp add: handle_at_def)
next
  case False
  then have "int32 (h - 1) = h - 1" using assms(3,4) by (intro int32_id) auto
  then show ?thesis using assms(1,2) by (auto simp: handle_at_def)
qed

lemma lookup_None:
  assumes "length (be_handles s) = 64" "- (2 ^ 31) \<le> h" "h < 2 ^ 31"
  shows "64 < h \<Longrightarrow> getFile now h s = None"
    "h < 1 \<or> 64 < h \<Longrightarrow> getDir now h s = None"
    "h < 1 \<or> 64 < h \<Longrightarrow> h \<noteq> 0 \<Longrightarrow> freeHandle os h s = None"
  using handle_at_None [OF assms(1) _ assms(2,3)]
  by (simp_all add: getFile_def getDir_def freeHandle_def)

lemma sint32_range: "- (2 ^ 31) \<le> sint (x :: u32)" "sint (x :: u32) < 2 ^ 31"
  using sint_ge [of x] sint_lt [of x] by simp_all

lemma handle_get: "8 \<le> length p \<Longrightarrow> \<exists>x. get32 4 p = Some x \<and> handle_field p = sint x"
  using get32_Some [of 4 p] by (auto simp: returns_def handle_field_def)

lemma bind_None: "(\<And>x. m = Some x \<Longrightarrow> k x = None) \<Longrightarrow> m \<bind> k = None"
  by (cases m) simp_all

lemma handlers_no_slot:
  fixes os :: "'w OS"
  assumes "length (be_handles fs) = 64" "get32 4 p = Some x" and E_def: "E = backend_env os t it"
  shows "64 < sint x \<Longrightarrow> 12 \<le> length p \<Longrightarrow> handleRead E p (fs, c) = None"
    "64 < sint x \<Longrightarrow> 12 \<le> length p \<Longrightarrow> handleWriteReq E p (fs, c) = None"
    "64 < sint x \<Longrightarrow> 16 \<le> length p \<Longrightarrow> handleLseek E p (fs, c) = None"
    "64 < sint x \<Longrightarrow> 16 \<le> length p \<Longrightarrow> handleBread E p (fs, c) = None"
    "64 < sint x \<Longrightarrow> 16 \<le> length p \<Longrightarrow> handleBwriteReq E p (fs, c) = None"
    "sint x < 1 \<or> 64 < sint x \<Longrightarrow> sint x \<noteq> 0 \<Longrightarrow> 8 \<le> length p \<Longrightarrow> handleClose E p (fs, c) = None"
    "sint x < 1 \<or> 64 < sint x \<Longrightarrow> 8 \<le> length p \<Longrightarrow> handleDread E p (fs, c) = None"
proof -
  note none = lookup_None [OF assms(1) sint32_range [of x]]
  note [simp] = backend_env_def
  show "64 < sint x \<Longrightarrow> 12 \<le> length p \<Longrightarrow> handleRead E p (fs, c) = None"
    by (simp add: E_def handleRead_def Backend_Read_def assms(2) none bind_None)
  show "64 < sint x \<Longrightarrow> 12 \<le> length p \<Longrightarrow> handleWriteReq E p (fs, c) = None"
    by (simp add: E_def handleWriteReq_def Backend_WriteStart_def assms(2) none)
  show "64 < sint x \<Longrightarrow> 16 \<le> length p \<Longrightarrow> handleLseek E p (fs, c) = None"
    by (simp add: E_def handleLseek_def Backend_Lseek_def assms(2) none bind_None)
  show "64 < sint x \<Longrightarrow> 16 \<le> length p \<Longrightarrow> handleBread E p (fs, c) = None"
    by (simp add: E_def handleBread_def Backend_Bread_def assms(2) none bind_None)
  show "64 < sint x \<Longrightarrow> 16 \<le> length p \<Longrightarrow> handleBwriteReq E p (fs, c) = None"
    by (simp add: E_def handleBwriteReq_def Backend_BwriteStart_def assms(2) none bind_None)
  show "sint x < 1 \<or> 64 < sint x \<Longrightarrow> sint x \<noteq> 0 \<Longrightarrow> 8 \<le> length p \<Longrightarrow> handleClose E p (fs, c) = None"
    by (simp add: E_def handleClose_def Backend_Close_def assms(2) none)
  show "sint x < 1 \<or> 64 < sint x \<Longrightarrow> 8 \<le> length p \<Longrightarrow> handleDread E p (fs, c) = None"
    by (simp add: E_def handleDread_def Backend_Dread_def assms(2) none)
qed

lemma HandlePayload_no_slot:
  assumes E: "E \<in> backend_envs os" and fs: "length (be_handles fs) = 64" and p: "no_slot p"
  shows "HandlePayload E p (fs, c) = None"
proof -
  obtain t it where e: "E = backend_env os t it" using E by (auto simp: backend_env_iff)
  have "8 \<le> length p" using p by (auto simp: no_slot_def Let_def)
  then obtain x where x: "get32 4 p = Some x" "handle_field p = sint x" using handle_get by blast
  show ?thesis
    using p handlers_no_slot [OF fs x(1) e, of c]
    unfolding no_slot_def Let_def x(2)
    by (elim conjE disjE) (simp_all add: HandlePayload_def handler_of_def)
qed

text \<open>A request the handlers panic on takes the server down, whatever the state of its peer.\<close>

context fs_contract
begin

lemma dataHandler_panics:
  assumes ok: "server_ok s" and E: "E \<in> P"
    and p: "ProcessDataPacket (c_sess (p_conn (get_peer E addr s))) (take 2048 data) = Some (sess, Inr (Some payload))"
    and len: "6 \<le> length data"
    and panics: "\<And>fs c. inv fs \<Longrightarrow> HandlePayload E payload (fs, c) = None"
  shows "dataHandler E data addr s = None"
proof -
  let ?c = "p_conn (get_peer E addr s)"
  have c: "conn_ok ?c" "inv (sv_fs s)" using get_peer_ok [OF ok] ok by (simp_all add: server_ok_def)
  have "reachable sess"
    using reachable_send [of "c_sess ?c" "OpPacket (take 2048 data)" sess] c(1) p len by (simp add: conn_ok_def)
  then have "state_ok (sv_fs s, ?c\<lparr>c_sess := sess\<rparr>)"
    using c by (simp add: state_ok_def conn_ok_sess)
  then have "HandlePayload E payload st = None"
    if "run_resets E n (sv_fs s, ?c\<lparr>c_sess := sess\<rparr>) = Some st" for n st
    using run_resets_ok [OF E _ that] panics by (cases st) (auto simp: state_ok_def)
  then have "process_packet E (take 2048 data) (sv_fs s, ?c) = None"
    by (simp add: process_packet_def p bind_None)
  then show ?thesis using len by (simp add: dataHandler_def handleData_def Let_def)
qed

end

lemma table_length: "backend_inv os s0 s \<Longrightarrow> length (be_handles s) = 64"
  using inv_table_ok by (fastforce simp: table_ok_def)

text \<open>
  C24: A handle beyond the table takes the server down. In whatever state, one datagram that completes a
  READ, WRITE, LSEEK, BREAD or BWRITE request with a handle above 64, or a CLOSE or DREAD request with a
  handle that is not between 1 and 64 (0 is accepted by CLOSE), makes the server panic: the handle is
  used as an index without a check.
\<close>

theorem handle_beyond_table_panics:
  assumes "os_ok os" "NewBackend os opts w = Some (Inr (sv_fs s0))" "Server_New sopts = Inr s0"
    "server_reachable (backend_envs os) s0 s" "E \<in> backend_envs os"
    and "ProcessDataPacket (c_sess (p_conn (get_peer E addr s))) (take 2048 data) = Some (sess, Inr (Some payload))"
    "6 \<le> length data" "no_slot payload"
  shows "dataHandler E data addr s = None"
  by (rule be.dataHandler_panics [OF served_ok [OF assms(1-4)] assms(5-7)])
     (blast intro: HandlePayload_no_slot [OF assms(5) table_length assms(8)])

definition demo_close :: bytes where
  "demo_close = [2, 0, 255, 63, 32, 0] @ [MsgCloseReq, 0, 0, 0, 65, 0, 0, 0]"

theorem handle_beyond_table_panics_witness:
  "dataHandler (backend_env demo_os 0 id) demo_close (AddrPort 1 2) demo_server = None"
proof -
  let ?r = "ProcessDataPacket (c_sess (p_conn (get_peer (backend_env demo_os 0 id) (AddrPort 1 2) demo_server)))
      (take 2048 demo_close)"
  have "map_option snd ?r = Some (Inr (Some (drop 6 demo_close)))" by code_simp
  then obtain sess where "?r = Some (sess, Inr (Some (drop 6 demo_close)))" by auto
  then show ?thesis
    by (rule handle_beyond_table_panics [OF demo_os_ok demo_start server_reachable.start demo_env]) code_simp+
qed

section \<open>Reads beyond the buffer\<close>

text \<open>
  C25: A READ of more than 128 KiB from an open file takes the server down: the buffer of the connection
  is sliced to the requested length without a check.
\<close>

theorem large_read_panics:
  assumes "E \<in> backend_envs os" "getFile (env_now E) (handle_field p) fs = Some (fs', Some f)"
    and "12 \<le> length p" "hd p = MsgReadReq" "get32 8 p = Some n" "131072 < unat n"
  shows "HandlePayload E p (fs, c) = None"
proof -
  obtain x where x: "get32 4 p = Some x" "handle_field p = sint x" using handle_get [of p] assms(3) by auto
  obtain t it where e: "E = backend_env os t it" using assms(1) by (auto simp: backend_env_iff)
  show ?thesis
    using assms(2-6) x
    by (auto simp: HandlePayload_def handler_of_def handleRead_def e backend_env_def Backend_Read_def)
qed

theorem large_read_panics_witness:
  "\<exists>fs. (\<forall>c. HandlePayload (backend_env demo_os 0 id) [MsgReadReq, 0, 0, 0, 1, 0, 0, 0, 1, 0, 2, 0] (fs, c) = None) \<and>
     length (be_handles fs) = 64 \<and> be_handles fs ! 0 \<noteq> None"
proof (intro exI conjI allI)
  let ?p = "[MsgReadReq, 0, 0, 0, 1, 0, 0, 0, 1, 0, 2, 0]"
  let ?f = "newFileHandle (OsFile 3 ''/srv/a'') True"
  let ?fs = "set_handle 0 (HFile ?f) 0 demo_backend"
  show "HandlePayload (backend_env demo_os 0 id) ?p (?fs, c) = None" for c
  proof (rule large_read_panics [OF demo_env])
    have "handle_field ?p = 1" by code_simp
    then show "getFile (env_now (backend_env demo_os 0 id)) (handle_field ?p) ?fs =
      Some (?fs\<lparr>be_lastUsed := (be_lastUsed ?fs)[0 := 0]\<rparr>, Some ?f)"
      by (simp add: getFile_def handle_at_def set_handle_def demo_backend_def initial_backend_def backend_env_def
          int32_def)
    show "get32 8 ?p = Some 131073" by code_simp
  qed simp_all
qed (simp_all add: set_handle_def demo_backend_def initial_backend_def)

section \<open>Closing\<close>

lemma valid_int32: "valid_handle h \<Longrightarrow> int32 (h - 1) = h - 1"
  by (intro int32_id) (simp_all add: valid_handle_def)

text \<open>Closing a handle empties its slot and no other.\<close>

lemma freeHandle_slot:
  assumes "length (be_handles s) = 64" "valid_handle h"
  shows "\<exists>s'. freeHandle os h s = Some (s', True) \<and> be_handles s' = (be_handles s)[nat (h - 1) := None]"
proof -
  obtain x where x: "handle_at (h - 1) s = Some x" "h \<noteq> BlockDeviceHandle"
    using assms by (simp add: handle_at_def valid_handle_def)
  then have "x = None \<Longrightarrow> be_handles s ! nat (h - 1) = None" by (auto simp: handle_at_def split: if_splits)
  then have "x = None \<Longrightarrow> (be_handles s)[nat (h - 1) := None] = be_handles s" by (metis list_update_id)
  then show ?thesis using x
    by (cases x) (auto simp: freeHandle_def valid_int32 [OF assms(2)] handle_Close_handles)
qed

lemma Backend_Close_slot:
  assumes "backend_inv os s0 s" "valid_handle h"
  shows "\<exists>s'. Backend_Close os h s = Some (s', None) \<and> be_handles s' = (be_handles s)[nat (h - 1) := None]"
  using freeHandle_slot [OF table_length [OF assms(1)] assms(2), of os] by (auto simp: Backend_Close_def)

definition emptied :: "(nat \<Rightarrow> bool) \<Rightarrow> 'w Backend \<Rightarrow> 'w Backend \<Rightarrow> bool" where
  "emptied C s s' \<longleftrightarrow> (\<forall>i < 64. be_handles s' ! i = (if C i then None else be_handles s ! i))"

lemma emptied_trans: "emptied C s s1 \<Longrightarrow> emptied D s1 s2 \<Longrightarrow> emptied (\<lambda>i. C i \<or> D i) s s2"
  by (simp add: emptied_def)

lemma emptied_close:
  assumes "backend_inv os s0 s" "valid_handle h"
  shows "\<exists>s'. Backend_Close os h s = Some (s', None) \<and> emptied (\<lambda>i. int i + 1 = h) s s'"
  using Backend_Close_slot [OF assms] table_length [OF assms(1)] assms(2)
  by (auto simp: emptied_def nth_list_update valid_handle_def)

lemma close_loop_slots:
  assumes E: "E \<in> backend_envs os"
  shows "backend_inv os s0 fs \<Longrightarrow> \<forall>x \<in> set hs. valid_handle (fst x) \<Longrightarrow>
    \<exists>fs' c'. close_loop E hs (fs, c) = Some (fs', c') \<and> emptied (\<lambda>i. int i + 1 \<in> fst ` set hs) fs fs'"
proof (induction hs arbitrary: fs c)
  case (Cons x hs)
  obtain h ch where x: "x = (h, ch)" by fastforce
  have cl: "fs_Close E = Backend_Close os" using E by (auto simp: backend_env_iff backend_env_def)
  obtain fs1 where f1: "Backend_Close os h fs = Some (fs1, None)" "emptied (\<lambda>i. int i + 1 = h) fs fs1"
    using emptied_close [OF Cons.prems(1), of h] Cons.prems(2) by (auto simp: x)
  have "backend_inv os s0 fs1" using be.close_inv [OF E Cons.prems(1)] f1(1) cl by simp
  then obtain fs2 c2 where f2: "close_loop E hs (fs1, c\<lparr>c_usedHandles := AList.delete h (c_usedHandles c)\<rparr>) = Some (fs2, c2)"
    "emptied (\<lambda>i. int i + 1 \<in> fst ` set hs) fs1 fs2"
    using Cons.IH Cons.prems(2) by (metis list.set_intros(2))
  have "emptied (\<lambda>i. int i + 1 \<in> fst ` set (x # hs)) fs fs2"
    using emptied_trans [OF f1(2) f2(2)] by (simp add: x)
  then show ?case using f1(1) f2(1) cl by (simp add: x)
qed (simp add: emptied_def)

text \<open>One tick of the cleanup.\<close>

definition idle :: "int \<Rightarrow> int \<Rightarrow> peer \<Rightarrow> bool" where
  "idle now timeout p \<longleftrightarrow> timeout \<le> now - p_lastSeen p"

definition has_handle :: "nat \<Rightarrow> peer \<Rightarrow> bool" where
  "has_handle i p \<longleftrightarrow> int i + 1 \<in> fst ` set (c_usedHandles (p_conn p))"

lemma Connection_Close_slots:
  assumes E: "E \<in> backend_envs os" and ok: "be.state_ok os s0 (fs, c)"
  shows "\<exists>fs' c'. Connection_Close E (fs, c) = Some (fs', c') \<and> backend_inv os s0 fs' \<and>
    emptied (\<lambda>i. int i + 1 \<in> fst ` set (c_usedHandles c)) fs fs'"
proof -
  have "\<forall>x \<in> set (env_iter E (c_usedHandles c)). valid_handle (fst x)" "backend_inv os s0 fs"
    using ok be.iter_set [OF E] by (auto simp: be.state_ok_def be.conn_ok_def)
  then obtain fs' c' where l: "close_loop E (env_iter E (c_usedHandles c)) (fs, c) = Some (fs', c')"
    "emptied (\<lambda>i. int i + 1 \<in> fst ` set (c_usedHandles c)) fs fs'"
    using close_loop_slots [OF E] be.iter_set [OF E] by metis
  then have cl: "Connection_Close E (fs, c) = Some (fs', c'\<lparr>c_sess := Session_Close (c_sess c')\<rparr>)"
    by (simp add: Connection_Close_def)
  then have "backend_inv os s0 fs'" using be.Connection_Close_ok [OF E ok] by (simp add: be.state_ok_def)
  then show ?thesis using cl l(2) by blast
qed

lemma cleanup_loop_effect:
  assumes E: "E \<in> backend_envs os"
  shows "backend_inv os s0 (sv_fs s) \<Longrightarrow> \<forall>x \<in> set ps. be.conn_ok TYPE('w) s0 (p_conn (snd x)) \<Longrightarrow>
    \<exists>s'. cleanup_loop E ps s = Some s' \<and>
      sv_cMap s' = filter (\<lambda>(a, _). \<forall>(b, p) \<in> set ps. idle (env_now E) (sv_peerTimeout s) p \<longrightarrow> a \<noteq> b) (sv_cMap s) \<and>
      emptied (\<lambda>i. \<exists>(b, p) \<in> set ps. idle (env_now E) (sv_peerTimeout s) p \<and> has_handle i p) (sv_fs s) (sv_fs s')"
proof (induction ps arbitrary: s)
  case (Cons x ps)
  obtain a p where x: "x = (a, p)" by fastforce
  show ?case
  proof (cases "idle (env_now E) (sv_peerTimeout s) p")
    case True
    have "be.state_ok os s0 (sv_fs s, p_conn p)" using Cons.prems by (simp add: be.state_ok_def x)
    then obtain fs c where c: "Connection_Close E (sv_fs s, p_conn p) = Some (fs, c)" "backend_inv os s0 fs"
      "emptied (\<lambda>i. has_handle i p) (sv_fs s) fs"
      using Connection_Close_slots [OF E] by (fastforce simp: has_handle_def)
    let ?s = "s\<lparr>sv_fs := fs, sv_cMap := AList.delete a (sv_cMap s)\<rparr>"
    obtain s' where s': "cleanup_loop E ps ?s = Some s'"
      "sv_cMap s' = filter (\<lambda>(a, _). \<forall>(b, p) \<in> set ps. idle (env_now E) (sv_peerTimeout s) p \<longrightarrow> a \<noteq> b) (AList.delete a (sv_cMap s))"
      "emptied (\<lambda>i. \<exists>(b, p) \<in> set ps. idle (env_now E) (sv_peerTimeout s) p \<and> has_handle i p) fs (sv_fs s')"
      using Cons.IH [of ?s] c(2) Cons.prems(2) by auto
    have "sv_cMap s' = filter (\<lambda>(a, _). \<forall>(b, p) \<in> set (x # ps). idle (env_now E) (sv_peerTimeout s) p \<longrightarrow> a \<noteq> b) (sv_cMap s)"
      unfolding s'(2) AList.delete_eq filter_filter using True by (intro filter_cong) (auto simp: x)
    moreover have "cleanup_loop E (x # ps) s = Some s'" using True c(1) s'(1) by (simp add: x idle_def)
    moreover have "emptied (\<lambda>i. \<exists>(b, p) \<in> set (x # ps). idle (env_now E) (sv_peerTimeout s) p \<and> has_handle i p) (sv_fs s) (sv_fs s')"
      using emptied_trans [OF c(3) s'(3)] True by (simp add: x)
    ultimately show ?thesis by blast
  next
    case False
    then show ?thesis using Cons.IH [of s] Cons.prems by (simp add: x idle_def)
  qed
qed (simp add: emptied_def)

lemma cleanup_loop_distinct:
  "cleanup_loop E ps s = Some s' \<Longrightarrow> distinct (map fst (sv_cMap s)) \<Longrightarrow> distinct (map fst (sv_cMap s'))"
proof (induction ps arbitrary: s)
  case (Cons x ps)
  obtain a p where x: "x = (a, p)" by fastforce
  show ?case using Cons by (auto simp: x distinct_delete split: if_splits option.splits)
qed simp

lemma server_peers_distinct:
  "server_reachable P s0 s \<Longrightarrow> distinct (map fst (sv_cMap s0)) \<Longrightarrow> distinct (map fst (sv_cMap s))"
proof (induction rule: server_reachable.induct)
  case (move s s')
  from move.hyps(2) show ?case
  proof (cases rule: server_step.cases)
    case (datagram E data addr)
    then show ?thesis using move
      by (auto simp: dataHandler_def handleData_def Let_def distinct_update split: if_splits option.splits)
  next
    case (timer addr)
    then show ?thesis using move by (auto simp: fire_timer_def distinct_update split: option.split)
  next
    case (tick E order)
    then show ?thesis using move cleanup_loop_distinct unfolding cleanup_def by blast
  qed
qed

text \<open>
  C14: The cleanup removes the idle peers and nothing else. In whatever state the tick comes and in
  whatever order the map is visited, it returns; the peers that were seen within the timeout stay as
  they are and the others are gone; and exactly the handles the idle peers had open are free.
\<close>

theorem cleanup_idle_peers:
  assumes "os_ok os" "NewBackend os opts w = Some (Inr (sv_fs s0))" "Server_New sopts = Inr s0"
    "server_reachable (backend_envs os) s0 s" "E \<in> backend_envs os"
    and order: "set (order (sv_cMap s)) = set (sv_cMap s)"
  shows "\<exists>s'. cleanup E order s = Some s' \<and>
    sv_cMap s' = filter (\<lambda>(a, p). env_now E - p_lastSeen p < sv_peerTimeout s) (sv_cMap s) \<and>
    (\<forall>i < 64. be_handles (sv_fs s') ! i =
      (if \<exists>(a, p) \<in> set (sv_cMap s). sv_peerTimeout s \<le> env_now E - p_lastSeen p \<and>
            int i + 1 \<in> fst ` set (c_usedHandles (p_conn p))
       then None else be_handles (sv_fs s) ! i))"
proof -
  let ?idle = "idle (env_now E) (sv_peerTimeout s)"
  have ok: "be.server_ok os (sv_fs s0) s" using served_ok [OF assms(1-4)] .
  then have "\<forall>x \<in> set (order (sv_cMap s)). be.conn_ok TYPE('a) (sv_fs s0) (p_conn (snd x))"
    "backend_inv os (sv_fs s0) (sv_fs s)"
    by (auto simp: order be.server_ok_def)
  then obtain s' where s': "cleanup E order s = Some s'"
    "sv_cMap s' = filter (\<lambda>(a, _). \<forall>(b, p) \<in> set (sv_cMap s). ?idle p \<longrightarrow> a \<noteq> b) (sv_cMap s)"
    "emptied (\<lambda>i. \<exists>(b, p) \<in> set (sv_cMap s). ?idle p \<and> has_handle i p) (sv_fs s) (sv_fs s')"
    using cleanup_loop_effect [OF assms(5), of "sv_fs s0" s "order (sv_cMap s)"] unfolding order cleanup_def by auto
  have keys: "distinct (map fst (sv_cMap s))"
    using server_peers_distinct [OF assms(4)] Server_New_peers [OF assms(3)] by simp
  have "sv_cMap s' = filter (\<lambda>(a, p). \<not> ?idle p) (sv_cMap s)"
    unfolding s'(2) using keys by (intro filter_cong) (auto dest: eq_key_imp_eq_value)
  then show ?thesis using s'(1,3) by (simp add: emptied_def has_handle_def idle_def not_le)
qed

theorem cleanup_idle_peers_witness:
  "\<exists>s s'. server_reachable (backend_envs demo_os) demo_server s \<and> length (sv_cMap s) = 2 \<and>
     demo_handle 0 (sv_fs s) = Some (''/srv/a'', True) \<and>
     cleanup (backend_env demo_os 3600000000000 id) id s = Some s' \<and> sv_cMap s' = [] \<and> demo_handle 0 (sv_fs s') = None"
proof -
  obtain s where s: "server_reachable (backend_envs demo_os) demo_server s"
    "demo_handle 0 (sv_fs s) = Some (''/srv/a'', True)" "sv_peerTimeout s = defaultPeerTimeout"
    and m: "map demo_peer (sv_cMap s) = [(AddrPort 1 2, 0, [1]), (AddrPort 2 2, 0, [2])]"
    using demo_run by auto
  obtain p q where pq: "sv_cMap s = [(AddrPort 1 2, p), (AddrPort 2 2, q)]" "p_lastSeen p = 0" "p_lastSeen q = 0"
    "map fst (c_usedHandles (p_conn p)) = [1]"
    using m by (auto simp: demo_peer_def)
  have env: "backend_env demo_os 3600000000000 id \<in> backend_envs demo_os"
    unfolding backend_env_iff by (intro exI [of _ 3600000000000] exI [of _ id]) simp
  have one: "1 \<in> fst ` set (c_usedHandles (p_conn p))" using arg_cong [OF pq(4), of set] by simp
  have now: "env_now (backend_env demo_os 3600000000000 id) = 3600000000000" by (simp add: backend_env_def)
  obtain s' where s': "cleanup (backend_env demo_os 3600000000000 id) id s = Some s'"
    "sv_cMap s' = filter (\<lambda>(a, p). 3600000000000 - p_lastSeen p < sv_peerTimeout s) (sv_cMap s)"
    "\<forall>i < 64. be_handles (sv_fs s') ! i =
      (if \<exists>(a, p) \<in> set (sv_cMap s). sv_peerTimeout s \<le> 3600000000000 - p_lastSeen p \<and>
            int i + 1 \<in> fst ` set (c_usedHandles (p_conn p))
       then None else be_handles (sv_fs s) ! i)"
    using cleanup_idle_peers [OF demo_os_ok demo_start s(1) env, of id, unfolded now] by auto
  have "sv_cMap s' = []" using s'(2) s(3) pq(1-3) by simp
  moreover have "be_handles (sv_fs s') ! 0 = None" using s'(3) [rule_format, of 0] one s(3) pq(1-3) by simp
  ultimately show ?thesis using s s'(1) pq(1) by (intro exI [of _ s] exI [of _ s']) (simp add: demo_handle_def)
qed

section \<open>Handles of other peers\<close>

text \<open>
  C26: Handles do not belong to a peer. A CLOSE request is carried out for every peer and every handle of
  the table, also when the handle was given to someone else: the slot is empty afterwards, and
  no other slot has changed.
\<close>

theorem close_any_handle:
  assumes "os_ok os" "NewBackend os opts w = Some (Inr (sv_fs s0))" "Server_New sopts = Inr s0"
    "server_reachable (backend_envs os) s0 s" "E \<in> backend_envs os" "(addr, p) \<in> set (sv_cMap s)"
    and req: "8 \<le> length req" "hd req = MsgCloseReq" "1 \<le> handle_field req" "handle_field req \<le> 64"
  shows "\<exists>fs c. HandlePayload E req (sv_fs s, p_conn p) = Some (fs, c) \<and>
    be_handles fs = (be_handles (sv_fs s))[nat (handle_field req - 1) := None]"
proof -
  note ok = served_ok [OF assms(1-4)]
  obtain x where x: "get32 4 req = Some x" "handle_field req = sint x" using handle_get [OF req(1)] by blast
  obtain t it where e: "E = backend_env os t it" using assms(5) by (auto simp: backend_env_iff)
  have v: "valid_handle (sint x)" using req x by (simp add: valid_handle_def)
  obtain fs where fs: "Backend_Close os (sint x) (sv_fs s) = Some (fs, None)"
    "be_handles fs = (be_handles (sv_fs s))[nat (sint x - 1) := None]"
    using Backend_Close_slot [OF _ v] ok unfolding be.server_ok_def by blast
  obtain c where c: "SendCloseReply 0 (removeHandle (sint x) (p_conn p)) = Some c"
    using bt.sent_replies(2) [OF bt.conn_ok_remove [OF be.server_ok_peer [OF ok assms(6)]]]
    unfolding returns_def by blast
  have "sint x \<noteq> BlockDeviceHandle" using v by (simp add: valid_handle_def)
  then have "handleClose E req (sv_fs s, p_conn p) = Some ((fs, c), 0)"
    using req(1) x(1) fs(1) c by (simp add: handleClose_def e backend_env_def reply_def)
  then show ?thesis using req(1,2) fs(2) x(2)
    by (cases req) (auto simp: HandlePayload_def handler_of_def)
qed

theorem close_any_handle_witness:
  "\<exists>s p fs c. server_reachable (backend_envs demo_os) demo_server s \<and> (AddrPort 1 2, p) \<in> set (sv_cMap s) \<and>
     2 \<notin> fst ` set (c_usedHandles (p_conn p)) \<and> demo_handle 1 (sv_fs s) = Some (''/srv/a'', True) \<and>
     HandlePayload (backend_env demo_os 0 id) [MsgCloseReq, 0, 0, 0, 2, 0, 0, 0] (sv_fs s, p_conn p) = Some (fs, c) \<and>
     be_handles fs = (be_handles (sv_fs s))[1 := None]"
proof -
  obtain s where s: "server_reachable (backend_envs demo_os) demo_server s"
    "demo_handle 1 (sv_fs s) = Some (''/srv/a'', True)"
    and m: "map demo_peer (sv_cMap s) = [(AddrPort 1 2, 0, [1]), (AddrPort 2 2, 0, [2])]"
    using demo_run by auto
  obtain p where p: "(AddrPort 1 2, p) \<in> set (sv_cMap s)" "map fst (c_usedHandles (p_conn p)) = [1]"
    using m by (auto simp: demo_peer_def)
  have f: "handle_field [MsgCloseReq, 0, 0, 0, 2, 0, 0, 0] = 2" by code_simp
  have "2 \<notin> fst ` set (c_usedHandles (p_conn p))" using arg_cong [OF p(2), of set] by simp
  moreover obtain fs c where "HandlePayload (backend_env demo_os 0 id) [MsgCloseReq, 0, 0, 0, 2, 0, 0, 0] (sv_fs s, p_conn p) = Some (fs, c)"
    "be_handles fs = (be_handles (sv_fs s))[1 := None]"
    using close_any_handle [OF demo_os_ok demo_start s(1) demo_env p(1), of "[MsgCloseReq, 0, 0, 0, 2, 0, 0, 0]", unfolded f] by auto
  ultimately show ?thesis using s p(1) by blast
qed

end
