(* ===== verification/FsWrites.thy ===== *)
theory FsWrites
  imports FsTotal "HOL-Library.Sublist"
begin

text \<open>
  Writes arrive in chunks (\<^verbatim>\<open>WRITE\<close> or \<^verbatim>\<open>BWRITE\<close>, then \<^verbatim>\<open>WRITE_DATA\<close>), which the protocol below may hand up
  again after a reset of the peer. The handlers take each chunk at its turn, put the
  data together and write it to the host file once, when the last chunk is in.
\<close>

section \<open>Progress of a write\<close>

text \<open>How far the transfer is after a sequence of chunk numbers: only the next one counts.\<close>

fun progress :: "nat \<Rightarrow> nat list \<Rightarrow> nat" where
  "progress m [] = m"
| "progress m (k # ks) = progress (if k = m then Suc m else m) ks"

lemma progress_mono: "m \<le> progress m ks"
  by (induction ks arbitrary: m) (auto intro: Suc_leD)

lemma progress_complete: "m \<le> n \<Longrightarrow> n \<le> progress m ks \<longleftrightarrow> subseq [m..<n] ks"
proof (induction ks arbitrary: m)
  case (Cons k ks)
  show ?case
  proof (cases "m = n")
    case False
    then have "[m..<n] = m # [Suc m..<n]" using Cons.prems by (intro upt_conv_Cons) simp
    then show ?thesis using Cons.IH [of "Suc m"] Cons.IH [of m] Cons.prems False by auto
  qed (use progress_mono [of m "k # ks"] in simp)
qed (use le_antisym in fastforce)

section \<open>The steps of the backend\<close>

lemma getFile_holds:
  "holds h f s \<Longrightarrow> 0 \<le> h \<Longrightarrow> \<exists>lu. getFile now h s = Some (s\<lparr>be_lastUsed := lu\<rparr>, Some f)"
  by (auto simp: getFile_def holds_def Let_def intro: exI [of _ "be_lastUsed s"])

lemma holds_lastUsed [simp]: "holds h f (s\<lparr>be_lastUsed := lu\<rparr>) = holds h f s"
  by (simp add: holds_def handle_at_def)

lemma holds_log [simp]: "holds h f (s\<lparr>be_world := w, be_log := l\<rparr>) = holds h f s"
  by (simp add: holds_def handle_at_def)

lemma putFile_holds: "holds h f s \<Longrightarrow> holds h f' (putFile h f' s)"
  by (auto simp: holds_def putFile_def handle_at_def split: if_splits)

lemma putFile_log [simp]: "be_log (putFile h f s) = be_log s"
  by (simp add: putFile_def)

lemma chunk_next:
  assumes "holds h f s" "0 \<le> h"
  shows "\<exists>s'. Backend_WriteChunk now h (wr_receivedChunks (fh_wr f)) sz tot b s =
      Some (s', Inr (tot \<le> wr_receivedChunks (fh_wr f) + 1)) \<and> be_log s' = be_log s \<and>
    holds h (f\<lparr>fh_wr := (fh_wr f)\<lparr>wr_dataBuffer := wr_dataBuffer (fh_wr f) @ b, wr_totalChunks := tot,
      wr_receivedChunks := wr_receivedChunks (fh_wr f) + 1\<rparr>\<rparr>) s'"
proof -
  obtain lu where "getFile now h s = Some (s\<lparr>be_lastUsed := lu\<rparr>, Some f)" using getFile_holds [OF assms] by blast
  then show ?thesis using assms by (auto simp: Backend_WriteChunk_def Let_def intro!: putFile_holds [of h f])
qed

lemma chunk_other:
  assumes "holds h f s" "0 \<le> h" "nr \<noteq> wr_receivedChunks (fh_wr f)"
  shows "\<exists>s'. Backend_WriteChunk now h nr sz tot b s = Some (s', Inr False) \<and> be_log s' = be_log s \<and> holds h f s'"
proof -
  obtain lu where "getFile now h s = Some (s\<lparr>be_lastUsed := lu\<rparr>, Some f)" using getFile_holds [OF assms(1,2)] by blast
  then show ?thesis using assms by (auto simp: Backend_WriteChunk_def)
qed

text \<open>The calls that a completed write makes: for a write of sectors, a seek comes first and the data is cut to size.\<close>

definition write_calls :: "int \<Rightarrow> nat \<Rightarrow> writeState \<Rightarrow> os_call list" where
  "write_calls sectorSize fid wr =
     (if wr_blockWrite wr
      then [CSeek fid (int64 (wr_sectorNumber wr * sectorSize)) 0,
            CWrite fid (take (nat (uint (wr_sectorCount wr) * sectorSize)) (wr_dataBuffer wr))]
      else [CWrite fid (wr_dataBuffer wr)])"

definition seeks :: "'w OS \<Rightarrow> bool" where
  "seeks os \<longleftrightarrow> (\<forall>fid off w. snd (snd (OS_Seek os fid off 0 w)) = None)"

lemma go_slice_int_take:
  "0 \<le> n \<Longrightarrow> (if n < int (length xs) then go_slice_int xs 0 n else Some xs) = Some (take (nat n) xs)"
  by (auto simp: go_slice_int_def go_slice_def)

lemma complete_calls:
  assumes "holds h f s" "0 \<le> h" "fh_obj f = OsFile fid name"
    and block: "wr_blockWrite (fh_wr f) \<longrightarrow> seeks os \<and> 0 \<le> sector_size h s \<and> sector_size h s < 2 ^ 40"
  shows "\<exists>s' r. Backend_CompleteWrite os now h s = Some (s', r) \<and>
    be_log s' = be_log s @ write_calls (sector_size h s) fid (fh_wr f)"
proof -
  obtain lu where g: "getFile now h s = Some (s\<lparr>be_lastUsed := lu\<rparr>, Some f)" using getFile_holds [OF assms(1,2)] by blast
  have s: "sector_size h (s\<lparr>be_lastUsed := lu\<rparr>) = sector_size h s" by (simp add: sector_size_def)
  let ?n = "uint (wr_sectorCount (fh_wr f)) * sector_size h s"
  show ?thesis
  proof (cases "wr_blockWrite (fh_wr f)")
    case True
    have n: "0 \<le> ?n" "int64 ?n = ?n" using block True by (simp_all add: sectors_int64)
    obtain w p where "OS_Seek os fid (int64 (wr_sectorNumber (fh_wr f) * sector_size h s)) 0 (be_world s) = (w, p, None)"
      using block True unfolding seeks_def by (metis prod.collapse)
    then show ?thesis using True assms(3) g
      by (simp add: Backend_CompleteWrite_def Let_def s n go_slice_int_take write_calls_def fo_Seek_def fo_Write_def sys_def
          split_beta)
  next
    case False
    then show ?thesis using assms(3) g
      by (simp add: Backend_CompleteWrite_def Let_def write_calls_def fo_Write_def sys_def split_beta)
  qed
qed

section \<open>The steps of a connection\<close>

text \<open>What the client sends: chunk \<open>k\<close> of the data, in a message of its own or behind the header of the request.\<close>

definition chunk_msg :: "bytes list \<Rightarrow> nat \<Rightarrow> bytes" where
  "chunk_msg data k = [MsgWriteData, 0] @ le16 (of_nat k) @ le16 (of_nat (length (data ! k))) @
     le16 (of_nat (length data)) @ data ! k"

lemma get16_at: "length a = i \<Longrightarrow> get16 i (a @ le16 x @ b) = Some x"
  by (simp add: get16_def go_slice_def)

lemma chunk_msg_fields:
  "get16 2 (chunk_msg data k) = Some (of_nat k)" "get16 4 (chunk_msg data k) = Some (of_nat (length (data ! k)))"
  "get16 6 (chunk_msg data k) = Some (of_nat (length data))" "drop 8 (chunk_msg data k) = data ! k"
  "hd (chunk_msg data k) = MsgWriteData" "8 \<le> length (chunk_msg data k)" "chunk_msg data k \<noteq> []"
proof -
  let ?a = "[MsgWriteData, 0] @ le16 (of_nat k)"
  let ?b = "?a @ le16 (of_nat (length (data ! k)))"
  show "get16 2 (chunk_msg data k) = Some (of_nat k)"
    unfolding chunk_msg_def by (rule get16_at) simp
  show "get16 4 (chunk_msg data k) = Some (of_nat (length (data ! k)))"
    using get16_at [of ?a 4 "of_nat (length (data ! k))"] by (simp add: chunk_msg_def)
  show "get16 6 (chunk_msg data k) = Some (of_nat (length data))"
    using get16_at [of ?b 6 "of_nat (length data)"] by (simp add: chunk_msg_def)
qed (simp_all add: chunk_msg_def le16_def)

text \<open>
  The state of a write of \<open>data\<close> to file \<open>fid\<close> behind handle \<open>h\<close> with \<open>m\<close> chunks in: put together so far,
  or done. \<open>wr\<close> says where the data goes, \<open>log\<close> is the log of before.
\<close>

definition assembled :: "int \<Rightarrow> nat \<Rightarrow> writeState \<Rightarrow> bytes list \<Rightarrow> nat \<Rightarrow> 'w Backend \<Rightarrow> bool" where
  "assembled h fid wr data m fs \<longleftrightarrow> (\<exists>f name tot. holds h f fs \<and> fh_obj f = OsFile fid name \<and>
     fh_wr f = wr\<lparr>wr_dataBuffer := concat (take m data), wr_totalChunks := tot, wr_receivedChunks := of_nat m\<rparr>)"

definition in_write :: "'w OS \<Rightarrow> 'w Backend \<Rightarrow> int \<Rightarrow> nat \<Rightarrow> writeState \<Rightarrow> bytes list \<Rightarrow> os_call list \<Rightarrow> nat \<Rightarrow>
    'w Backend conn_state \<Rightarrow> bool" where
  "in_write os s0 h fid wr data log m = (\<lambda>(fs, c). be.state_ok os s0 (fs, c) \<and>
     (if m < length data
      then c_activeWriteHandle c = h \<and> be_log fs = log \<and> assembled h fid wr data m fs
      else c_activeWriteHandle c = - 1 \<and>
        be_log fs = log @ write_calls (sector_size h s0) fid (wr\<lparr>wr_dataBuffer := concat data\<rparr>)))"

lemma u16_of_nat:
  assumes "a < 2 ^ 16" "b < 2 ^ 16"
  shows "(of_nat a :: u16) = of_nat b \<longleftrightarrow> a = b" "(of_nat a :: u16) \<le> of_nat b \<longleftrightarrow> a \<le> b" "unat (of_nat a :: u16) = a"
proof -
  have u: "unat (of_nat a :: u16) = a" "unat (of_nat b :: u16) = b" using assms by (simp_all add: unat_of_nat)
  then show "(of_nat a :: u16) = of_nat b \<longleftrightarrow> a = b" by metis
  show "(of_nat a :: u16) \<le> of_nat b \<longleftrightarrow> a \<le> b" by (simp only: word_le_nat_alt u)
  show "unat (of_nat a :: u16) = a" by (rule u(1))
qed

text \<open>What is asked of a write: the target can be reached and the numbers fit their fields.\<close>

definition writes :: "'w OS \<Rightarrow> 'w Backend \<Rightarrow> int \<Rightarrow> writeState \<Rightarrow> bytes list \<Rightarrow> bool" where
  "writes os s0 h wr data \<longleftrightarrow> 0 \<le> h \<and>
     (wr_blockWrite wr \<longrightarrow> seeks os \<and> 0 \<le> sector_size h s0 \<and> sector_size h s0 < 2 ^ 40) \<and> length data < 2 ^ 16 \<and> (\<forall>d \<in> set data. length d < 2 ^ 16)"

lemma sector_size_inv: "backend_inv os s0 fs \<Longrightarrow> sector_size h fs = sector_size h s0"
  using inv_config(3) by (fastforce simp: sector_size_def)

lemma chunk_outcome:
  assumes w: "in_write os s0 h fid wr data log m (fs, c)" "writes os s0 h wr data" "m < length data" "k < length data"
    and E: "E \<in> backend_envs os"
  shows "\<exists>fs' co code. handle_chunk E h (chunk_msg data k) len (fs, c) = reply fs' code co \<and>
    (if k = m \<and> Suc m = length data
     then (\<exists>r. co = SendWriteDone r c) \<and>
       be_log fs' = log @ write_calls (sector_size h s0) fid (wr\<lparr>wr_dataBuffer := concat data\<rparr>)
     else co = Conn_SendACK True c \<and> be_log fs' = log \<and> assembled h fid wr data (if k = m then Suc m else m) fs')"
proof -
  obtain t it where e: "E = backend_env os t it" using E by (auto simp: backend_env_iff)
  obtain f name tot where f: "holds h f fs" "fh_obj f = OsFile fid name" "be_log fs = log"
    "fh_wr f = wr\<lparr>wr_dataBuffer := concat (take m data), wr_totalChunks := tot, wr_receivedChunks := of_nat m\<rparr>"
    using w(1,3) by (auto simp: in_write_def assembled_def)
  have h: "0 \<le> h" using w(2) by (simp add: writes_def)
  have len: "length data < 2 ^ 16" "length (data ! k) < 2 ^ 16" using w(2,4) by (auto simp: writes_def)
  let ?chunk = "Backend_WriteChunk t h (of_nat k) (of_nat (length (data ! k))) (of_nat (length data)) (data ! k) fs"
  have cut: "(if unat (of_nat (length (data ! k)) :: u16) < length (data ! k) then x else y) = y" for x y :: bytes
    using u16_of_nat(3) [OF len(2) len(2)] by simp
  have ack: "handle_chunk E h (chunk_msg data k) len (fs, c) = reply fs' (int len) (Conn_SendACK True c)"
    if "?chunk = Some (fs', Inr False)" for fs'
    using that by (simp add: handle_chunk_def e backend_env_def chunk_msg_fields cut Let_def)
  have fin: "\<exists>code r'. handle_chunk E h (chunk_msg data k) len (fs, c) = reply fs2 code (SendWriteDone r' c)"
    if "?chunk = Some (fs', Inr True)" "Backend_CompleteWrite os t h fs' = Some (fs2, r)" for fs' fs2 r
    using that by (cases r) (auto simp: handle_chunk_def e backend_env_def chunk_msg_fields cut Let_def)
  show ?thesis
  proof (cases "k = m")
    case False
    have "of_nat k \<noteq> (of_nat m :: u16)" using u16_of_nat(1) [of k m] False w(3,4) len by simp
    then have "of_nat k \<noteq> wr_receivedChunks (fh_wr f)" by (simp add: f(4))
    then obtain fs' where "?chunk = Some (fs', Inr False)" "be_log fs' = log" "holds h f fs'"
      using chunk_other [OF f(1) h] f(3) by metis
    moreover from this have "assembled h fid wr data m fs'" using f(2,4) unfolding assembled_def by blast
    ultimately show ?thesis using False ack by (intro exI [of _ fs']) auto
  next
    case True
    let ?wr = "wr\<lparr>wr_dataBuffer := concat (take (Suc m) data), wr_totalChunks := of_nat (length data),
      wr_receivedChunks := of_nat (Suc m)\<rparr>"
    have last: "of_nat (length data) \<le> (of_nat (Suc m) :: u16) \<longleftrightarrow> Suc m = length data"
      using u16_of_nat(2) [of "length data" "Suc m"] len(1) w(3) by auto
    have "fh_wr f = wr\<lparr>wr_dataBuffer := concat (take m data), wr_totalChunks := tot, wr_receivedChunks := of_nat m\<rparr>"
      by (rule f(4))
    then obtain fs' where c1: "?chunk = Some (fs', Inr (Suc m = length data))" "be_log fs' = log" "holds h (f\<lparr>fh_wr := ?wr\<rparr>) fs'"
      using chunk_next [OF f(1) h, of t "of_nat (length (data ! k))" "of_nat (length data)" "data ! k"] f(3) last w(3) True
      by (auto simp: take_Suc_conv_app_nth add.commute)
    show ?thesis
    proof (cases "Suc m = length data")
      case False
      then have "?chunk = Some (fs', Inr False)" using c1(1) by simp
      moreover have "assembled h fid wr data (Suc m) fs'"
        unfolding assembled_def using c1(3) f(2) by (intro exI [of _ "f\<lparr>fh_wr := ?wr\<rparr>"]) auto
      ultimately show ?thesis using False c1(2) ack True by (intro exI [of _ fs']) auto
    next
      case last: True
      have "be.state_ok os s0 (fs, c)" using w(1) by (simp add: in_write_def)
      then have inv: "backend_inv os s0 fs" by (simp add: be.state_ok_def)
      have "be.state_ok os s0 (fs, c)" using w(1) by (simp add: in_write_def)
      then have "\<not> be_readOnly s0 \<and> usable_handle h" "backend_inv os s0 fs"
        using w(1,3) h by (auto simp: in_write_def be.state_ok_def be.conn_ok_def)
      then have "backend_inv os s0 fs'" using be.write_chunk_inv [OF E] c1(1) by (auto simp: e backend_env_def)
      note ss = sector_size_inv [OF this, of h]
      have "wr_blockWrite wr \<longrightarrow> seeks os \<and> 0 \<le> sector_size h s0 \<and> sector_size h s0 < 2 ^ 40"
        using w(2) by (simp add: writes_def)
      then obtain fs2 r where c2: "Backend_CompleteWrite os t h fs' = Some (fs2, r)"
        "be_log fs2 = be_log fs' @ write_calls (sector_size h s0) fid ?wr"
        using complete_calls [OF c1(3) h, of fid name os t] f(2) by (auto simp: ss)
      moreover have "write_calls (sector_size h s0) fid ?wr =
          write_calls (sector_size h s0) fid (wr\<lparr>wr_dataBuffer := concat data\<rparr>)"
        by (simp add: write_calls_def last)
      moreover have "?chunk = Some (fs', Inr True)" using c1(1) last by simp
      ultimately show ?thesis using fin [of fs' fs2 r] c1(2) last True by auto
    qed
  qed
qed

lemma in_write_metrics:
  "in_write os s0 h fid wr data log m (fs, c) \<Longrightarrow> in_write os s0 h fid wr data log m (fs, c\<lparr>c_metrics := x\<rparr>)"
  by (simp add: in_write_def be.state_ok_def be.conn_ok_metrics)

lemma in_write_state_ok: "in_write os s0 h fid wr data log m st \<Longrightarrow> be.state_ok os s0 st"
  by (auto simp: in_write_def)

lemma SendWriteDone_clears: "SendWriteDone r c = Some c' \<Longrightarrow> c_activeWriteHandle c' = - 1"
  by (auto simp: SendWriteDone_def Conn_SendData_def clearWriteHandle_def)

lemma Conn_SendACK_keeps: "Conn_SendACK a c = Some c' \<Longrightarrow> c_activeWriteHandle c' = c_activeWriteHandle c"
  by (auto simp: Conn_SendACK_def)

lemma chunk_step:
  assumes w: "in_write os s0 h fid wr data log m (fs, c)" "writes os s0 h wr data" "m < length data" "k < length data"
    and E: "E \<in> backend_envs os"
  shows "\<exists>st' code. handle_chunk E h (chunk_msg data k) len (fs, c) = Some (st', code) \<and>
    in_write os s0 h fid wr data log (if k = m then Suc m else m) st'"
proof -
  obtain fs' co code where o: "handle_chunk E h (chunk_msg data k) len (fs, c) = reply fs' code co"
    "if k = m \<and> Suc m = length data
     then (\<exists>r. co = SendWriteDone r c) \<and>
       be_log fs' = log @ write_calls (sector_size h s0) fid (wr\<lparr>wr_dataBuffer := concat data\<rparr>)
     else co = Conn_SendACK True c \<and> be_log fs' = log \<and> assembled h fid wr data (if k = m then Suc m else m) fs'"
    using chunk_outcome [OF assms] by blast
  have ok: "be.state_ok os s0 (fs, c)" using w(1) by (rule in_write_state_ok)
  then have c: "backend_inv os s0 fs" "be.conn_ok TYPE('a) s0 c" by (simp_all add: be.state_ok_def)
  have h: "c_activeWriteHandle c = h" "h \<noteq> - 1" using w(1-3) by (auto simp: in_write_def writes_def)
  then have u: "\<not> be_readOnly s0 \<and> usable_handle h" using c(2) unfolding be.conn_ok_def by blast
  have "returns co"
    using o(2) bt.sent_replies(1) [OF c(2)] bt.sent_ACK [OF c(2)] by (auto split: if_splits)
  then obtain c' where c': "co = Some c'" by (auto simp: returns_def)
  then have r: "handle_chunk E h (chunk_msg data k) len (fs, c) = Some ((fs', c'), code)" using o(1) by (simp add: reply_def)
  then have "be.state_ok os s0 (fs', c')" using postD [OF be.handle_chunk_ok [OF E c u] r] by simp
  then have "in_write os s0 h fid wr data log (if k = m then Suc m else m) (fs', c')"
    using o(2) w(3) h(1) unfolding c' by (auto simp: in_write_def dest: SendWriteDone_clears [OF sym] Conn_SendACK_keeps [OF sym] split: if_splits)
  then show ?thesis using r by blast
qed

lemma data_step:
  assumes w: "in_write os s0 h fid wr data log m st" "writes os s0 h wr data" "k < length data" "m \<le> length data"
    and E: "E \<in> backend_envs os"
  shows "\<exists>st'. HandlePayload E (chunk_msg data k) st = Some st' \<and>
    in_write os s0 h fid wr data log (if k = m then Suc m else m) st'"
proof -
  obtain fs c where st: "st = (fs, c)" by fastforce
  have "\<exists>st' code. handleWriteData E (chunk_msg data k) (fs, c) = Some (st', code) \<and>
    in_write os s0 h fid wr data log (if k = m then Suc m else m) st'"
  proof (cases "m < length data")
    case True
    then have "c_activeWriteHandle c = h" "h \<noteq> - 1" using w(1,2) by (auto simp: st in_write_def writes_def)
    then show ?thesis using chunk_step [OF w(1) [unfolded st] w(2) True w(3) E, of "length (chunk_msg data k)"]
      chunk_msg_fields(6) [of data k]
      by (simp add: handleWriteData_def getWriteHandle_def)
  next
    case False
    then have a: "c_activeWriteHandle c = - 1" using w(1) by (simp add: st in_write_def)
    have ok: "backend_inv os s0 fs" "be.conn_ok TYPE('a) s0 c" using in_write_state_ok [OF w(1)] by (simp_all add: st be.state_ok_def)
    then obtain c' where c': "Conn_SendACK True c = Some c'" using bt.sent_ACK [OF ok(2)] by (auto simp: returns_def)
    then have "be.state_ok os s0 (fs, c')" using ok postD [OF be.sends_ACK [OF ok(2)]] by (simp add: be.state_ok_def)
    then have "in_write os s0 h fid wr data log m (fs, c')"
      using w(1) False Conn_SendACK_keeps [OF c'] by (simp add: st in_write_def)
    then show ?thesis using a c' False w(3,4) chunk_msg_fields(6) [of data k]
      by (auto simp: handleWriteData_def getWriteHandle_def reply_def)
  qed
  then obtain st' code where h: "handleWriteData E (chunk_msg data k) (fs, c) = Some (st', code)"
    "in_write os s0 h fid wr data log (if k = m then Suc m else m) st'" by blast
  moreover obtain fs' c' where "st' = (fs', c')" by fastforce
  ultimately show ?thesis
    using in_write_metrics by (auto simp: st HandlePayload_def handler_of_def chunk_msg_fields)
qed

section \<open>Whole writes\<close>

fun run_requests :: "('f Env \<times> bytes) list \<Rightarrow> 'f conn_state \<Rightarrow> 'f conn_state option" where
  "run_requests [] st = Some st"
| "run_requests ((E, p) # rs) st = do { st \<leftarrow> HandlePayload E p st; run_requests rs st }"

lemma chunks_run:
  assumes "writes os s0 h wr data"
  shows "in_write os s0 h fid wr data log m st \<Longrightarrow> m \<le> length data \<Longrightarrow>
    \<forall>(E, k) \<in> set rs. E \<in> backend_envs os \<and> k < length data \<Longrightarrow>
    \<exists>st'. run_requests (map (\<lambda>(E, k). (E, chunk_msg data k)) rs) st = Some st' \<and>
      in_write os s0 h fid wr data log (progress m (map snd rs)) st'"
proof (induction rs arbitrary: st m)
  case (Cons r rs)
  obtain E k where r: "r = (E, k)" by fastforce
  have k: "E \<in> backend_envs os" "k < length data" using Cons.prems(3) by (simp_all add: r)
  obtain st1 where "HandlePayload E (chunk_msg data k) st = Some st1"
    "in_write os s0 h fid wr data log (if k = m then Suc m else m) st1"
    using data_step [OF Cons.prems(1) assms k(2) Cons.prems(2) k(1)] by blast
  then show ?case
    using Cons.IH [of "if k = m then Suc m else m" st1] Cons.prems(2,3) k(2) by (auto simp: r split: if_splits)
qed simp

text \<open>The first chunk may come behind the header of the request.\<close>

definition chunk_opt :: "bytes list \<Rightarrow> nat option \<Rightarrow> bytes" where
  "chunk_opt data first = (case first of None \<Rightarrow> [] | Some k \<Rightarrow> chunk_msg data k)"

definition opt_list :: "'a option \<Rightarrow> 'a list" where
  "opt_list x = (case x of None \<Rightarrow> [] | Some a \<Rightarrow> [a])"

lemma first_chunk:
  assumes w: "in_write os s0 h fid wr data log 0 (fs, c)" "writes os s0 h wr data" "data \<noteq> []"
    and k: "\<forall>k. first = Some k \<longrightarrow> k < length data" and E: "E \<in> backend_envs os"
  shows "\<exists>st' code. (if chunk_opt data first = [] then reply fs 0 (Conn_SendACK True c)
      else handle_chunk E h (chunk_opt data first) len (fs, c)) = Some (st', code) \<and>
    in_write os s0 h fid wr data log (progress 0 (opt_list first)) st'"
proof (cases first)
  case None
  have ok: "backend_inv os s0 fs" "be.conn_ok TYPE('a) s0 c" using in_write_state_ok [OF w(1)] by (simp_all add: be.state_ok_def)
  then obtain c' where c': "Conn_SendACK True c = Some c'" using bt.sent_ACK [OF ok(2)] by (auto simp: returns_def)
  then have "be.state_ok os s0 (fs, c')" using ok postD [OF be.sends_ACK [OF ok(2)]] by (simp add: be.state_ok_def)
  then show ?thesis using None w(1,3) Conn_SendACK_keeps [OF c'] c'
    by (auto simp: chunk_opt_def opt_list_def reply_def in_write_def)
next
  case (Some k)
  then show ?thesis using chunk_step [OF w(1,2) _ _ E, of k len] w(3) k
    by (auto simp: chunk_opt_def opt_list_def chunk_msg_fields)
qed

lemma write_finished:
  assumes w: "writes os s0 h wr data" "data \<noteq> []"
    and st: "HandlePayload E req st = Some st1" "in_write os s0 h fid wr data log (progress 0 (opt_list first)) st1"
    and k: "\<forall>k. first = Some k \<longrightarrow> k < length data"
    and rs: "\<forall>(E, k) \<in> set rs. E \<in> backend_envs os \<and> k < length data"
  shows "\<exists>fs c. run_requests ((E, req) # map (\<lambda>(E, k). (E, chunk_msg data k)) rs) st = Some (fs, c) \<and>
    be_log fs = log @ (if subseq [0..<length data] (opt_list first @ map snd rs)
      then write_calls (sector_size h s0) fid (wr\<lparr>wr_dataBuffer := concat data\<rparr>) else [])"
proof -
  have m: "progress 0 (opt_list first) \<le> length data" using k w(2) by (auto simp: opt_list_def Suc_leI split: option.split)
  obtain fs c where r: "run_requests (map (\<lambda>(E, k). (E, chunk_msg data k)) rs) st1 = Some (fs, c)"
    "in_write os s0 h fid wr data log (progress (progress 0 (opt_list first)) (map snd rs)) (fs, c)"
    using chunks_run [OF w(1) st(2) m rs] by auto
  have p: "progress (progress 0 (opt_list first)) (map snd rs) = progress 0 (opt_list first @ map snd rs)"
    by (cases first) (simp_all add: opt_list_def)
  have "progress 0 (opt_list first @ map snd rs) < length data \<longleftrightarrow> \<not> subseq [0..<length data] (opt_list first @ map snd rs)"
    using progress_complete [of 0 "length data"] by (simp add: not_le [symmetric])
  then show ?thesis using r st(1) by (auto simp: p in_write_def)
qed

text \<open>The requests that start a write.\<close>

definition write_req :: "int \<Rightarrow> u32 \<Rightarrow> bytes" where
  "write_req h sz = [MsgWriteReq, 0, 0, 0] @ put32 h @ le32 sz"

definition bwrite_req :: "int \<Rightarrow> u16 \<Rightarrow> u32 \<Rightarrow> u32 \<Rightarrow> bytes" where
  "bwrite_req h cnt lo hi = [MsgBwriteReq, 0] @ le16 cnt @ put32 h @ le32 lo @ le32 hi"

lemma get32_at: "length a = i \<Longrightarrow> get32 i (a @ le32 x @ b) = Some x"
  by (simp add: get32_def go_slice_def)

lemma req_fields:
  "get32 4 (write_req h sz @ b) = Some (word_of_int h)"
  "get16 2 (bwrite_req h cnt lo hi @ b) = Some cnt" "get32 4 (bwrite_req h cnt lo hi @ b) = Some (word_of_int h)"
  "get32 8 (bwrite_req h cnt lo hi @ b) = Some lo" "get32 12 (bwrite_req h cnt lo hi @ b) = Some hi"
  using get32_at [of "[MsgWriteReq, 0, 0, 0]" 4 "word_of_int h" "le32 sz @ b"]
    get16_at [of "[MsgBwriteReq, 0]" 2 cnt] get32_at [of "[MsgBwriteReq, 0] @ le16 cnt" 4 "word_of_int h"]
    get32_at [of "[MsgBwriteReq, 0] @ le16 cnt @ put32 h" 8 lo]
    get32_at [of "[MsgBwriteReq, 0] @ le16 cnt @ put32 h @ le32 lo" 12 hi]
  by (simp_all add: write_req_def bwrite_req_def put32_def)

lemma sint_of_int32: "- (2 ^ 31) \<le> h \<Longrightarrow> h < 2 ^ 31 \<Longrightarrow> sint (word_of_int h :: u32) = h"
  unfolding sint_sbintrunc' by (rule signed_take_bit_int_eq_self) simp_all

lemma starts:
  assumes ok: "be.state_ok os s0 (fs, c)" and f: "holds h f fs" "fh_obj f = OsFile fid name" "\<not> fh_readOnly f" "0 \<le> h"
    and E: "E \<in> backend_envs os" and data: "data \<noteq> []"
  shows "\<exists>fs'. fs_WriteStart E h fs = Some (fs', None) \<and>
      in_write os s0 h fid ((fh_wr f)\<lparr>wr_blockWrite := False\<rparr>) data (be_log fs) 0 (fs', setWriteHandle h c)"
    "\<exists>fs'. fs_BwriteStart E h nr cnt fs = Some (fs', None) \<and>
      in_write os s0 h fid ((fh_wr f)\<lparr>wr_blockWrite := True, wr_sectorNumber := nr, wr_sectorCount := cnt\<rparr>) data
        (be_log fs) 0 (fs', setWriteHandle h c)"
proof -
  obtain t it where e: "E = backend_env os t it" using E by (auto simp: backend_env_iff)
  obtain lu where g: "getFile t h fs = Some (fs\<lparr>be_lastUsed := lu\<rparr>, Some f)" using getFile_holds [OF f(1,4)] by blast
  have inv: "backend_inv os s0 fs" "be.conn_ok TYPE('a) s0 c" using ok by (simp_all add: be.state_ok_def)
  let ?f = "\<lambda>wr. f\<lparr>fh_wr := wr\<lparr>wr_dataBuffer := [], wr_totalChunks := 0, wr_receivedChunks := 0\<rparr>\<rparr>"
  let ?put = "\<lambda>wr. putFile h (?f wr) (fs\<lparr>be_lastUsed := lu\<rparr>)"
  have put: "assembled h fid wr data 0 (?put wr)" for wr
    unfolding assembled_def using putFile_holds [of h f "fs\<lparr>be_lastUsed := lu\<rparr>" "?f wr"] f(1,2)
    by (intro exI [of _ "?f wr"] exI [of _ name] exI [of _ 0]) simp
  let ?w = "(fh_wr f)\<lparr>wr_blockWrite := False\<rparr>"
  have 1: "fs_WriteStart E h fs = Some (?put ?w, None)"
    using g f(3) by (simp add: e backend_env_def Backend_WriteStart_def Let_def)
  have "be.state_ok os s0 (?put ?w, setWriteHandle h c)"
    using be.write_start_inv [OF E inv(1) 1] be.conn_ok_set [OF inv(2), of h]
    unfolding be.state_ok_def fst_conv snd_conv by blast
  then show "\<exists>fs'. fs_WriteStart E h fs = Some (fs', None) \<and>
      in_write os s0 h fid ?w data (be_log fs) 0 (fs', setWriteHandle h c)"
    using 1 put [of ?w] data by (simp add: in_write_def setWriteHandle_def)
  let ?b = "(fh_wr f)\<lparr>wr_blockWrite := True, wr_sectorNumber := nr, wr_sectorCount := cnt\<rparr>"
  have 2: "fs_BwriteStart E h nr cnt fs = Some (?put ?b, None)"
    using g f(3) by (simp add: e backend_env_def Backend_BwriteStart_def Let_def)
  have "be.state_ok os s0 (?put ?b, setWriteHandle h c)"
    using be.bwrite_start_inv [OF E inv(1) 2] be.conn_ok_set [OF inv(2), of h]
    unfolding be.state_ok_def fst_conv snd_conv by blast
  then show "\<exists>fs'. fs_BwriteStart E h nr cnt fs = Some (fs', None) \<and>
      in_write os s0 h fid ?b data (be_log fs) 0 (fs', setWriteHandle h c)"
    using 2 put [of ?b] data by (simp add: in_write_def setWriteHandle_def)
qed

lemma chunk_opt_length: "chunk_opt data first \<noteq> [] \<Longrightarrow> 8 \<le> length (chunk_opt data first)"
  using chunk_msg_fields(6) [of data] by (simp add: chunk_opt_def split: option.splits)

lemma HandlePayload_in_write:
  assumes "handler_of E (hd req) = Some handler" "req \<noteq> []" "handler req st = Some (st', code)"
    "in_write os s0 h fid wr data log m st'"
  shows "\<exists>st1. HandlePayload E req st = Some st1 \<and> in_write os s0 h fid wr data log m st1"
  using assms in_write_metrics [of os s0 h fid wr data log m "fst st'" "snd st'"]
  by (cases st; cases st') (auto simp: HandlePayload_def)

lemma write_req_step:
  assumes ok: "be.state_ok os s0 (fs, c)" and f: "holds h f fs" "fh_obj f = OsFile fid name" "\<not> fh_readOnly f" "0 \<le> h" "h < 2 ^ 31"
    and E: "E \<in> backend_envs os" and w: "writes os s0 h ((fh_wr f)\<lparr>wr_blockWrite := False\<rparr>) data" "data \<noteq> []"
    and k: "\<forall>k. first = Some k \<longrightarrow> k < length data"
  shows "\<exists>st1. HandlePayload E (write_req h sz @ chunk_opt data first) (fs, c) = Some st1 \<and>
    in_write os s0 h fid ((fh_wr f)\<lparr>wr_blockWrite := False\<rparr>) data (be_log fs) (progress 0 (opt_list first)) st1"
proof -
  let ?req = "write_req h sz @ chunk_opt data first"
  obtain fs1 where s1: "fs_WriteStart E h fs = Some (fs1, None)"
    "in_write os s0 h fid ((fh_wr f)\<lparr>wr_blockWrite := False\<rparr>) data (be_log fs) 0 (fs1, setWriteHandle h c)"
    using starts(1) [OF ok f(1-4) E w(2)] by blast
  obtain st' code where c1: "(if chunk_opt data first = [] then reply fs1 0 (Conn_SendACK True (setWriteHandle h c))
      else handle_chunk E h (chunk_opt data first) (length ?req) (fs1, setWriteHandle h c)) = Some (st', code)"
    "in_write os s0 h fid ((fh_wr f)\<lparr>wr_blockWrite := False\<rparr>) data (be_log fs) (progress 0 (opt_list first)) st'"
    using first_chunk [OF s1(2) w k E] by blast
  have "length (write_req h sz) = 12" "drop 12 ?req = chunk_opt data first" by (simp_all add: write_req_def)
  then have "handleWriteReq E ?req (fs, c) = Some (st', code)"
    using s1(1) c1(1) chunk_opt_length [of data first] f(4,5)
    by (auto simp: handleWriteReq_def req_fields sint_of_int32 Let_def split: if_splits)
  then show ?thesis
    by (intro HandlePayload_in_write [OF _ _ _ c1(2), of _ _ "handleWriteReq E"]) (simp_all add: handler_of_def write_req_def)
qed

lemma bwrite_req_step:
  assumes ok: "be.state_ok os s0 (fs, c)" and f: "holds h f fs" "fh_obj f = OsFile fid name" "\<not> fh_readOnly f" "0 \<le> h" "h < 2 ^ 31"
    and E: "E \<in> backend_envs os"
    and wr: "wr = (fh_wr f)\<lparr>wr_blockWrite := True, wr_sectorNumber := join64 lo hi, wr_sectorCount := cnt\<rparr>"
    and w: "writes os s0 h wr data" "data \<noteq> []" and k: "\<forall>k. first = Some k \<longrightarrow> k < length data"
  shows "\<exists>st1. HandlePayload E (bwrite_req h cnt lo hi @ chunk_opt data first) (fs, c) = Some st1 \<and>
    in_write os s0 h fid wr data (be_log fs) (progress 0 (opt_list first)) st1"
proof -
  let ?req = "bwrite_req h cnt lo hi @ chunk_opt data first"
  obtain fs1 where s1: "fs_BwriteStart E h (join64 lo hi) cnt fs = Some (fs1, None)"
    "in_write os s0 h fid wr data (be_log fs) 0 (fs1, setWriteHandle h c)"
    using starts(2) [OF ok f(1-4) E w(2)] unfolding wr by blast
  obtain st' code where c1: "(if chunk_opt data first = [] then reply fs1 0 (Conn_SendACK True (setWriteHandle h c))
      else handle_chunk E h (chunk_opt data first) (length ?req) (fs1, setWriteHandle h c)) = Some (st', code)"
    "in_write os s0 h fid wr data (be_log fs) (progress 0 (opt_list first)) st'"
    using first_chunk [OF s1(2) w k E] by blast
  have "length (bwrite_req h cnt lo hi) = 16" "drop 16 ?req = chunk_opt data first" by (simp_all add: bwrite_req_def)
  then have "handleBwriteReq E ?req (fs, c) = Some (st', code)"
    using s1(1) c1(1) chunk_opt_length [of data first] f(4,5)
    by (auto simp: handleBwriteReq_def req_fields sint_of_int32 Let_def split: if_splits)
  then show ?thesis
    by (intro HandlePayload_in_write [OF _ _ _ c1(2), of _ _ "handleBwriteReq E"]) (simp_all add: handler_of_def bwrite_req_def)
qed

lemma peer_state_ok:
  "be.server_ok os s0 s \<Longrightarrow> be.state_ok os s0 (sv_fs s, p_conn (get_peer E addr s))"
  using be.get_peer_ok by (simp add: be.state_ok_def be.server_ok_def)


definition dev_server :: "unit Backend Server" where
  "dev_server = \<lparr>sv_fs = (initial_backend ())\<lparr>be_blockDevice := ''/dev/sd'',
       be_bdHandle := Some \<lparr>bd_fileHandle = newFileHandle (OsFile 3 ''/dev/sd'') False, bd_totalSectorCount = 0\<rparr>,
       be_log := [COpenFile ''/dev/sd'' O_RDWR, CFStat 3]\<rparr>,
     sv_cMap = [], sv_peerTimeout = defaultPeerTimeout, sv_port = UDPFSPort,
     sv_bindIP = [], sv_metricsLoggingPeriod = metricsLoggingPeriod, sv_verbose = False, sv_logMetrics = False\<rparr>"

lemma dev_start:
  "NewBackend demo_os [WithBlockDevice ''/dev/sd''] () = Some (Inr (sv_fs dev_server))"
  "Server_New [WithFS (Some (sv_fs dev_server))] = Inr dev_server"
  by (simp_all add: NewBackend_def mount_root_def mount_device_def sys_def demo_os_def demo_info_def dev_server_def
      initial_backend_def Server_New_def go_quot_def)

lemma dev_holds: "holds 0 (newFileHandle (OsFile 3 ''/dev/sd'') False) (sv_fs dev_server)"
  by (simp add: holds_def dev_server_def)




end
