(* ===== verification/FsReads.thy ===== *)
theory FsReads
  imports FsWrites
begin

text \<open>
  The way of a file's bytes from the host to the client, through every layer: the datagram with the
  request, the dispatcher, the backend, the reply, its packets, and the client's session.
\<close>

section \<open>One request through the server\<close>

text \<open>
  The request of a packet that does not reset the session runs on the connection as it was, with the
  session that has taken the packet in.
\<close>

lemma dataHandler_request:
  assumes p: "ProcessDataPacket (c_sess (p_conn (get_peer E addr s))) (take 2048 data) = Some (sess, Inr (Some payload))"
    and "6 \<le> length data" "reset_calls (c_sess (p_conn (get_peer E addr s))) sess = 0"
    and h: "HandlePayload E payload (sv_fs s, (p_conn (get_peer E addr s))\<lparr>c_sess := sess\<rparr>) = Some (fs, c)"
  shows "\<exists>s' p'. dataHandler E data addr s = Some s' \<and> sv_fs s' = fs \<and> map_of (sv_cMap s') addr = Some p' \<and> p_conn p' = c"
proof -
  have "process_packet E (take 2048 data) (sv_fs s, p_conn (get_peer E addr s)) = Some (fs, c)"
    using assms by (simp add: process_packet_def)
  then show ?thesis using assms(2)
    by (auto simp: dataHandler_def handleData_def Let_def update_conv)
qed

section \<open>Reading a file\<close>

definition read_req :: "int \<Rightarrow> u32 \<Rightarrow> bytes" where
  "read_req h n = [MsgReadReq, 0, 0, 0] @ put32 h @ le32 n"

lemma read_req_fields:
  "get32 4 (read_req h n) = Some (word_of_int h)" "get32 8 (read_req h n) = Some n"
  "length (read_req h n) = 12" "hd (read_req h n) = MsgReadReq" "read_req h n \<noteq> []"
  using get32_at [of "[MsgReadReq, 0, 0, 0]" 4 "word_of_int h" "le32 n"]
    get32_at [of "[MsgReadReq, 0, 0, 0] @ put32 h" 8 n "[]"]
  by (simp_all add: read_req_def put32_def)

lemma Backend_Read_file:
  assumes "holds h f s" "0 \<le> h" "fh_obj f = OsFile fid name" "unat n \<le> 131072"
    and "OS_Read os fid (unat n) (be_world s) = (w, b, None)"
  shows "\<exists>s'. Backend_Read os now h n s = Some (s', Inr (int32 (int (length b)), b)) \<and> be_log s' = be_log s @ [CRead fid (unat n)]"
proof -
  obtain lu where "getFile now h s = Some (s\<lparr>be_lastUsed := lu\<rparr>, Some f)" using getFile_holds [OF assms(1,2)] by blast
  then show ?thesis using assms(3-5) by (simp add: Backend_Read_def fo_Read_def sys_def)
qed

text \<open>
  C2: A read delivers the bytes of the file. In whatever state of the server, when a datagram completes a
  READ request for up to 128 KiB from an open host file, the server asks the host for that many bytes, and
  the packets it answers with bring the client the result header with the number of bytes
  and exactly the bytes the host returned, padded to a multiple of four; at the end the server waits for
  nothing.
\<close>

theorem read_delivered:
  assumes "os_ok os" "NewBackend os opts w0 = Some (Inr (sv_fs s0))" "Server_New sopts = Inr s0"
    "server_reachable (backend_envs os) s0 s" "E \<in> backend_envs os"
    and pkt: "ProcessDataPacket (c_sess (p_conn (get_peer E addr s))) (take 2048 data) = Some (sess, Inr (Some (read_req h n)))"
    "6 \<le> length data" "reset_calls (c_sess (p_conn (get_peer E addr s))) sess = 0"
    and f: "holds h f (sv_fs s)" "fh_obj f = OsFile fid name" "0 \<le> h" "h < 2 ^ 31" "unat n \<le> 131072"
    and os: "OS_Read os fid (unat n) (be_world (sv_fs s)) = (w, b, None)" "length b \<le> unat n"
    and client: "reachable r" "rxSeqExpected r = txSeqNr sess"
  shows "\<exists>s' p ps k sess' r' out. dataHandler E data addr s = Some s' \<and>
    be_log (sv_fs s') = be_log (sv_fs s) @ [CRead fid (unat n)] \<and> map_of (sv_cMap s') addr = Some p \<and>
    wire (outbox (c_sess (p_conn p))) = wire (outbox sess) @ ps \<and>
    exchange k (c_sess (p_conn p)) r ps [] = Some (sess', r', out) \<and>
    concat out = PackResultReply (int (length b)) @ pad4 b \<and> \<not> waiting sess'"
proof -
  let ?c = "p_conn (get_peer E addr s)"
  obtain t it where e: "E = backend_env os t it" using assms(5) by (auto simp: backend_env_iff)
  have ok: "be.state_ok os (sv_fs s0) (sv_fs s, ?c)" using peer_state_ok [OF served_ok [OF assms(1-4)]] .
  have "reachable sess"
    using reachable_send [of "c_sess ?c" "OpPacket (take 2048 data)" sess] ok pkt(1,2)
    by (simp add: be.state_ok_def be.conn_ok_def)
  then obtain s1 ps k sess' r' out where sent: "SendRawDataWithHeader sess (PackResultReply (int (length b))) (Some b) = Some s1"
    "wire (outbox s1) = wire (outbox sess) @ ps" "exchange k s1 r ps [] = Some (sess', r', out)"
    "concat out = PackResultReply (int (length b)) @ pad4 b" "\<not> waiting sess'"
    using raw_delivered [OF _ client, of "PackResultReply (int (length b))" b] by (auto simp: PackResultReply_def)
  have len: "int32 (int (length b)) = int (length b)" using f(5) os(2) by (intro int32_id) simp_all
  obtain fs where fs: "Backend_Read os t h n (sv_fs s) = Some (fs, Inr (int (length b), b))"
    "be_log fs = be_log (sv_fs s) @ [CRead fid (unat n)]"
    using Backend_Read_file [OF f(1,3,2,5) os(1), of t] by (auto simp: len)
  let ?c1 = "?c\<lparr>c_sess := s1, c_metrics := map_option (logMetric (env_now E) MsgReadReq (int (length b))) (c_metrics ?c)\<rparr>"
  have "handleRead E (read_req h n) (sv_fs s, ?c\<lparr>c_sess := sess\<rparr>) = Some ((fs, ?c\<lparr>c_sess := s1\<rparr>), int (length b))"
    using f(3,4) fs(1) sent(1)
    by (simp add: handleRead_def read_req_fields sint_of_int32 e backend_env_def reply_def SendReadResult_def)
  then have "HandlePayload E (read_req h n) (sv_fs s, ?c\<lparr>c_sess := sess\<rparr>) = Some (fs, ?c1)"
    by (simp add: HandlePayload_def handler_of_def read_req_fields)
  then obtain s' p where "dataHandler E data addr s = Some s'" "sv_fs s' = fs" "map_of (sv_cMap s') addr = Some p" "p_conn p = ?c1"
    using dataHandler_request [OF pkt] by blast
  then show ?thesis using fs(2) sent(2-5) by (intro exI [of _ s'] exI [of _ p]) auto
qed

definition demo_read :: bytes where
  "demo_read = [2, 0, 255, 63, 48, 0] @ read_req 0 5"

theorem read_delivered_witness:
  "\<exists>s' p ps k sess' r' out. dataHandler (backend_env demo_os 0 id) demo_read (AddrPort 1 2) dev_server = Some s' \<and>
    be_log (sv_fs s') = be_log (sv_fs dev_server) @ [CRead 3 5] \<and> map_of (sv_cMap s') (AddrPort 1 2) = Some p \<and>
    wire (outbox (c_sess (p_conn p))) = [2, 0, 0, 16, 0, 0] # ps \<and>
    exchange k (c_sess (p_conn p)) NewSession ps [] = Some (sess', r', out) \<and>
    concat out = PackResultReply 5 @ [1, 2, 3, 4, 5, 0, 0, 0] \<and> \<not> waiting sess'"
proof -
  let ?E = "backend_env demo_os 0 id"
  let ?s = "c_sess (p_conn (get_peer ?E (AddrPort 1 2) dev_server))"
  let ?r = "ProcessDataPacket ?s (take 2048 demo_read)"
  have "map_option (\<lambda>(s, r). (r, txSeqNr s, wire (outbox s), reset_calls ?s s)) ?r =
      Some (Inr (Some (read_req 0 5)), 0, [[2, 0, 0, 16, 0, 0]], 0)"
    by code_simp
  then obtain sess where p: "?r = Some (sess, Inr (Some (read_req 0 5)))" "txSeqNr sess = 0" "wire (outbox sess) = [[2, 0, 0, 16, 0, 0]]"
    "reset_calls ?s sess = 0"
    by auto
  have os: "OS_Read demo_os 3 (unat (5 :: u32)) (be_world (sv_fs dev_server)) = (be_world (sv_fs dev_server), [1, 2, 3, 4, 5], None)"
    by (simp add: demo_os_def)
  have len: "6 \<le> length demo_read" by (simp add: demo_read_def)
  have obj: "fh_obj (newFileHandle (OsFile 3 ''/dev/sd'') False) = OsFile 3 ''/dev/sd''" by (simp add: newFileHandle_def)
  have rx: "rxSeqExpected NewSession = txSeqNr sess" by (simp add: p(2) NewSession_def)
  have "pad4 [1, 2, 3, 4, 5] = [1, 2, 3, 4, 5, 0, 0, 0]" by code_simp
  then show ?thesis
    using read_delivered [OF demo_os_ok dev_start server_reachable.start demo_env p(1) len p(4) dev_holds obj _ _ _ os _ reachable.init rx]
    by (simp add: p(3))
qed

end
