(* ===== verification/FsTable.thy ===== *)
theory FsTable
  imports FsLimits FsReads
begin

text \<open>
  What the handle table promises: which handle a new file gets, what is at it afterwards, and what is
  left open at the end.
\<close>

section \<open>Choosing a handle\<close>

text \<open>
  The specification of \<^verbatim>\<open>allocHandle\<close>: the first free slot; in a full table the slot that has not been
  used for longest, the first of them, if that was at least an hour ago.
\<close>

definition alloc_spec :: "int \<Rightarrow> int list \<Rightarrow> fs_handle option list \<Rightarrow> nat option" where
  "alloc_spec now lastUsed hs =
     (if None \<in> set hs then Some (LEAST i. hs ! i = None)
      else if Min (set lastUsed) + handleMaxLastUsed \<le> now then Some (LEAST i. lastUsed ! i = Min (set lastUsed))
      else None)"

lemma Least_nth_Cons:
  assumes "P (xs ! j)" "\<not> P x"
  shows "(LEAST i. P ((x # xs) ! i)) = Suc (LEAST i. P (xs ! i))"
proof -
  have "(LEAST i. P ((x # xs) ! i)) = Suc (LEAST i. P ((x # xs) ! Suc i))"
    by (rule Least_Suc [of _ "Suc j"]) (use assms in simp_all)
  then show ?thesis by simp
qed

lemma alloc_scan_free: "None \<in> set hs \<Longrightarrow> alloc_scan lu i k ts hs = Inl (i + (LEAST j. hs ! j = None))"
proof (induction lu i k ts hs rule: alloc_scan.induct)
  case (2 lu i k ts h hs)
  show ?case
  proof (cases "h = None")
    case True
    then have "(LEAST j. (h # hs) ! j = None) = 0" by (intro Least_eq_0) simp
    then show ?thesis using True by simp
  next
    case False
    then have n: "None \<in> set hs" using 2(3) by auto
    then obtain j where "hs ! j = None" by (auto simp: in_set_conv_nth)
    then have "(LEAST j. (h # hs) ! j = None) = Suc (LEAST j. hs ! j = None)"
      using Least_nth_Cons [of "\<lambda>x. x = None" hs j h] False by simp
    then show ?thesis using False n 2(1,2) by simp
  qed
qed simp

text \<open>In a full table the loop finds the first minimum below the time it starts with.\<close>

lemma alloc_scan_full:
  "None \<notin> set hs \<Longrightarrow> length lu = i + length hs \<Longrightarrow> \<exists>k' ts'. alloc_scan lu i k ts hs = Inr (k', ts') \<and> ts' \<le> ts \<and>
     (\<forall>j. i \<le> j \<longrightarrow> j < length lu \<longrightarrow> ts' \<le> lu ! j) \<and>
     (k' = k \<and> ts' = ts \<or> i \<le> k' \<and> k' < length lu \<and> ts' < ts \<and> lu ! k' = ts' \<and> (\<forall>j. i \<le> j \<longrightarrow> j < k' \<longrightarrow> ts' < lu ! j))"
proof (induction lu i k ts hs rule: alloc_scan.induct)
  case (2 lu i k ts h hs)
  have h: "h \<noteq> None" "None \<notin> set hs" "length lu = Suc i + length hs" using "2.prems" by (cases h; simp)+
  have split: "(\<forall>j. i \<le> j \<longrightarrow> Q j) \<longleftrightarrow> Q i \<and> (\<forall>j. Suc i \<le> j \<longrightarrow> Q j)" for Q
    by (metis Suc_leD le_eq_less_or_eq Suc_le_eq)
  show ?case
  proof (cases "lu ! i < ts")
    case True
    obtain k' ts' where r: "alloc_scan lu (Suc i) i (lu ! i) hs = Inr (k', ts')" "ts' \<le> lu ! i"
      "\<forall>j. Suc i \<le> j \<longrightarrow> j < length lu \<longrightarrow> ts' \<le> lu ! j"
      "k' = i \<and> ts' = lu ! i \<or> Suc i \<le> k' \<and> k' < length lu \<and> ts' < lu ! i \<and> lu ! k' = ts' \<and> (\<forall>j. Suc i \<le> j \<longrightarrow> j < k' \<longrightarrow> ts' < lu ! j)"
      using "2.IH"(1) [OF h(1) True h(2,3)] by blast
    have "i \<le> k' \<and> k' < length lu \<and> ts' < ts \<and> lu ! k' = ts' \<and> (\<forall>j. i \<le> j \<longrightarrow> j < k' \<longrightarrow> ts' < lu ! j)"
      unfolding split [where Q = "\<lambda>j. j < k' \<longrightarrow> ts' < lu ! j"] using r(2,4) True h(3) by auto
    moreover have "\<forall>j. i \<le> j \<longrightarrow> j < length lu \<longrightarrow> ts' \<le> lu ! j"
      unfolding split [where Q = "\<lambda>j. j < length lu \<longrightarrow> ts' \<le> lu ! j"] using r(2,3) by blast
    moreover have "ts' < ts" using r(2) True by simp
    ultimately show ?thesis using r(1) True h(1) by (intro exI [of _ k'] exI [of _ ts']) simp
  next
    case False
    obtain k' ts' where r: "alloc_scan lu (Suc i) k ts hs = Inr (k', ts')" "ts' \<le> ts"
      "\<forall>j. Suc i \<le> j \<longrightarrow> j < length lu \<longrightarrow> ts' \<le> lu ! j"
      "k' = k \<and> ts' = ts \<or> Suc i \<le> k' \<and> k' < length lu \<and> ts' < ts \<and> lu ! k' = ts' \<and> (\<forall>j. Suc i \<le> j \<longrightarrow> j < k' \<longrightarrow> ts' < lu ! j)"
      using "2.IH"(2) [OF h(1) False h(2,3)] by blast
    have "\<forall>j. i \<le> j \<longrightarrow> j < length lu \<longrightarrow> ts' \<le> lu ! j"
      unfolding split [where Q = "\<lambda>j. j < length lu \<longrightarrow> ts' \<le> lu ! j"] using r(2,3) False by auto
    moreover have "k' = k \<and> ts' = ts \<or> i \<le> k' \<and> k' < length lu \<and> ts' < ts \<and> lu ! k' = ts' \<and> (\<forall>j. i \<le> j \<longrightarrow> j < k' \<longrightarrow> ts' < lu ! j)"
      using r(4) False unfolding split [where Q = "\<lambda>j. j < k' \<longrightarrow> ts' < lu ! j"] by auto
    ultimately show ?thesis using r(1,2) False h(1) by (intro exI [of _ k'] exI [of _ ts']) simp
  qed
qed simp

lemma alloc_scan_spec:
  assumes "length lu = length hs" "hs \<noteq> []"
  shows "(case alloc_scan lu 0 0 now hs of Inl i \<Rightarrow> Some i
      | Inr (k, ts) \<Rightarrow> if handleMaxLastUsed \<le> now - ts then Some k else None) = alloc_spec now lu hs"
proof (cases "None \<in> set hs")
  case False
  then obtain k ts where r: "alloc_scan lu 0 0 now hs = Inr (k, ts)" "ts \<le> now" "\<forall>j < length lu. ts \<le> lu ! j"
    "k = 0 \<and> ts = now \<or> k < length lu \<and> ts < now \<and> lu ! k = ts \<and> (\<forall>j < k. ts < lu ! j)"
    using alloc_scan_full [OF False, of lu 0 0 now] assms(1) by auto
  have min: "ts \<le> Min (set lu)" using r(3) assms by (intro Min.boundedI) (auto simp: in_set_conv_nth)
  show ?thesis
  proof (cases "k < length lu \<and> ts < now \<and> lu ! k = ts \<and> (\<forall>j < k. ts < lu ! j)")
    case True
    then have "Min (set lu) = ts" using min by (intro antisym Min_le) (auto simp: in_set_conv_nth)
    moreover have "(LEAST i. lu ! i = ts) = k"
      using True by (intro Least_equality) (auto simp: not_less [symmetric])
    ultimately show ?thesis using False r(1) by (auto simp: alloc_spec_def)
  qed (use r min False in \<open>auto simp: alloc_spec_def\<close>)
qed (simp add: alloc_scan_free alloc_spec_def)

text \<open>
  C15: A new handle is the first free one; when the table is full it is the one that was used
  least recently, provided that was an hour ago or more, and its old file is closed first; otherwise
  there is none (\<^verbatim>\<open>EMFILE\<close>) and nothing changes. The loop that looks for both at once agrees with this
  specification in every state.
\<close>

theorem allocHandle_spec:
  assumes "length (be_handles s) = 64" "length (be_lastUsed s) = 64"
  shows "allocHandle os now h s =
    (case alloc_spec now (be_lastUsed s) (be_handles s) of
       None \<Rightarrow> (s, - EMFILE)
     | Some i \<Rightarrow> (set_handle i h now (case be_handles s ! i of None \<Rightarrow> s | Some old \<Rightarrow> handle_Close os old s), int i + 1))"
proof (cases "alloc_scan (be_lastUsed s) 0 0 now (be_handles s)")
  case (Inl i)
  then have free: "None \<in> set (be_handles s)"
    using alloc_scan_full [of "be_handles s" "be_lastUsed s" 0 0 now] assms by auto
  then obtain j where "be_handles s ! j = None" by (auto simp: in_set_conv_nth)
  then have "be_handles s ! (LEAST j. be_handles s ! j = None) = None" by (rule LeastI)
  then show ?thesis using free by (simp add: allocHandle_def alloc_scan_free alloc_spec_def)
next
  case (Inr r)
  obtain k ts where r: "r = (k, ts)" by fastforce
  have "alloc_spec now (be_lastUsed s) (be_handles s) = (if handleMaxLastUsed \<le> now - ts then Some k else None)"
    using alloc_scan_spec [of "be_lastUsed s" "be_handles s" now, symmetric] assms Inr r by (cases "be_handles s") auto
  then show ?thesis using Inr r by (auto simp: allocHandle_def Let_def split: option.split)
qed

definition full_table :: "unit Backend" where
  "full_table = (initial_backend ())\<lparr>be_handles := replicate 64 (Some (HFile (newFileHandle (OsFile 9 ''/srv/a'') True))),
     be_lastUsed := replicate 3 10 @ 5 # replicate 60 10\<rparr>"

definition demo_h :: fs_handle where
  "demo_h = HFile (newFileHandle (OsFile 3 ''/srv/b'') True)"

theorem allocHandle_spec_witness:
  "snd (allocHandle demo_os 3600000000004 demo_h full_table) = - EMFILE \<and>
   snd (allocHandle demo_os 3600000000005 demo_h full_table) = 4 \<and>
   be_log (fst (allocHandle demo_os 3600000000005 demo_h full_table)) = [CClose 9]"
proof -
  let ?lu = "replicate 3 10 @ 5 # replicate 60 10 :: int list"
  have "(LEAST i. ?lu ! i = 5) = 3"
    by (rule Least_equality) (auto simp: nth_append not_less [symmetric])
  moreover have "set ?lu = {5, 10}" by auto
  ultimately have "alloc_spec 3600000000005 (be_lastUsed full_table) (be_handles full_table) = Some 3"
    "alloc_spec 3600000000004 (be_lastUsed full_table) (be_handles full_table) = None"
    by (simp_all add: alloc_spec_def full_table_def)
  moreover have "length (be_handles full_table) = 64" "length (be_lastUsed full_table) = 64" by (simp_all add: full_table_def)
  ultimately show ?thesis
    using allocHandle_spec [of full_table demo_os 3600000000005 demo_h] allocHandle_spec [of full_table demo_os 3600000000004 demo_h]
    by (simp add: full_table_def set_handle_def handle_Close_def fo_Close_def sys_def newFileHandle_def demo_os_def
        initial_backend_def)
qed

section \<open>Opening a file\<close>

lemma allocHandle_slot:
  assumes "allocHandle os now x s = (s', k)" "0 \<le> k" "length (be_handles s) = 64"
  shows "1 \<le> k \<and> k \<le> 64 \<and> be_handles s' = (be_handles s)[nat (k - 1) := Some x]"
proof (cases "alloc_scan (be_lastUsed s) 0 0 now (be_handles s)")
  case (Inl i)
  then show ?thesis using assms alloc_scan_Inl [OF Inl] by (auto simp: allocHandle_def set_handle_def)
next
  case (Inr r)
  obtain j t where r: "r = (j, t)" by fastforce
  have "j < 64" using alloc_scan_Inr [of _ 0 0 now _ j t] Inr r assms(3) by fastforce
  then show ?thesis using assms Inr r
    by (auto simp: allocHandle_def set_handle_def EMFILE_def Let_def handle_Close_handles split: if_splits option.splits)
qed

lemma sys_keeps_handles: "sys c g s = (s', r) \<Longrightarrow> be_handles s' = be_handles s"
  using sys_handles [of c g s] by simp

lemma pathExists_handles: "pathExists os p s = (s', r) \<Longrightarrow> be_handles s' = be_handles s"
  by (auto simp: pathExists_def dest: sys_keeps_handles split: prod.splits sum.splits)

lemma image_contents_handles: "image_contents os p s = (s', r) \<Longrightarrow> be_handles s' = be_handles s"
  by (auto simp: image_contents_def dest: sys_keeps_handles split: if_splits)

text \<open>What stands at a new handle: the plain file of that name, or a compressed image, which can only be read.\<close>

definition new_file :: "string \<Rightarrow> int \<Rightarrow> fileHandle \<Rightarrow> bool" where
  "new_file p flag f \<longleftrightarrow> fh_wr f = zero_wr \<and>
     ((\<exists>fid. fh_obj f = OsFile fid p) \<and> fh_readOnly f = (flag AND (O_RDWR OR O_WRONLY) = 0) \<or>
      (\<exists>c. fh_obj f = ImageFile c) \<and> fh_readOnly f \<and> ToLower (Ext p) = ''.iso'')"

definition gets_slot :: "string \<Rightarrow> int \<Rightarrow> 'w Backend \<Rightarrow> 'w Backend \<times> open_result \<Rightarrow> bool" where
  "gets_slot p flag s = (\<lambda>(s', h, st, e). e = None \<and> 0 \<le> h \<longrightarrow> 1 \<le> h \<and> h \<le> 64 \<and>
     (\<exists>f. new_file p flag f \<and> be_handles s' = (be_handles s)[nat (h - 1) := Some (HFile f)]))"

lemma opened_slot:
  assumes "allocHandle os now (HFile f) s1 = (s2, h)" "be_handles s1 = be_handles s" "length (be_handles s) = 64" "new_file p flag f"
  shows "post (gets_slot p flag s) (opened h (sys c g s2))" "\<not> h < 0 \<Longrightarrow> gets_slot p flag s (s2, h, st, None)"
proof -
  note slot = allocHandle_slot [OF assms(1)]
  show "post (gets_slot p flag s) (opened h (sys c g s2))"
    using slot assms(2-4) sys_handles [of c g s2]
    by (auto simp: post_def opened_def gets_slot_def split: prod.splits sum.splits)
  show "\<not> h < 0 \<Longrightarrow> gets_slot p flag s (s2, h, st, None)"
    using slot assms(2-4) by (auto simp: gets_slot_def)
qed

lemma no_slot_error: "gets_slot p flag s (s', h, st, Some e)" "h < 0 \<Longrightarrow> gets_slot p flag s (s', h, st, None)"
  by (simp_all add: gets_slot_def)

lemma post_SomeI: "Q x \<Longrightarrow> post Q (Some x)"
  by (simp add: post_def)

lemma open_plain_slot:
  assumes "be_handles s1 = be_handles s" "length (be_handles s) = 64"
  shows "post (gets_slot p flag s) (open_plain os now p flag ex s1)"
proof -
  have new: "new_file p flag (newFileHandle (OsFile fid p) (flag AND (O_RDWR OR O_WRONLY) = 0))" for fid
    by (simp add: new_file_def newFileHandle_def)
  have frame: "be_handles s2 = be_handles s"
    if "sys c g (if b then fst (sys c' g' s1) else s1) = (s2, r)" for c c' g b r s2 and g' :: "'a \<Rightarrow> 'a \<times> go_error option"
    using sys_keeps_handles [OF that] assms(1) by (simp add: sys_handles split: if_splits)
  show ?thesis
    unfolding open_plain_def
    by (intro post_rules post_SomeI; hypsubst?;
        (rule no_slot_error | rule no_slot_error, assumption | rule opened_slot(1) [OF _ frame assms(2) new], assumption, assumption))
qed

lemma open_image_slot:
  assumes "be_handles s1 = be_handles s" "length (be_handles s) = 64"
  shows "post (\<lambda>(s2, r). case r of None \<Rightarrow> be_handles s2 = be_handles s | Some x \<Rightarrow> gets_slot p flag s (s2, x))
    (open_image os now p s1)"
proof -
  have new: "new_file p flag (newFileHandle (ImageFile c) True)" if "\<not> ToLower (Ext p) \<noteq> ''.iso''" for c
    using that by (simp add: new_file_def newFileHandle_def)
  have frame: "be_handles s2 = be_handles s" if "pathExists os p' s1 = (s2, ex)" for p' s2 ex
    using pathExists_handles [OF that] assms(1) by simp
  have frame2: "be_handles s3 = be_handles s" if "pathExists os p' s1 = (s2, ex)" "image_contents os p' s2 = (s3, r)" for p' s2 s3 ex r
    using frame [OF that(1)] image_contents_handles [OF that(2)] by simp
  show ?thesis
    unfolding open_image_def
    by (intro post_rules post_SomeI; hypsubst?; unfold split option.case;
        (rule assms(1) | erule frame | erule (1) frame2 | rule no_slot_error, assumption
         | erule opened_slot(2) [OF _ frame2 assms(2) new], assumption, assumption, assumption, assumption))
qed

lemma Backend_Open_slot:
  assumes len: "length (be_handles s) = 64" and p: "resolvePath (be_fsRoot s) (OS_Getwd os (be_world s)) path = Some p"
  shows "post (gets_slot p flag s) (Backend_Open os now path flag False s)"
proof -
  have frame: "be_handles s1 = be_handles s"
    if "(if p \<noteq> [] then pathExists os p s else (s, False)) = (s1, ex)" for s1 ex
    using that pathExists_handles by (auto split: if_splits)
  have image1: "be_handles s2 = be_handles s"
    if "(if p \<noteq> [] then pathExists os p s else (s, False)) = (s1, ex)" "open_image os now p s1 = Some (s2, None)" for s1 s2 ex
    using postD [OF open_image_slot [OF frame [OF that(1)] len] that(2)] by simp
  have image2: "gets_slot p flag s (s2, r)"
    if "(if p \<noteq> [] then pathExists os p s else (s, False)) = (s1, ex)" "open_image os now p s1 = Some (s2, Some r)" for s1 s2 ex r
    using postD [OF open_image_slot [OF frame [OF that(1)] len] that(2)] by simp
  show ?thesis
    unfolding Backend_Open_def p option.case if_False
    by (intro post_rules post_SomeI; hypsubst?;
        (rule no_slot_error | erule (1) image2 | rule open_plain_slot [OF _ len], (erule frame | erule (1) image1)))
qed

text \<open>
  C16: OPEN hands out one slot. When a file is opened in any state of the server, the handle is between 1
  and 64, the file resolved from the path stands at it with no write under way, open for writing only if
  that was asked for, and no other slot of the table has changed.
\<close>

theorem open_new_handle:
  assumes "os_ok os" "NewBackend os opts w = Some (Inr (sv_fs s0))" "Server_New sopts = Inr s0"
    "server_reachable (backend_envs os) s0 s" "E \<in> backend_envs os"
    and o: "fs_Open E path flag False (sv_fs s) = Some (fs, h, st, None)" "0 \<le> h"
  shows "1 \<le> h \<and> h \<le> 64 \<and>
    (\<exists>p f. resolvePath (be_fsRoot (sv_fs s)) (OS_Getwd os (be_world (sv_fs s))) path = Some p \<and> new_file p flag f \<and>
      be_handles fs = (be_handles (sv_fs s))[nat (h - 1) := Some (HFile f)])"
proof -
  obtain t it where e: "E = backend_env os t it" using assms(5) by (auto simp: backend_env_iff)
  have len: "length (be_handles (sv_fs s)) = 64"
    using served_ok [OF assms(1-4)] table_length unfolding be.server_ok_def by blast
  have b: "Backend_Open os t path flag False (sv_fs s) = Some (fs, h, st, None)" using o(1) by (simp add: e backend_env_def)
  then obtain p where p: "resolvePath (be_fsRoot (sv_fs s)) (OS_Getwd os (be_world (sv_fs s))) path = Some p"
    by (auto simp: Backend_Open_def split: option.splits)
  then show ?thesis using postD [OF Backend_Open_slot [OF len p] b] o(2) by (auto simp: gets_slot_def)
qed

theorem open_new_handle_witness:
  "\<exists>fs st p f. fs_Open (backend_env demo_os 0 id) ''a'' 0 False (sv_fs demo_server) = Some (fs, 1, st, None) \<and>
     new_file p 0 f \<and> be_handles fs = (be_handles (sv_fs demo_server))[0 := Some (HFile f)]"
proof -
  have "map_option (\<lambda>(s, h, st, e). (h, e)) (fs_Open (backend_env demo_os 0 id) ''a'' 0 False (sv_fs demo_server)) = Some (1, None)"
    by code_simp
  then obtain fs st where "fs_Open (backend_env demo_os 0 id) ''a'' 0 False (sv_fs demo_server) = Some (fs, 1, st, None)"
    by auto
  then show ?thesis using open_new_handle [OF demo_os_ok demo_start server_reachable.start demo_env, of "''a''" 0 fs 1 st] by auto
qed

section \<open>Shutting down\<close>

lemma shutdown_slots:
  "length (be_handles s) = 64 \<Longrightarrow> \<forall>fd \<in> set fds. fd \<le> 64 \<Longrightarrow>
   \<exists>s'. shutdown_loop os fds s = Some s' \<and> emptied (\<lambda>i. Suc i \<in> set fds) s s'"
proof (induction fds arbitrary: s)
  case (Cons fd fds)
  have "\<exists>s1. freeHandle os (int fd) s = Some (s1, True) \<and> length (be_handles s1) = 64 \<and> emptied (\<lambda>i. Suc i = fd) s s1"
  proof (cases fd)
    case 0
    then show ?thesis using Cons.prems(1) by (simp add: freeHandle_def emptied_def)
  next
    case (Suc j)
    then have "valid_handle (int fd)" "nat (int fd - 1) = j" using Cons.prems(2) by (simp_all add: valid_handle_def)
    then show ?thesis using freeHandle_slot [OF Cons.prems(1), of "int fd" os] Cons.prems(1) Suc
      by (auto simp: emptied_def nth_list_update)
  qed
  then obtain s1 where s1: "freeHandle os (int fd) s = Some (s1, True)" "length (be_handles s1) = 64" "emptied (\<lambda>i. Suc i = fd) s s1"
    by blast
  then obtain s2 where "shutdown_loop os fds s1 = Some s2" "emptied (\<lambda>i. Suc i \<in> set fds) s1 s2"
    using Cons.IH Cons.prems(2) by (metis list.set_intros(2))
  then show ?case using s1(1) emptied_trans [OF s1(3)] by fastforce
qed (simp add: emptied_def)

text \<open>
  Shutting down closes every handle but the last. The loop passes the indices 0 to 63 of the
  table where handle numbers 1 to 64 are expected, so that handle 64 stays open.
\<close>

theorem shutdown_misses_last:
  assumes "length (be_handles s) = 64"
  shows "\<exists>s'. Shutdown os s = Some s' \<and> (\<forall>i < 63. be_handles s' ! i = None) \<and> be_handles s' ! 63 = be_handles s ! 63"
proof -
  obtain s' where "Shutdown os s = Some s'" "emptied (\<lambda>i. Suc i < 64) s s'"
    using shutdown_slots [OF assms, of "[0..<64]" os] by (auto simp: Shutdown_def assms)
  then show ?thesis by (auto simp: emptied_def)
qed

theorem shutdown_misses_last_witness:
  "\<exists>s'. Shutdown demo_os full_table = Some s' \<and> be_handles s' ! 0 = None \<and>
     be_handles s' ! 63 = Some (HFile (newFileHandle (OsFile 9 ''/srv/a'') True))"
  using shutdown_misses_last [of full_table demo_os] by (auto simp: full_table_def)

end
