(* ===== verification/Config.thy ===== *)
theory Config
  imports FsServer
begin

text \<open>
  The start of the program (\<^verbatim>\<open>cmd/udpfsd/main.go\<close>): the command line flags, the environment variables that
  override them, and the options they become. The parsed flags are the input; the environment is a
  function from names to values, empty where a variable is not set. \<^verbatim>\<open>time.ParseDuration\<close> is a parameter.
\<close>

section \<open>Parsing\<close>

text \<open>\<^verbatim>\<open>strings.ToUpper\<close> of ASCII text.\<close>

definition upper :: "char \<Rightarrow> char" where
  "upper c = (if 97 \<le> (of_char c :: nat) \<and> (of_char c :: nat) \<le> 122 then char_of ((of_char c :: nat) - 32) else c)"

definition ToUpper :: "string \<Rightarrow> string" where
  "ToUpper = map upper"

definition digit :: "char \<Rightarrow> nat option" where
  "digit c = (let n = of_char c :: nat in if 48 \<le> n \<and> n \<le> 57 then Some (n - 48) else None)"

fun digits :: "nat \<Rightarrow> string \<Rightarrow> nat option" where
  "digits acc [] = Some acc"
| "digits acc (c # cs) = (case digit c of None \<Rightarrow> None | Some d \<Rightarrow> digits (10 * acc + d) cs)"

text \<open>\<^verbatim>\<open>strconv.Atoi\<close>: an optional sign and decimal digits, within the range of a 64-bit \<^verbatim>\<open>int\<close>.\<close>

definition in_int64 :: "int \<Rightarrow> int option" where
  "in_int64 n = (if - (2 ^ 63) \<le> n \<and> n < 2 ^ 63 then Some n else None)"

definition Atoi :: "string \<Rightarrow> int option" where
  "Atoi s =
     (let neg = (s \<noteq> [] \<and> hd s = CHR ''-'');
          ds = (if s \<noteq> [] \<and> (hd s = CHR ''-'' \<or> hd s = CHR ''+'') then tl s else s)
      in if ds = [] then None
         else case digits 0 ds of
           None \<Rightarrow> None
         | Some n \<Rightarrow> in_int64 (if neg then - int n else int n))"

text \<open>\<^verbatim>\<open>strconv.ParseBool\<close>\<close>

definition ParseBool :: "string \<Rightarrow> bool option" where
  "ParseBool s =
     (if s \<in> {''1'', ''t'', ''T'', ''true'', ''TRUE'', ''True''} then Some True
      else if s \<in> {''0'', ''f'', ''F'', ''false'', ''FALSE'', ''False''} then Some False
      else None)"

section \<open>Flags and environment\<close>

record Flags =
  fl_root :: string
  fl_path :: string
  fl_port :: int
  fl_bindIP :: string
  fl_sectorSize :: int
  fl_readOnly :: bool
  fl_verbose :: bool
  fl_logMetrics :: bool
  fl_logMetricsPeriod :: string
  fl_disableCompression :: bool
  fl_compressionCacheSize :: int
  fl_peerTimeout :: string

definition default_flags :: Flags where
  "default_flags = \<lparr>fl_root = [], fl_path = [], fl_port = UDPFSPort, fl_bindIP = [], fl_sectorSize = 512,
     fl_readOnly = False, fl_verbose = False, fl_logMetrics = False, fl_logMetricsPeriod = [],
     fl_disableCompression = False, fl_compressionCacheSize = 32, fl_peerTimeout = []\<rparr>"

definition defaultFsRoot :: string where "defaultFsRoot = ''./fsroot''"

definition envVarLookup :: "(string \<Rightarrow> string) \<Rightarrow> string \<Rightarrow> string \<Rightarrow> string" where
  "envVarLookup getenv key defaultValue =
     (let value = getenv (ToUpper (ReplaceChar key CHR ''-'' CHR ''_''))
      in if value \<noteq> [] then value else defaultValue)"

text \<open>\<^verbatim>\<open>if v, err := parse(value); err == nil { *flag = v }\<close>, if there is a value.\<close>

definition override :: "(string \<Rightarrow> 'a option) \<Rightarrow> string \<Rightarrow> 'a \<Rightarrow> 'a" where
  "override parse value x = (if value \<noteq> [] then case parse value of Some v \<Rightarrow> v | None \<Rightarrow> x else x)"

definition loadEnvironment :: "(string \<Rightarrow> string) \<Rightarrow> Flags \<Rightarrow> Flags" where
  "loadEnvironment getenv f =
     (let f = f\<lparr>fl_root := override Some (envVarLookup getenv ''fsroot'' (fl_root f)) (fl_root f)\<rparr>;
          f = f\<lparr>fl_path := override Some (envVarLookup getenv ''bdpath'' (fl_path f)) (fl_path f)\<rparr>;
          f = f\<lparr>fl_port := override Atoi (envVarLookup getenv ''port'' []) (fl_port f)\<rparr>;
          f = f\<lparr>fl_bindIP := override Some (envVarLookup getenv ''bind'' (fl_bindIP f)) (fl_bindIP f)\<rparr>;
          f = f\<lparr>fl_sectorSize := override Atoi (envVarLookup getenv ''sector-size'' []) (fl_sectorSize f)\<rparr>;
          f = f\<lparr>fl_readOnly := override ParseBool (envVarLookup getenv ''ro'' []) (fl_readOnly f)\<rparr>;
          f = f\<lparr>fl_verbose := override ParseBool (envVarLookup getenv ''verbose'' []) (fl_verbose f)\<rparr>;
          f = f\<lparr>fl_logMetrics := override ParseBool (envVarLookup getenv ''metrics'' []) (fl_logMetrics f)\<rparr>;
          f = f\<lparr>fl_logMetricsPeriod := override Some (envVarLookup getenv ''metrics-period'' []) (fl_logMetricsPeriod f)\<rparr>;
          f = f\<lparr>fl_disableCompression :=
                override ParseBool (envVarLookup getenv ''no-compression'' []) (fl_disableCompression f)\<rparr>;
          f = f\<lparr>fl_compressionCacheSize :=
                override Atoi (envVarLookup getenv ''compression-cache-size'' []) (fl_compressionCacheSize f)\<rparr>
      in f\<lparr>fl_peerTimeout := override Some (envVarLookup getenv ''peer-timeout'' []) (fl_peerTimeout f)\<rparr>)"

section \<open>Options\<close>

definition default_root :: "Flags \<Rightarrow> Flags" where
  "default_root f = (if fl_path f = [] \<and> fl_root f = [] then f\<lparr>fl_root := defaultFsRoot\<rparr> else f)"

definition backend_opts :: "Flags \<Rightarrow> BackendOpt list" where
  "backend_opts f =
     [WithFSRoot (fl_root f), WithBlockDevice (fl_path f), WithSectorSize (fl_sectorSize f),
      WithCompressionCacheSize (fl_compressionCacheSize f)] @
     (if fl_readOnly f then [WithReadOnly] else []) @
     (if \<not> fl_disableCompression f then [WithCompression] else [])"

text \<open>A duration that is not given or does not parse is zero, which leaves the default in place.\<close>

definition duration :: "(string \<Rightarrow> int option) \<Rightarrow> string \<Rightarrow> int" where
  "duration ParseDuration s =
     (if s \<noteq> [] then case ParseDuration s of Some d \<Rightarrow> d | None \<Rightarrow> 0 else 0)"

definition server_opts :: "(string \<Rightarrow> int option) \<Rightarrow> Flags \<Rightarrow> 'f \<Rightarrow> 'f ServerOpt list" where
  "server_opts ParseDuration f fsbackend =
     [WithDiscoveryPort (fl_port f), WithDataIP (fl_bindIP f), WithFS (Some fsbackend),
      WithPeerTimeout (duration ParseDuration (fl_peerTimeout f))] @
     (if fl_verbose f then [WithVerbose] else []) @
     (if fl_logMetrics f then [WithMetrics (duration ParseDuration (fl_logMetricsPeriod f))] else [])"

text \<open>
  \<^verbatim>\<open>main\<close> up to the start of the sockets: \<^term>\<open>None\<close> is a panic, \<^term>\<open>Inl e\<close> an exit with an error message.
\<close>

definition main_setup :: "'w OS \<Rightarrow> (string \<Rightarrow> int option) \<Rightarrow> (string \<Rightarrow> string) \<Rightarrow> Flags \<Rightarrow> 'w \<Rightarrow>
    (go_error + 'w Backend Server) option" where
  "main_setup os ParseDuration getenv flags w =
     (let f = default_root (loadEnvironment getenv flags)
      in case NewBackend os (backend_opts f) w of
           None \<Rightarrow> None
         | Some (Inl e) \<Rightarrow> Some (Inl e)
         | Some (Inr fsbackend) \<Rightarrow> Some (Server_New (server_opts ParseDuration f fsbackend)))"

section \<open>Numbers\<close>

text \<open>\<^verbatim>\<open>strconv.Itoa\<close>, which prints the port of the discovery socket.\<close>

fun show_nat :: "nat \<Rightarrow> string" where
  "show_nat n = (if n < 10 then [char_of (48 + n)] else show_nat (n div 10) @ [char_of (48 + n mod 10)])"

declare show_nat.simps [simp del]

definition Itoa :: "int \<Rightarrow> string" where
  "Itoa n = (if n < 0 then CHR ''-'' # show_nat (nat (- n)) else show_nat (nat n))"

definition listen_address :: "'f Server \<Rightarrow> string" where
  "listen_address s = CHR '':'' # Itoa (sv_port s)"

lemma digit_char: "d < 10 \<Longrightarrow> digit (char_of (48 + d)) = Some d"
  by (simp add: digit_def of_char_of Let_def)

lemma digits_append: "digits acc (xs @ ys) = (case digits acc xs of None \<Rightarrow> None | Some n \<Rightarrow> digits n ys)"
  by (induction acc xs rule: digits.induct) (simp_all split: option.split)

lemma digits_show: "digits 0 (show_nat n) = Some n"
proof (induction n rule: show_nat.induct)
  case (1 n)
  show ?case
  proof (cases "n < 10")
    case True
    then show ?thesis by (simp add: show_nat.simps [of n] digit_char)
  next
    case False
    then show ?thesis using 1 by (simp add: show_nat.simps [of n] digits_append digit_char)
  qed
qed

lemma show_nat_hd: "show_nat n \<noteq> []" "hd (show_nat n) \<noteq> CHR ''-''" "hd (show_nat n) \<noteq> CHR ''+''"
proof -
  have "\<exists>d r. show_nat n = char_of (48 + d) # r \<and> d < (10 :: nat)"
  proof (induction n rule: show_nat.induct)
    case (1 n)
    show ?case
    proof (cases "n < 10")
      case False
      then obtain d r where d: "show_nat (n div 10) = char_of (48 + d) # r" "d < (10 :: nat)" using 1 by blast
      then have "show_nat n = char_of (48 + d) # (r @ [char_of (48 + n mod 10)])"
        using False by (simp add: show_nat.simps [of n])
      then show ?thesis using d(2) by blast
    next
      case True
      then have "show_nat n = [char_of (48 + n)]" by (simp add: show_nat.simps [of n])
      then show ?thesis using True by blast
    qed
  qed
  then obtain d r where d: "show_nat n = char_of (48 + d) # r" "d < (10 :: nat)" by blast
  have "digit CHR ''-'' = None" "digit CHR ''+'' = None" by code_simp+
  then have "char_of (48 + d) \<noteq> CHR ''-''" "char_of (48 + d) \<noteq> CHR ''+''" using digit_char [OF d(2)] by auto
  then show "show_nat n \<noteq> []" "hd (show_nat n) \<noteq> CHR ''-''" "hd (show_nat n) \<noteq> CHR ''+''" using d(1) by simp_all
qed

text \<open>
  Numbers survive printing and parsing: \<^verbatim>\<open>Atoi\<close> reads back every number an \<^verbatim>\<open>int\<close> can hold as \<^verbatim>\<open>Itoa\<close> prints it.
\<close>

theorem Atoi_Itoa:
  assumes "- (2 ^ 63) \<le> n" "n < 2 ^ 63"
  shows "Atoi (Itoa n) = Some n"
  using assms show_nat_hd by (simp add: Atoi_def Itoa_def digits_show in_int64_def)

theorem Atoi_Itoa_witness: "Atoi (Itoa (- 62966)) = Some (- 62966)"
  by (rule Atoi_Itoa) simp_all

text \<open>No text gives a number out of the range of an \<^verbatim>\<open>int\<close>.\<close>

lemma Atoi_range: "Atoi s = Some n \<Longrightarrow> - (2 ^ 63) \<le> n \<and> n < 2 ^ 63"
  by (auto simp: Atoi_def in_int64_def Let_def split: if_splits option.splits)

section \<open>The environment takes precedence\<close>

lemma env_names:
  "ToUpper (ReplaceChar ''fsroot'' CHR ''-'' CHR ''_'') = ''FSROOT''"
  "ToUpper (ReplaceChar ''bdpath'' CHR ''-'' CHR ''_'') = ''BDPATH''"
  "ToUpper (ReplaceChar ''port'' CHR ''-'' CHR ''_'') = ''PORT''"
  "ToUpper (ReplaceChar ''bind'' CHR ''-'' CHR ''_'') = ''BIND''"
  "ToUpper (ReplaceChar ''sector-size'' CHR ''-'' CHR ''_'') = ''SECTOR_SIZE''"
  "ToUpper (ReplaceChar ''ro'' CHR ''-'' CHR ''_'') = ''RO''"
  "ToUpper (ReplaceChar ''verbose'' CHR ''-'' CHR ''_'') = ''VERBOSE''"
  "ToUpper (ReplaceChar ''metrics'' CHR ''-'' CHR ''_'') = ''METRICS''"
  "ToUpper (ReplaceChar ''metrics-period'' CHR ''-'' CHR ''_'') = ''METRICS_PERIOD''"
  "ToUpper (ReplaceChar ''no-compression'' CHR ''-'' CHR ''_'') = ''NO_COMPRESSION''"
  "ToUpper (ReplaceChar ''compression-cache-size'' CHR ''-'' CHR ''_'') = ''COMPRESSION_CACHE_SIZE''"
  "ToUpper (ReplaceChar ''peer-timeout'' CHR ''-'' CHR ''_'') = ''PEER_TIMEOUT''"
  by (simp_all add: ToUpper_def upper_def ReplaceChar_def char_of_def bit_0)

definition env_or :: "(string \<Rightarrow> 'a option) \<Rightarrow> string \<Rightarrow> 'a \<Rightarrow> 'a" where
  "env_or parse value x = (case parse value of Some v \<Rightarrow> v | None \<Rightarrow> x)"

definition nonempty :: "string \<Rightarrow> string option" where
  "nonempty s = (if s = [] then None else Some s)"

lemma override_env:
  "override Some (envVarLookup g key x) x = env_or nonempty (g (ToUpper (ReplaceChar key CHR ''-'' CHR ''_''))) x"
  "override Some (envVarLookup g key []) x = env_or nonempty (g (ToUpper (ReplaceChar key CHR ''-'' CHR ''_''))) x"
  "parse [] = None \<Longrightarrow>
     override parse (envVarLookup g key []) y = env_or parse (g (ToUpper (ReplaceChar key CHR ''-'' CHR ''_''))) y"
  by (simp_all add: override_def envVarLookup_def env_or_def nonempty_def Let_def)

lemma parse_empty: "Atoi [] = None" "ParseBool [] = None"
  by (simp_all add: Atoi_def ParseBool_def)

lemmas load_simps = loadEnvironment_def Let_def override_env parse_empty env_names env_or_def

text \<open>
  An environment variable that is set and can be parsed replaces its flag, and nothing else does:
  every setting is the value of its variable if there is a valid one, and the value of its flag otherwise.
\<close>

theorem environment_overrides:
  "loadEnvironment g f =
     \<lparr>fl_root = env_or nonempty (g ''FSROOT'') (fl_root f), fl_path = env_or nonempty (g ''BDPATH'') (fl_path f),
      fl_port = env_or Atoi (g ''PORT'') (fl_port f), fl_bindIP = env_or nonempty (g ''BIND'') (fl_bindIP f),
      fl_sectorSize = env_or Atoi (g ''SECTOR_SIZE'') (fl_sectorSize f),
      fl_readOnly = env_or ParseBool (g ''RO'') (fl_readOnly f),
      fl_verbose = env_or ParseBool (g ''VERBOSE'') (fl_verbose f),
      fl_logMetrics = env_or ParseBool (g ''METRICS'') (fl_logMetrics f),
      fl_logMetricsPeriod = env_or nonempty (g ''METRICS_PERIOD'') (fl_logMetricsPeriod f),
      fl_disableCompression = env_or ParseBool (g ''NO_COMPRESSION'') (fl_disableCompression f),
      fl_compressionCacheSize = env_or Atoi (g ''COMPRESSION_CACHE_SIZE'') (fl_compressionCacheSize f),
      fl_peerTimeout = env_or nonempty (g ''PEER_TIMEOUT'') (fl_peerTimeout f)\<rparr>"
  by (simp add: loadEnvironment_def Let_def override_env parse_empty env_names)

section \<open>From the flags to the server\<close>

lemma Server_New_opts:
  "Server_New (server_opts pd f fs) = Inr
     \<lparr>sv_fs = fs, sv_cMap = [],
      sv_peerTimeout = (let d = duration pd (fl_peerTimeout f) in if 0 < d then d else defaultPeerTimeout),
      sv_port = (if fl_port f = 0 then UDPFSPort else fl_port f), sv_bindIP = fl_bindIP f,
      sv_metricsLoggingPeriod = (let m = duration pd (fl_logMetricsPeriod f) in
        if fl_logMetrics f \<and> 0 < m then m else metricsLoggingPeriod),
      sv_verbose = fl_verbose f, sv_logMetrics = fl_logMetrics f\<rparr>"
  by (simp add: Server_New_def server_opts_def Let_def)

lemma main_setup_parts:
  assumes "main_setup os pd g flags w = Some (Inr s)"
  shows "NewBackend os (backend_opts (default_root (loadEnvironment g flags))) w = Some (Inr (sv_fs s))"
    "Server_New (server_opts pd (default_root (loadEnvironment g flags)) (sv_fs s)) = Inr s"
proof -
  let ?f = "default_root (loadEnvironment g flags)"
  obtain fs where fs: "NewBackend os (backend_opts ?f) w = Some (Inr fs)" "Server_New (server_opts pd ?f fs) = Inr s"
    using assms by (auto simp: main_setup_def Let_def split: option.splits sum.splits)
  have "sv_fs s = fs"
    using fs(2) by (auto simp: Server_New_opts)
  then show "NewBackend os (backend_opts ?f) w = Some (Inr (sv_fs s))" "Server_New (server_opts pd ?f (sv_fs s)) = Inr s"
    using fs by simp_all
qed

lemma mount_settings:
  "mount_root os s = Inr s1 \<Longrightarrow> be_enableCompression s1 = be_enableCompression s \<and> be_sectorSize s1 = be_sectorSize s \<and>
     be_readOnly s1 = be_readOnly s \<and> be_compressionCacheSize s1 = be_compressionCacheSize s"
  "mount_device os s = Some (Inr s1) \<Longrightarrow> be_enableCompression s1 = be_enableCompression s \<and> be_sectorSize s1 = be_sectorSize s \<and>
     be_readOnly s1 = be_readOnly s \<and> be_compressionCacheSize s1 = be_compressionCacheSize s"
  by (auto simp: mount_root_def mount_device_def sys_def Let_def split: if_splits sum.splits prod.splits)

text \<open>
  The server runs with the settings it was given. Whatever the flags, after a successful start the backend has the
  sector size, cache size, read-only and decompression settings, and the server the port, data address,
  timeouts and logging settings of the flags; where a number is zero, a duration does not parse or is not positive, the default
  holds: 512 bytes, no cache, port 62966, one hour, one minute.
\<close>

theorem main_settings:
  assumes "main_setup os pd g flags w = Some (Inr s)"
  defines "f \<equiv> loadEnvironment g flags"
  defines "d \<equiv> duration pd (fl_peerTimeout f)" and "m \<equiv> duration pd (fl_logMetricsPeriod f)"
  shows "be_sectorSize (sv_fs s) = (if fl_sectorSize f = 0 then 512 else fl_sectorSize f) \<and>
    be_compressionCacheSize (sv_fs s) = fl_compressionCacheSize f \<and>
    be_readOnly (sv_fs s) = fl_readOnly f \<and> be_enableCompression (sv_fs s) = (\<not> fl_disableCompression f) \<and>
    sv_port s = (if fl_port f = 0 then 62966 else fl_port f) \<and> sv_bindIP s = fl_bindIP f \<and>
    sv_peerTimeout s = (if 0 < d then d else 3600000000000) \<and>
    sv_verbose s = fl_verbose f \<and> sv_logMetrics s = fl_logMetrics f \<and>
    sv_metricsLoggingPeriod s = (if fl_logMetrics f \<and> 0 < m then m else 60000000000) \<and> sv_cMap s = []"
proof -
  let ?f = "default_root f"
  have same: "fl_sectorSize ?f = fl_sectorSize f" "fl_compressionCacheSize ?f = fl_compressionCacheSize f"
    "fl_readOnly ?f = fl_readOnly f" "fl_disableCompression ?f = fl_disableCompression f" "fl_port ?f = fl_port f"
    "fl_bindIP ?f = fl_bindIP f" "fl_peerTimeout ?f = fl_peerTimeout f" "fl_verbose ?f = fl_verbose f"
    "fl_logMetrics ?f = fl_logMetrics f" "fl_logMetricsPeriod ?f = fl_logMetricsPeriod f"
    by (simp_all add: default_root_def)
  note parts = main_setup_parts [OF assms(1), folded f_def]
  let ?s = "fold apply_opt (backend_opts ?f) (initial_backend w)"
  obtain s1 where s1: "mount_root os ?s = Inr s1" "mount_device os s1 = Some (Inr (sv_fs s))"
    using parts(1) by (auto simp: NewBackend_def Let_def split: sum.splits)
  note mounted = mount_settings(1) [OF s1(1)] mount_settings(2) [OF s1(2)]
  have backend: "be_sectorSize (sv_fs s) = (if fl_sectorSize f = 0 then 512 else fl_sectorSize f)"
    "be_compressionCacheSize (sv_fs s) = fl_compressionCacheSize f" "be_readOnly (sv_fs s) = fl_readOnly f"
    "be_enableCompression (sv_fs s) = (\<not> fl_disableCompression f)"
    using mounted by (simp_all add: backend_opts_def initial_backend_def same)
  note e = parts(2) [unfolded Server_New_opts sum.inject, symmetric]
  have server: "sv_port s = (if fl_port f = 0 then 62966 else fl_port f)" "sv_bindIP s = fl_bindIP f"
    "sv_peerTimeout s = (if 0 < d then d else 3600000000000)" "sv_verbose s = fl_verbose f" "sv_logMetrics s = fl_logMetrics f"
    "sv_metricsLoggingPeriod s = (if fl_logMetrics f \<and> 0 < m then m else 60000000000)" "sv_cMap s = []"
    by (subst e, simp add: same d_def m_def Let_def)+
  show ?thesis using backend server by blast
qed

definition demo_getenv :: "string \<Rightarrow> string" where
  "demo_getenv n = (if n = ''FSROOT'' then ''/srv'' else if n = ''RO'' then ''1'' else if n = ''PORT'' then ''x'' else
     if n = ''PEER_TIMEOUT'' then ''90s'' else [])"

definition demo_pd :: "string \<Rightarrow> int option" where
  "demo_pd s = (if s = ''90s'' then Some 90000000000 else None)"

lemma demo_flags:
  "loadEnvironment demo_getenv default_flags =
     default_flags\<lparr>fl_root := ''/srv'', fl_readOnly := True, fl_peerTimeout := ''90s''\<rparr>"
  by (simp add: load_simps demo_getenv_def default_flags_def ParseBool_def Atoi_def digit_def nonempty_def)

lemma demo_setup: "\<exists>s. main_setup demo_os demo_pd demo_getenv default_flags () = Some (Inr s)"
proof -
  have "Abs (Inr ''/'') ''/srv'' = Inr ''/srv''" by code_simp
  then show ?thesis
    unfolding main_setup_def demo_flags
    by (simp add: default_flags_def default_root_def backend_opts_def NewBackend_def mount_root_def
        mount_device_def sys_def demo_os_def demo_info_def initial_backend_def Server_New_opts)
qed

theorem main_settings_witness:
  "\<exists>s. main_setup demo_os demo_pd demo_getenv default_flags () = Some (Inr s) \<and> be_sectorSize (sv_fs s) = 512 \<and>
     be_readOnly (sv_fs s) \<and> be_enableCompression (sv_fs s) \<and> sv_port s = 62966 \<and> sv_peerTimeout s = 90000000000"
proof -
  obtain s where s: "main_setup demo_os demo_pd demo_getenv default_flags () = Some (Inr s)" using demo_setup by blast
  show ?thesis using main_settings [OF s, unfolded demo_flags] s
    by (intro exI [of _ s]) (simp add: default_flags_def duration_def demo_pd_def)
qed

text \<open>
  C9: Read-only from the command line to the disk. A server that was started with \<^verbatim>\<open>RO\<close> set to a true value, or
  with \<^verbatim>\<open>-ro\<close> and no false value in \<^verbatim>\<open>RO\<close>, never makes a call that changes the host, whatever the clients
  send.
\<close>

theorem main_read_only:
  assumes "os_ok os" "main_setup os pd g flags w = Some (Inr s0)" "server_reachable (backend_envs os) s0 s"
    and ro: "env_or ParseBool (g ''RO'') (fl_readOnly flags)"
  shows "list_all (\<lambda>c. \<not> mutating c) (be_log (sv_fs s))"
proof -
  note parts = main_setup_parts [OF assms(2)]
  have "fl_readOnly (default_root (loadEnvironment g flags))"
    using ro by (simp add: default_root_def loadEnvironment_def Let_def override_env parse_empty env_names)
  then have "WithReadOnly \<in> set (backend_opts (default_root (loadEnvironment g flags)))" by (simp add: backend_opts_def)
  then show ?thesis using read_only_calls [OF assms(1) parts assms(3)] by blast
qed

theorem main_read_only_witness:
  "\<exists>s. main_setup demo_os demo_pd demo_getenv default_flags () = Some (Inr s) \<and>
     list_all (\<lambda>c. \<not> mutating c) (be_log (sv_fs s))"
proof -
  obtain s where s: "main_setup demo_os demo_pd demo_getenv default_flags () = Some (Inr s)" using demo_setup by blast
  have "env_or ParseBool (demo_getenv ''RO'') (fl_readOnly default_flags)"
    by (simp add: env_or_def ParseBool_def demo_getenv_def)
  then show ?thesis using main_read_only [OF demo_os_ok s server_reachable.start] s by blast
qed

text \<open>
  \<^verbatim>\<open>NO_COMPRESSION=0\<close> leaves decompression on, with or without \<^verbatim>\<open>-no-compression\<close> on the command line.
\<close>

theorem no_compression_zero:
  assumes "g ''NO_COMPRESSION'' = ''0''"
  shows "WithCompression \<in> set (backend_opts (default_root (loadEnvironment g flags)))"
proof -
  have "ParseBool ''0'' = Some False" by (simp add: ParseBool_def)
  then have "\<not> fl_disableCompression (default_root (loadEnvironment g flags))"
    using assms by (simp add: default_root_def loadEnvironment_def Let_def override_env parse_empty env_names env_or_def)
  then show ?thesis by (simp add: backend_opts_def)
qed

theorem no_compression_zero_witness:
  "WithCompression \<in> set (backend_opts (default_root (loadEnvironment (\<lambda>_. ''0'') (default_flags\<lparr>fl_disableCompression := True\<rparr>))))"
  by (rule no_compression_zero) simp

section \<open>The address of the data socket\<close>

text \<open>\<^verbatim>\<open>net.SplitHostPort\<close> and \<^verbatim>\<open>net.JoinHostPort\<close>\<close>

definition index_of :: "char \<Rightarrow> string \<Rightarrow> nat option" where
  "index_of c s = (if c \<in> set s then Some (length (takeWhile (\<lambda>x. x \<noteq> c) s)) else None)"

definition last_index_of :: "char \<Rightarrow> string \<Rightarrow> nat option" where
  "last_index_of c s =
     (if c \<in> set s then Some (length s - 1 - length (takeWhile (\<lambda>x. x \<noteq> c) (rev s))) else None)"

definition SplitHostPort :: "string \<Rightarrow> (string \<times> string) option" where
  "SplitHostPort hostport =
     (case last_index_of CHR '':'' hostport of
        None \<Rightarrow> None
      | Some i \<Rightarrow>
          if hd hostport = CHR ''['' then
            (case index_of CHR '']'' hostport of
               None \<Rightarrow> None
             | Some e \<Rightarrow>
                 if e + 1 = length hostport then None
                 else if e + 1 = i then
                   if CHR ''['' \<in> set (drop 1 hostport) \<or> CHR '']'' \<in> set (drop (e + 1) hostport) then None
                   else Some (take (e - 1) (drop 1 hostport), drop (i + 1) hostport)
                 else None)
          else
            let host = take i hostport
            in if CHR '':'' \<in> set host then None
               else if CHR ''['' \<in> set hostport \<or> CHR '']'' \<in> set hostport then None
               else Some (host, drop (i + 1) hostport))"

definition JoinHostPort :: "string \<Rightarrow> string \<Rightarrow> string" where
  "JoinHostPort host port =
     (if CHR '':'' \<in> set host then ''['' @ host @ '']:'' @ port else host @ '':'' @ port)"

definition bind_address :: "string \<Rightarrow> string" where
  "bind_address bindIP =
     (if bindIP \<noteq> [] then if SplitHostPort bindIP = None then JoinHostPort bindIP ''0'' else bindIP
      else '':0'')"

lemma last_index_append: "c \<notin> set ys \<Longrightarrow> last_index_of c (xs @ c # ys) = Some (length xs)"
  by (auto simp: last_index_of_def takeWhile_append)

lemma index_of_append: "c \<notin> set xs \<Longrightarrow> index_of c (xs @ c # ys) = Some (length xs)"
  by (auto simp: index_of_def takeWhile_append)

lemma split_plain:
  assumes "CHR '':'' \<notin> set host" "CHR ''['' \<notin> set host" "CHR '']'' \<notin> set host"
  shows "SplitHostPort (host @ '':0'') = Some (host, ''0'')"
proof -
  have "last_index_of CHR '':'' (host @ '':0'') = Some (length host)"
    using last_index_append [of "CHR '':''" "''0''" host] by simp
  moreover have "hd (host @ '':0'') \<noteq> CHR ''[''" using assms(2) by (cases host) auto
  ultimately show ?thesis using assms by (simp add: SplitHostPort_def)
qed

lemma split_bracketed:
  assumes "CHR ''['' \<notin> set host" "CHR '']'' \<notin> set host"
  shows "SplitHostPort (''['' @ host @ '']:0'') = Some (host, ''0'')"
proof -
  have i: "last_index_of CHR '':'' (''['' @ host @ '']:0'') = Some (length host + 2)"
    using last_index_append [of "CHR '':''" "''0''" "''['' @ host @ '']''"] by simp
  have e: "index_of CHR '']'' (''['' @ host @ '']:0'') = Some (length host + 1)"
    using index_of_append [of "CHR '']''" "''['' @ host" "'':0''"] assms by simp
  show ?thesis unfolding SplitHostPort_def i e using assms by simp
qed

text \<open>
  Every address without brackets gives an address to listen on: what has a port already is taken as it is,
  and what has none, be it a name, an IPv4 or an IPv6 address, gets port 0 and keeps its host.
\<close>

theorem bind_address_splits:
  assumes "CHR ''['' \<notin> set ip" "CHR '']'' \<notin> set ip"
  shows "SplitHostPort (bind_address ip) = (case SplitHostPort ip of Some hp \<Rightarrow> Some hp | None \<Rightarrow> Some (ip, ''0''))"
proof (cases "SplitHostPort ip")
  case None
  show ?thesis
  proof (cases "ip = []")
    case True
    then show ?thesis using None split_plain [of "[]"] by (simp add: bind_address_def)
  next
    case False
    then show ?thesis using None assms split_plain split_bracketed by (simp add: bind_address_def JoinHostPort_def)
  qed
next
  case (Some hp)
  then have "ip \<noteq> []" by (auto simp: SplitHostPort_def last_index_of_def)
  then show ?thesis using Some by (simp add: bind_address_def)
qed

theorem bind_address_splits_witness:
  "SplitHostPort (bind_address ''fe80::1'') = Some (''fe80::1'', ''0'') \<and>
   SplitHostPort (bind_address ''10.0.0.1:5'') = Some (''10.0.0.1'', ''5'')"
proof
  have "SplitHostPort ''fe80::1'' = None" "SplitHostPort ''10.0.0.1:5'' = Some (''10.0.0.1'', ''5'')"
    by (simp_all add: SplitHostPort_def last_index_of_def)
  then show "SplitHostPort (bind_address ''fe80::1'') = Some (''fe80::1'', ''0'')"
    "SplitHostPort (bind_address ''10.0.0.1:5'') = Some (''10.0.0.1'', ''5'')"
    using bind_address_splits [of "''fe80::1''"] bind_address_splits [of "''10.0.0.1:5''"] by simp_all
qed

end
