(* ===== verification/Spec2Isabelle.thy ===== *)
theory Spec2Isabelle
  imports RdmaDelivery Compression UdpfsLog FsTable Config
begin

text \<open>
  \<^bold>\<open>A verification library for udpfsd\<close>

  \<^verbatim>\<open>udpfsd\<close> serves a directory and a block device to PlayStation 2 consoles over UDP. A client finds the
  server with a discovery packet, then exchanges DATA packets with it in a session of the UDPRDMA
  protocol (go-back-N with 12-bit sequence numbers, cumulative ACKs and NACKs); the payloads are UDPFS
  requests, which a connection decodes and hands to a backend that owns a table of 64 open files and
  directories; compressed CSO, ZSO and CHD images are presented as plain \<^verbatim>\<open>.iso\<close> files.

  \<^bold>\<open>How the code is modelled.\<close> Go functions are HOL functions that take and return the state they
  change; a Go panic is \<open>None\<close> of an outer option, a Go error a value (\<open>go_error + 'a\<close> or
  \<open>go_error option\<close>). Sized integers are words where bits or wrap-around matter and otherwise integers
  with \<open>int64\<close> and \<open>int32\<close> applied where the code can overflow; slices are checked byte lists
  (\<open>go_slice\<close>), maps are association lists visited in an arbitrary order, strings are lists of bytes.
  The operating system is a parameter, a record of functions on a world (\<open>'w OS\<close>), and every call made
  to it is appended to a log in the backend, about which the theorems speak. The decompressors
  (\<^verbatim>\<open>compress/flate\<close>, \<^verbatim>\<open>compress/zlib\<close>, LZ4, libchdr), \<^verbatim>\<open>time.ParseDuration\<close> and the socket of the batch
  writer are parameters as well; what is relied on of them is a named hypothesis (\<open>os_ok\<close>, \<open>os_steady\<close>,
  \<open>seeks\<close>, \<open>lz4_ok\<close>). The clock is an argument of each operation.

  \<^bold>\<open>Theories.\<close>
  \<^item> \<open>Prelude\<close>: words, byte orders, checked slices, the option monad and its rules \<open>post\<close> and \<open>returns\<close>;
    \<open>GoRuntime\<close>, \<open>GoPath\<close>: integers, errors, times, file reads, and \<^verbatim>\<open>path/filepath\<close> on Unix paths.
  \<^item> \<^verbatim>\<open>udprdma/\<close>: \<open>RdmaProtocol\<close> (\<^verbatim>\<open>protocol.go\<close>; locale \<open>wire_header\<close> for the packed headers), \<open>RdmaSession\<close>
    (\<^verbatim>\<open>session.go\<close>, \<^verbatim>\<open>metrics.go\<close>, \<^verbatim>\<open>ack_timer.go\<close>), \<open>RdmaTx\<close> (\<^verbatim>\<open>session_tx.go\<close>, \<^verbatim>\<open>acks.go\<close>), \<open>RdmaRx\<close>
    (\<^verbatim>\<open>session_rx.go\<close>). The record \<open>session\<close> has the fields of \<^verbatim>\<open>Session\<close>; \<open>outbox\<close> collects what is written
    to the network. \<open>RdmaRing\<close> proves the retransmit ring to be a queue (locale \<open>packet_ring\<close>), \<open>RdmaInv\<close>
    the invariant of a session under every operation, \<open>RdmaSteps\<close> defines the state machine \<open>reachable\<close>
    and the abstract receiver \<open>rx_spec\<close>, and \<open>RdmaDelivery\<close> has the properties of delivery, retransmission,
    window and timer.
  \<^item> \<^verbatim>\<open>internal/fs/compression/\<close>: \<open>BlockCache\<close> (\<^verbatim>\<open>cache.go\<close>, locale \<open>block_store\<close>), \<open>CachedReader\<close>
    (\<^verbatim>\<open>reader.go\<close>, over the contract of \<open>BlockReader\<close>, locale \<open>block_reader\<close>), \<open>CsoFormat\<close>, \<open>ZsoFormat\<close>,
    \<open>ChdFormat\<close> (\<^verbatim>\<open>cso.go\<close>, \<^verbatim>\<open>zso.go\<close>, \<^verbatim>\<open>chd.go\<close>) and \<open>Compression\<close> (\<^verbatim>\<open>compression.go\<close>). \<open>ImageSpec\<close> states the
    three file formats without reference to the readers; each reader is proved to read a well-formed
    file as its image, and \<open>Compression\<close> that an opened image behaves like the plain file.
  \<^item> \<^verbatim>\<open>internal/fs/\<close>: \<open>FsPath\<close> (\<^verbatim>\<open>utils.go\<close>), \<open>FsHandles\<close> (\<^verbatim>\<open>handles.go\<close>, \<^verbatim>\<open>backend.go\<close>), \<open>FsOps\<close>
    (\<^verbatim>\<open>fileops.go\<close>); \<open>FsInv\<close> proves that every operation keeps the invariant of the backend (paths below
    the root, one writer or many readers, no changing call in read-only mode).
  \<^item> \<^verbatim>\<open>udpfs/\<close>: \<open>UdpfsWire\<close> (\<^verbatim>\<open>protocol.go\<close>, \<^verbatim>\<open>fs.go\<close>, \<^verbatim>\<open>utils.go\<close>), \<open>UdpfsConn\<close> (\<^verbatim>\<open>connection.go\<close>, \<^verbatim>\<open>metrics.go\<close>),
    \<open>UdpfsHandlers\<close> (\<^verbatim>\<open>handlers.go\<close>), \<open>UdpfsLog\<close> (\<^verbatim>\<open>logPayload\<close>). The handlers are written over the \<^verbatim>\<open>FS\<close>
    interface as a record of methods; \<open>UdpfsContract\<close> (locale \<open>fs_contract\<close>) and \<open>UdpfsTotal\<close> (locale
    \<open>fs_total\<close>) state what they rely on and prove, once, that the handlers keep sessions and handles in
    order and do not panic.
  \<^item> \<^verbatim>\<open>internal/udpfsd/\<close>: \<open>UdpfsServer\<close> (\<^verbatim>\<open>server.go\<close>, \<^verbatim>\<open>data.go\<close>, \<^verbatim>\<open>discovery.go\<close>, \<^verbatim>\<open>udpwrite_linux.go\<close>) has the
    server as a transition system: a datagram, a timer expiry or a cleanup tick is a step.
  \<^item> The server with its backend: \<open>FsServer\<close> interprets \<open>fs_contract\<close> and has confinement, read-only mode,
    exclusive writing and sound sessions for every reachable state; \<open>FsTotal\<close> interprets \<open>fs_total\<close> and
    proves that the server does not panic but for the requests that \<open>FsLimits\<close> proves to crash it;
    \<open>FsLimits\<close> also has the cleanup of idle peers and the sharing of handles; \<open>FsWrites\<close> and \<open>FsReads\<close>
    follow a write from its chunks to the disk and a read from the disk to the client's session;
    \<open>FsTable\<close> specifies the allocation of handles.
  \<^item> \<open>Config\<close> (\<^verbatim>\<open>cmd/udpfsd/main.go\<close> and the addresses of \<^verbatim>\<open>Server.Start\<close>): flags and environment, up to the
    server that runs with them.

  \<^bold>\<open>Bounds and fuel.\<close> The loops of the code are recursive functions with termination proofs, except where
  a count bounds them: \<open>pruneAcked_loop\<close> and \<open>retransmit_loop\<close> run for at most as many rounds as the
  ring has slots, \<open>lz4_retry\<close> for as many as there are bytes. \<open>exchange\<close>, which alternates deliveries and
  ACKs, takes the number of rounds; the delivery theorems prove that some number gives a result. Sizes are
  bounded where the code computes with 64-bit integers: images below 2^60 bytes, CHD contents below
  2^40, files below 2^63.

  \<^bold>\<open>Not modelled.\<close> Sockets, goroutines and mutexes (an operation is one atomic step, and the timer may
  fire between any two), the printing of statistics and its floating-point averages, socket options,
  signal handling, flag syntax, memory exhaustion, Windows paths, letters other than ASCII in
  \<^verbatim>\<open>ToLower\<close>, links on the host, the decompressors themselves, and what a short write of libchdr leaves in
  its buffer. Files that are opened as images are taken not to change while they are open.
\<close>

end
